(* ===== verification/Prelude.thy ===== *)
theory Prelude
  imports Main "HOL-Library.Word"
begin

text \<open>
  Shared vocabulary of the development: the machine integers of the C sources, the result
  type that every kernel operation returns, the byte-addressed memory with its little-endian
  32-bit accesses, and the arithmetic of pages and word alignment that the component
  theories use.
\<close>

unbundle bit_operations_syntax

section \<open>Machine integers\<close>

text \<open>The integer types of \<^verbatim>\<open>types.h\<close>: \<open>uchar\<close>, \<open>ushort\<close> and \<open>uint\<close>.\<close>

type_synonym u8 = "8 word"
type_synonym u16 = "16 word"
type_synonym u32 = "32 word"

named_theorems word_nat \<open>reading words as natural numbers\<close>

lemma uint_eq_sint: "uint (x :: u32) = (if sint x < 0 then sint x + 4294967296 else sint x)"
proof -
  have u: "uint x = sint x mod 4294967296" using uint_sint [of x] by (simp add: take_bit_eq_mod)
  have b: "- 2147483648 \<le> sint x" "sint x < 2147483648" using sint_ge [of x] sint_lt [of x] by simp_all
  show ?thesis
  proof (cases "sint x < 0")
    case True
    have "sint x mod 4294967296 = (sint x + 4294967296) mod 4294967296" by simp
    also have "\<dots> = sint x + 4294967296" using b True by (intro mod_pos_pos_trivial) simp_all
    finally show ?thesis using u True by simp
  next
    case False
    then show ?thesis using u b by simp
  qed
qed

lemma unat_lt_32: "unat (a :: u32) < 4294967296"
  using unsigned_less [of a, where ?'a = nat] by simp

lemma unat_lt_8: "unat (a :: u8) < 256"
  using unsigned_less [of a, where ?'a = nat] by simp

lemma unat_plus_no_wrap:
  "unat (a :: u32) + unat b < 4294967296 \<Longrightarrow> unat (a + b) = unat a + unat b"
  by (simp add: unat_word_ariths)

lemma unat_minus_le: "(b :: u32) \<le> a \<Longrightarrow> unat (a - b) = unat a - unat b"
  by (rule unat_sub)

lemma unat_minus_wrap:
  "\<not> unat b \<le> unat a \<Longrightarrow> unat (a - b) = 4294967296 + unat a - unat b" for a b :: u32
  by (simp add: unat_sub_if_size word_size)

lemma unat_of_nat_32: "n < 4294967296 \<Longrightarrow> unat (of_nat n :: u32) = n"
  by (simp add: unat_of_nat take_bit_eq_mod)

lemma unat_plus_of_nat:
  "unat (a :: u32) + i < 4294967296 \<Longrightarrow> unat (a + of_nat i) = unat a + i"
  using unat_plus_no_wrap [of a "of_nat i"] by (simp add: unat_of_nat_32)

lemma word_eq_unat: "(a :: u32) = b \<longleftrightarrow> unat a = unat b"
  by (simp add: word_unat_eq_iff)

section \<open>Lists\<close>

lemma length_Suc_remove1: "x \<in> set xs \<Longrightarrow> length xs = Suc (length (remove1 x xs))"
  by (induction xs) auto

section \<open>Results of kernel operations\<close>

text \<open>
  A kernel operation runs on a state until it returns (\<open>Ret\<close>, with its value and the new
  state), until it gives up the processor in \<open>sleep()\<close> (\<open>Sleep\<close>, with the state it leaves
  behind), or until it stops for good: \<open>Panic\<close> is a call of \<open>panic()\<close> with its message,
  \<open>Fault\<close> is an access outside any object (a null or wild pointer), and \<open>NoFuel\<close> means that a
  loop did not end within the number of rounds the model gives it.
\<close>

datatype ('s, 'a) res = Ret 'a 's | Sleep 's | Panic string | Fault string | NoFuel

text \<open>Sequential composition: the second operation runs only if the first one returns.\<close>

fun bindR :: "('s, 'a) res \<Rightarrow> ('a \<Rightarrow> 's \<Rightarrow> ('s, 'b) res) \<Rightarrow> ('s, 'b) res" where
  "bindR (Ret x s) f = f x s"
| "bindR (Sleep s) f = Sleep s"
| "bindR (Panic msg) f = Panic msg"
| "bindR (Fault msg) f = Fault msg"
| "bindR NoFuel f = NoFuel"

lemma bindR_eq_Ret [simp]:
  "bindR m f = Ret y t \<longleftrightarrow> (\<exists>x s. m = Ret x s \<and> f x s = Ret y t)"
  by (cases m) auto

lemma bindR_assoc: "bindR (bindR m f) g = bindR m (\<lambda>x s. bindR (f x s) g)"
  by (cases m) auto

lemma bindR_Ret_id [simp]: "bindR m Ret = m"
  by (cases m) auto

lemma bindR_cong [fundef_cong]:
  "m = m' \<Longrightarrow> (\<And>x s. m' = Ret x s \<Longrightarrow> f x s = g x s) \<Longrightarrow> bindR m f = bindR m' g"
  by (cases m') auto

text \<open>
  Two readings of a result: \<open>runs r Q\<close> says that the operation returns and its value and
  state satisfy \<open>Q\<close> (total correctness), \<open>safe r Q\<close> that they do if it returns.
\<close>

fun runs :: "('s, 'a) res \<Rightarrow> ('a \<Rightarrow> 's \<Rightarrow> bool) \<Rightarrow> bool" where
  "runs (Ret x s) Q = Q x s"
| "runs _ Q = False"

fun safe :: "('s, 'a) res \<Rightarrow> ('a \<Rightarrow> 's \<Rightarrow> bool) \<Rightarrow> bool" where
  "safe (Ret x s) Q = Q x s"
| "safe _ Q = True"

lemma runs_bindR [simp]: "runs (bindR m f) Q \<longleftrightarrow> runs m (\<lambda>x s. runs (f x s) Q)"
  by (cases m) auto

lemma safe_bindR [simp]: "safe (bindR m f) Q \<longleftrightarrow> safe m (\<lambda>x s. safe (f x s) Q)"
  by (cases m) auto

lemma runs_iff: "runs m Q \<longleftrightarrow> (\<exists>x s. m = Ret x s \<and> Q x s)"
  by (cases m) auto

lemma safe_iff: "safe m Q \<longleftrightarrow> (\<forall>x s. m = Ret x s \<longrightarrow> Q x s)"
  by (cases m) auto

lemma runs_mono: "runs m Q \<Longrightarrow> (\<And>x s. Q x s \<Longrightarrow> R x s) \<Longrightarrow> runs m R"
  by (cases m) auto

lemma safe_mono: "safe m Q \<Longrightarrow> (\<And>x s. Q x s \<Longrightarrow> R x s) \<Longrightarrow> safe m R"
  by (cases m) auto

section \<open>Byte-addressed memory\<close>

type_synonym memory = "u32 \<Rightarrow> u8"

text \<open>Little-endian loads and stores of 32-bit words, as the x86 does them.\<close>

definition load32 :: "memory \<Rightarrow> u32 \<Rightarrow> u32" where
  "load32 m a =
     (ucast (m a) OR push_bit 8 (ucast (m (a + 1)))
      OR push_bit 16 (ucast (m (a + 2))) OR push_bit 24 (ucast (m (a + 3))))"

definition store32 :: "memory \<Rightarrow> u32 \<Rightarrow> u32 \<Rightarrow> memory" where
  "store32 m a v =
     m(a := ucast v, a + 1 := ucast (drop_bit 8 v),
       a + 2 := ucast (drop_bit 16 v), a + 3 := ucast (drop_bit 24 v))"

lemma bytes32:
  "((ucast (ucast (v :: u32) :: u8) :: u32) OR push_bit 8 (ucast (ucast (drop_bit 8 v) :: u8))
    OR push_bit 16 (ucast (ucast (drop_bit 16 v) :: u8))
    OR push_bit 24 (ucast (ucast (drop_bit 24 v) :: u8))) = v" (is "?l = v")
proof (rule bit_word_eqI)
  fix n assume "n < LENGTH(32)"
  then consider "n < 8" | "8 \<le> n" "n < 16" | "16 \<le> n" "n < 24" | "24 \<le> n" "n < 32"
    by fastforce
  then show "bit ?l n = bit v n"
    by cases (auto simp: bit_simps)
qed

lemma load32_store32_same [simp]: "load32 (store32 m a v) a = v"
  by (simp add: load32_def store32_def bytes32)

definition aligned4 :: "u32 \<Rightarrow> bool" where
  "aligned4 a \<longleftrightarrow> unat a mod 4 = 0"

lemma aligned4_unat_plus:
  assumes "aligned4 a" "i < 4"
  shows "unat (a + of_nat i) = unat a + i"
proof -
  have "unat a < 4294967296" by (rule unat_lt_32)
  moreover obtain k where "unat a = 4 * k"
    using assms(1) by (auto simp: aligned4_def elim: dvdE)
  ultimately have "unat a + i < 4294967296"
    using assms(2) by auto
  then show ?thesis by (rule unat_plus_of_nat)
qed

lemma aligned4_plus_eq:
  assumes "aligned4 a" "aligned4 b" "i < 4" "j < 4"
  shows "a + of_nat i = b + of_nat j \<longleftrightarrow> a = b \<and> i = j"
proof
  assume eq: "a + of_nat i = b + of_nat j"
  then have "unat a + i = unat b + j"
    using assms by (metis aligned4_unat_plus)
  moreover have "unat a mod 4 = 0" "unat b mod 4 = 0"
    using assms by (simp_all add: aligned4_def)
  ultimately have "i = j"
    using assms(3,4) by presburger
  with eq show "a = b \<and> i = j" by simp
qed simp

lemma load32_cong:
  assumes "\<And>i. i < 4 \<Longrightarrow> m (a + of_nat i) = m' (a + of_nat i)"
  shows "load32 m a = load32 m' a"
  using assms [of 0] assms [of 1] assms [of 2] assms [of 3] by (simp add: load32_def)

lemma store32_other:
  assumes "aligned4 a" "aligned4 b" "a \<noteq> b" "i < 4"
  shows "store32 m a v (b + of_nat i) = m (b + of_nat i)"
  using aligned4_plus_eq [OF assms(2,1,4), of 0] aligned4_plus_eq [OF assms(2,1,4), of 1]
    aligned4_plus_eq [OF assms(2,1,4), of 2] aligned4_plus_eq [OF assms(2,1,4), of 3] assms(3)
  by (simp add: store32_def)

lemma load32_store32_other:
  "aligned4 a \<Longrightarrow> aligned4 b \<Longrightarrow> a \<noteq> b \<Longrightarrow> load32 (store32 m a v) b = load32 m b"
  by (rule load32_cong) (simp add: store32_other)

end
