(* ===== verification/Cstring.thy ===== *)
theory Cstring
  imports Prelude
begin

text \<open>
  The kernel's string and memory routines (\<^verbatim>\<open>string.c\<close>) on the byte-addressed memory, with
  the block-fill instructions of \<^verbatim>\<open>x86.h\<close> they are built on. Routines that only read
  through a pointer take the sequence of bytes from that pointer on (\<open>cptr\<close>), so that they
  apply to memory and to the character arrays of the other components alike.
\<close>

section \<open>Filling and moving memory\<close>

text \<open>\<^verbatim>\<open>rep stosb\<close> and \<^verbatim>\<open>rep stosl\<close>.\<close>

primrec stosb :: "memory \<Rightarrow> u32 \<Rightarrow> u8 \<Rightarrow> nat \<Rightarrow> memory" where
  "stosb m addr data 0 = m"
| "stosb m addr data (Suc cnt) = stosb (m(addr := data)) (addr + 1) data cnt"

primrec stosl :: "memory \<Rightarrow> u32 \<Rightarrow> u32 \<Rightarrow> nat \<Rightarrow> memory" where
  "stosl m addr data 0 = m"
| "stosl m addr data (Suc cnt) = stosl (store32 m addr data) (addr + 4) data cnt"

definition memset :: "memory \<Rightarrow> u32 \<Rightarrow> u32 \<Rightarrow> u32 \<Rightarrow> memory" where
  "memset m dst c n =
     (if sint dst mod 4 = 0 \<and> n mod 4 = 0 then
        (let c = c AND 0xFF in
         stosl m dst (push_bit 24 c OR push_bit 16 c OR push_bit 8 c OR c) (unat (n div 4)))
      else stosb m dst (ucast c) (unat n))"

primrec memcmp :: "memory \<Rightarrow> u32 \<Rightarrow> u32 \<Rightarrow> nat \<Rightarrow> int" where
  "memcmp m s1 s2 0 = 0"
| "memcmp m s1 s2 (Suc n) =
     (if m s1 \<noteq> m s2 then uint (m s1) - uint (m s2)
      else memcmp m (s1 + 1) (s2 + 1) n)"

text \<open>The two copying loops of \<open>memmove\<close>: from the end down, and from the start up.\<close>

primrec move_down :: "memory \<Rightarrow> u32 \<Rightarrow> u32 \<Rightarrow> nat \<Rightarrow> memory" where
  "move_down m d s 0 = m"
| "move_down m d s (Suc n) = move_down (m(d - 1 := m (s - 1))) (d - 1) (s - 1) n"

primrec move_up :: "memory \<Rightarrow> u32 \<Rightarrow> u32 \<Rightarrow> nat \<Rightarrow> memory" where
  "move_up m d s 0 = m"
| "move_up m d s (Suc n) = move_up (m(d := m s)) (d + 1) (s + 1) n"

definition memmove :: "memory \<Rightarrow> u32 \<Rightarrow> u32 \<Rightarrow> u32 \<Rightarrow> memory" where
  "memmove m dst src n =
     (if src < dst \<and> src + n > dst then move_down m (dst + n) (src + n) (unat n)
      else move_up m dst src (unat n))"

section \<open>Strings\<close>

text \<open>The bytes from a pointer on; \<open>p + 1\<close> is the shifted sequence.\<close>

type_synonym cptr = "nat \<Rightarrow> u8"

definition ptr :: "memory \<Rightarrow> u32 \<Rightarrow> cptr" where
  "ptr m a = (\<lambda>i. m (a + of_nat i))"

definition arr :: "u8 list \<Rightarrow> cptr" where
  "arr xs = (\<lambda>i. if i < length xs then xs ! i else 0)"

definition adv :: "cptr \<Rightarrow> cptr" where
  "adv p = (\<lambda>i. p (Suc i))"

primrec strncmp :: "cptr \<Rightarrow> cptr \<Rightarrow> nat \<Rightarrow> int" where
  "strncmp p q 0 = 0"
| "strncmp p q (Suc n) =
     (if p 0 \<noteq> 0 \<and> p 0 = q 0 then strncmp (adv p) (adv q) n
      else uint (p 0) - uint (q 0))"

text \<open>The \<open>n\<close> bytes that \<open>strncpy\<close> writes: the string, then zeros.\<close>

primrec strncpy :: "cptr \<Rightarrow> nat \<Rightarrow> u8 list" where
  "strncpy t 0 = []"
| "strncpy t (Suc n) = (if t 0 \<noteq> 0 then t 0 # strncpy (adv t) n else 0 # replicate n 0)"

text \<open>
  The bytes that \<open>safestrcpy\<close> writes, from the destination on. A terminator that the loop
  copies is followed by the one the last assignment writes.
\<close>

fun safestrcpy :: "cptr \<Rightarrow> nat \<Rightarrow> u8 list" where
  "safestrcpy t 0 = []"
| "safestrcpy t (Suc 0) = [0]"
| "safestrcpy t (Suc (Suc n)) = (if t 0 \<noteq> 0 then t 0 # safestrcpy (adv t) (Suc n) else [0, 0])"

partial_function (option) strlen_loop :: "cptr \<Rightarrow> nat \<Rightarrow> nat option" where
  "strlen_loop s n = (if s n \<noteq> 0 then strlen_loop s (n + 1) else Some n)"

definition strlen :: "cptr \<Rightarrow> nat option" where
  "strlen s = strlen_loop s 0"

section \<open>What the memory routines compute\<close>

lemma unat_minus_Suc:
  fixes x a :: u32
  assumes "x \<noteq> a"
  shows "unat (x - a) = Suc (unat (x - (a + 1)))"
proof -
  have "0 < unat (x - a)"
    using assms by (metis eq_iff_diff_eq_0 gr0I unat_eq_zero)
  then have "1 \<le> x - a"
    by (simp add: word_le_nat_alt)
  then have "unat (x - a - 1) = unat (x - a) - 1"
    using unat_minus_le [of 1 "x - a"] by simp
  then show ?thesis
    using \<open>0 < unat (x - a)\<close> by (simp add: diff_diff_eq)
qed

lemma stosb_apply:
  "cnt \<le> 4294967296 \<Longrightarrow> stosb m a c cnt x = (if unat (x - a) < cnt then c else m x)"
proof (induction cnt arbitrary: m a)
  case (Suc cnt)
  then show ?case
    by (cases "x = a") (simp_all add: unat_minus_Suc)
qed simp

lemma unat_lt4: "unat (x - (a :: u32)) < 4 \<longleftrightarrow> x \<in> {a, a + 1, a + 2, a + 3}"
proof
  assume "unat (x - a) < 4"
  then have "unat (x - a) \<in> {0, 1, 2, 3}" by auto
  then have "x - a \<in> {0, 1, 2, 3}"
    by (auto simp: word_eq_unat)
  then show "x \<in> {a, a + 1, a + 2, a + 3}"
    by (auto simp: algebra_simps)
qed auto

lemma splat_bytes:
  fixes c :: u32
  defines "d \<equiv> c AND 0xFF"
  defines "w \<equiv> push_bit 24 d OR push_bit 16 d OR push_bit 8 d OR d"
  shows "ucast w = (ucast c :: u8)" "ucast (drop_bit 8 w) = (ucast c :: u8)"
    "ucast (drop_bit 16 w) = (ucast c :: u8)" "ucast (drop_bit 24 w) = (ucast c :: u8)"
proof -
  have d: "d = take_bit 8 c"
    unfolding d_def take_bit_eq_mask by (simp add: mask_eq_exp_minus_1)
  show "ucast w = (ucast c :: u8)"
    by (rule bit_word_eqI) (auto simp: w_def d bit_simps)
  show "ucast (drop_bit 8 w) = (ucast c :: u8)"
    by (rule bit_word_eqI) (auto simp: w_def d bit_simps)
  show "ucast (drop_bit 16 w) = (ucast c :: u8)"
    by (rule bit_word_eqI) (auto simp: w_def d bit_simps)
  show "ucast (drop_bit 24 w) = (ucast c :: u8)"
    by (rule bit_word_eqI) (auto simp: w_def d bit_simps)
qed

lemma store32_splat:
  fixes c :: u32
  defines "d \<equiv> c AND 0xFF"
  shows "store32 m a (push_bit 24 d OR push_bit 16 d OR push_bit 8 d OR d) x
         = (if unat (x - a) < 4 then ucast c else m x)"
  unfolding store32_def d_def splat_bytes by (simp add: unat_lt4)

lemma unat_m1: "unat (-1 :: u32) = 4294967295"
  by (simp add: unsigned_minus_1_eq_mask mask_eq_exp_minus_1)

lemma stosl_uniform_apply:
  assumes "\<And>m a x. store32 m a w x = (if unat (x - a) < 4 then b else m x)"
    and "cnt \<le> 1073741824"
  shows "stosl m a w cnt x = (if unat (x - a) < 4 * cnt then b else m x)"
  using assms(2)
proof (induction cnt arbitrary: m a)
  case (Suc cnt)
  let ?u = "unat (x - a)"
  have "unat (x - (a + 4)) = ?u - 4" if "4 \<le> ?u"
  proof -
    have "4 \<le> x - a" using that by (simp add: word_le_nat_alt)
    then show ?thesis using unat_minus_le [of 4 "x - a"] by (simp add: diff_diff_eq)
  qed
  moreover have "unat (x - (a + 4)) \<ge> 4294967292" if "?u < 4"
    using that unat_sub_if_size [of "x - a" 4] by (simp add: diff_diff_eq word_size)
  moreover have "stosl (store32 m a w) (a + 4) w cnt x =
      (if unat (x - (a + 4)) < 4 * cnt then b else store32 m a w x)"
    using Suc.prems by (intro Suc.IH) simp
  moreover have "?u - 4 < 4 * cnt \<longleftrightarrow> ?u < 4 * Suc cnt" if "4 \<le> ?u"
    using that by arith
  ultimately show ?case
    using Suc.prems by (cases "?u < 4") (simp_all add: assms(1))
qed simp

lemma unat_mult4_div4: "(n :: u32) mod 4 = 0 \<Longrightarrow> 4 * unat (n div 4) = unat n"
proof -
  assume "n mod 4 = 0"
  then have "unat (n mod 4) = 0" by simp
  then have "unat n mod 4 = 0" by (simp add: unat_mod)
  then show ?thesis by (auto simp: unat_div)
qed

theorem memset_apply: "memset m dst c n x = (if x - dst < n then ucast c else m x)"
proof (cases "sint dst mod 4 = 0 \<and> n mod 4 = 0")
  case True
  have cnt: "4 * unat (n div 4) = unat n"
    using True by (simp add: unat_mult4_div4)
  then have "unat (n div 4) \<le> 1073741824"
    using unat_lt_32 [of n] by linarith
  then have "stosl m dst (push_bit 24 (c AND 0xFF) OR push_bit 16 (c AND 0xFF)
      OR push_bit 8 (c AND 0xFF) OR (c AND 0xFF)) (unat (n div 4)) x
      = (if unat (x - dst) < 4 * unat (n div 4) then ucast c else m x)"
    by (intro stosl_uniform_apply store32_splat)
  then show ?thesis
    using True unfolding memset_def Let_def cnt word_less_nat_alt by simp
next
  case False
  have "stosb m dst (ucast c) (unat n) x = (if unat (x - dst) < unat n then ucast c else m x)"
    using unat_lt_32 [of n] by (intro stosb_apply) linarith
  then show ?thesis
    using False unfolding memset_def Let_def word_less_nat_alt by auto
qed

lemma all_less_Suc_shift: "(\<forall>i<Suc n. P i) \<longleftrightarrow> P 0 \<and> (\<forall>i<n. P (Suc i))"
  using less_Suc_eq_0_disj by auto

lemma memcmp_eq_0: "memcmp m p q n = 0 \<longleftrightarrow> (\<forall>i<n. m (p + of_nat i) = m (q + of_nat i))"
proof (induction n arbitrary: p q)
  case (Suc n)
  show ?case
    by (simp add: Suc.IH all_less_Suc_shift add.assoc word_uint_eq_iff del: All_less_Suc)
qed simp

text \<open>
  A copying loop is right as long as it reads no byte that it has already overwritten.
\<close>

lemma move_up_apply:
  assumes "n \<le> 4294967296"
    and "\<And>j k. j < k \<Longrightarrow> k < n \<Longrightarrow> s + of_nat k \<noteq> d + of_nat j"
  shows "move_up m d s n x = (if unat (x - d) < n then m (s + (x - d)) else m x)"
  using assms
proof (induction n arbitrary: m d s)
  case (Suc n)
  have ih: "move_up (m(d := m s)) (d + 1) (s + 1) n x =
      (if unat (x - (d + 1)) < n then (m(d := m s)) (s + 1 + (x - (d + 1))) else (m(d := m s)) x)"
  proof (rule Suc.IH)
    show "s + 1 + of_nat k \<noteq> d + 1 + of_nat j" if "j < k" "k < n" for j k
      using Suc.prems(2) [of "Suc j" "Suc k"] that by (simp add: add.assoc)
  qed (use Suc.prems(1) in simp)
  show ?case
  proof (cases "x = d")
    case True
    have "\<not> unat (d - (d + 1)) < n"
      using Suc.prems(1) by (simp add: unat_m1)
    with True ih show ?thesis by simp
  next
    case False
    then have eq: "unat (x - d) = Suc (unat (x - (d + 1)))"
      by (rule unat_minus_Suc)
    have "s + (x - d) \<noteq> d" if "unat (x - d) < Suc n"
      using Suc.prems(2) [of 0 "unat (x - d)"] that eq by simp
    moreover have "s + 1 + (x - (d + 1)) = s + (x - d)" by simp
    ultimately show ?thesis using False ih eq by auto
  qed
qed simp

lemma move_down_apply:
  assumes "n \<le> 4294967296"
    and "\<And>j k. j < k \<Longrightarrow> k < n \<Longrightarrow> s - of_nat (Suc k) \<noteq> d - of_nat (Suc j)"
  shows "move_down m d s n x = (if unat (d - (x + 1)) < n then m (s - (d - x)) else m x)"
  using assms
proof (induction n arbitrary: m d s)
  case (Suc n)
  have ih: "move_down (m(d - 1 := m (s - 1))) (d - 1) (s - 1) n x =
      (if unat (d - 1 - (x + 1)) < n then (m(d - 1 := m (s - 1))) (s - 1 - (d - 1 - x))
       else (m(d - 1 := m (s - 1))) x)"
  proof (rule Suc.IH)
    show "s - 1 - of_nat (Suc k) \<noteq> d - 1 - of_nat (Suc j)" if "j < k" "k < n" for j k
      using Suc.prems(2) [of "Suc j" "Suc k"] that by (simp add: diff_diff_eq)
  qed (use Suc.prems(1) in simp)
  show ?case
  proof (cases "x = d - 1")
    case True
    have "\<not> unat (- 1 :: u32) < n"
      using Suc.prems(1) by (simp add: unat_m1)
    with True ih show ?thesis by simp
  next
    case False
    then have "d \<noteq> x + 1" by (auto simp: algebra_simps)
    then have eq: "unat (d - (x + 1)) = Suc (unat (d - 1 - (x + 1)))"
      using unat_minus_Suc [of d "x + 1"] by (simp add: diff_diff_eq add.commute add.left_commute)
    have "s - (d - x) \<noteq> d - 1" if "unat (d - (x + 1)) < Suc n"
    proof -
      have "s - (d - x) = s - of_nat (Suc (unat (d - (x + 1))))" by simp
      then show ?thesis
        using Suc.prems(2) [of 0 "unat (d - (x + 1))"] that eq by simp
    qed
    moreover have "s - 1 - (d - 1 - x) = s - (d - x)" by simp
    ultimately show ?thesis
      using False ih unfolding move_down.simps eq
      by (simp only: fun_upd_apply Suc_less_eq if_False if_True simp_thms split: if_splits)
  qed
qed simp

lemma minus_of_nat_Suc:
  "k < unat (n :: u32) \<Longrightarrow> a + n - of_nat (Suc k) = a + of_nat (unat n - Suc k)"
  by (simp add: of_nat_diff algebra_simps)

lemma from_top_less: "unat ((n :: u32) - (y + 1)) < unat n \<longleftrightarrow> y < n"
proof -
  have "unat (n - 1 - y) < unat n \<longleftrightarrow> y < n"
  proof (cases "n = 0")
    case False
    then have "unat (n - 1) = unat n - 1" "0 < unat n"
      by (simp_all add: unat_minus_one unat_gt_0)
    then show ?thesis
      using unat_sub_if_size [of "n - 1" y] unat_lt_32 [of y] unat_lt_32 [of n]
      by (auto simp: word_less_nat_alt word_size split: if_splits)
  qed simp
  moreover have "n - (y + 1) = n - 1 - y"
    by simp
  ultimately show ?thesis by metis
qed

lemma memmove_down_reads_first:
  fixes src dst n :: u32
  assumes "unat src + unat n < 4294967296" "unat dst + unat n \<le> 4294967296" "src < dst"
    and "j < k" "k < unat n"
  shows "src + n - of_nat (Suc k) \<noteq> dst + n - of_nat (Suc j)"
proof -
  have "unat (src + of_nat (unat n - Suc k)) = unat src + (unat n - Suc k)"
    by (rule unat_plus_of_nat) (use assms(1,2,4,5) in linarith)
  moreover have "unat (dst + of_nat (unat n - Suc j)) = unat dst + (unat n - Suc j)"
    by (rule unat_plus_of_nat) (use assms(1,2,4,5) in linarith)
  moreover have "unat src < unat dst"
    using assms(3) by (simp add: word_less_nat_alt)
  ultimately have "unat (src + of_nat (unat n - Suc k)) \<noteq> unat (dst + of_nat (unat n - Suc j))"
    using assms(4,5) by linarith
  moreover have "j < unat n"
    using assms(4,5) by linarith
  ultimately show ?thesis
    using assms(5) by (metis minus_of_nat_Suc)
qed

lemma memmove_up_reads_first:
  fixes src dst n :: u32
  assumes "unat src + unat n < 4294967296" "unat dst + unat n \<le> 4294967296"
    and "\<not> (src < dst \<and> src + n > dst)" "j < k" "k < unat n"
  shows "src + of_nat k \<noteq> dst + of_nat j"
proof -
  have "unat (src + of_nat k) = unat src + k"
    by (rule unat_plus_of_nat) (use assms(1,2,4,5) in linarith)
  moreover have "unat (dst + of_nat j) = unat dst + j"
    by (rule unat_plus_of_nat) (use assms(1,2,4,5) in linarith)
  moreover have "unat (src + n) = unat src + unat n"
    using assms(1) by (rule unat_plus_no_wrap)
  then have "unat dst \<le> unat src \<or> unat src + unat n \<le> unat dst"
    using assms(3) unfolding word_less_nat_alt by linarith
  ultimately have "unat (src + of_nat k) \<noteq> unat (dst + of_nat j)"
    using assms(4,5) by linarith
  then show ?thesis by metis
qed

theorem memmove_apply:
  assumes "unat src + unat n < 4294967296" "unat dst + unat n \<le> 4294967296"
  shows "memmove m dst src n x = (if x - dst < n then m (src + (x - dst)) else m x)"
proof (cases "src < dst \<and> src + n > dst")
  case True
  have "move_down m (dst + n) (src + n) (unat n) x
      = (if unat (dst + n - (x + 1)) < unat n then m (src + n - (dst + n - x)) else m x)"
    using True memmove_down_reads_first [OF assms] unat_lt_32 [of n]
    by (intro move_down_apply) auto
  moreover have "dst + n - (x + 1) = n - (x - dst + 1)" "src + n - (dst + n - x) = src + (x - dst)"
    by (simp_all add: algebra_simps)
  ultimately show ?thesis
    using True by (simp add: memmove_def from_top_less)
next
  case False
  have "move_up m dst src (unat n) x
      = (if unat (x - dst) < unat n then m (src + (x - dst)) else m x)"
    using memmove_up_reads_first [OF assms False] unat_lt_32 [of n]
    by (intro move_up_apply) auto
  with False show ?thesis
    by (auto simp: memmove_def word_less_nat_alt)
qed

section \<open>What the string routines compute\<close>

text \<open>The string that a fixed-size character field holds: its bytes up to the first zero.\<close>

definition cname :: "cptr \<Rightarrow> nat \<Rightarrow> u8 list" where
  "cname p n = takeWhile (\<lambda>c. c \<noteq> 0) (map p [0..<n])"

lemma cname_0 [simp]: "cname p 0 = []"
  by (simp add: cname_def)

lemma cname_Suc: "cname p (Suc n) = (if p 0 \<noteq> 0 then p 0 # cname (adv p) n else [])"
proof -
  have "map p [0..<Suc n] = p 0 # map (adv p) [0..<n]"
    by (simp add: upt_conv_Cons map_Suc_upt [symmetric] adv_def comp_def del: upt_Suc)
  then show ?thesis by (simp add: cname_def)
qed

theorem strncmp_eq_0: "strncmp p q n = 0 \<longleftrightarrow> cname p n = cname q n"
  by (induction n arbitrary: p q) (auto simp: cname_Suc word_uint_eq_iff)

lemma strncmp_refl [simp]: "strncmp p p n = 0"
  by (simp add: strncmp_eq_0)

lemma strncmp_sym_0: "strncmp p q n = 0 \<longleftrightarrow> strncmp q p n = 0"
  by (auto simp: strncmp_eq_0)

lemma length_strncpy [simp]: "length (strncpy t n) = n"
  by (induction n arbitrary: t) auto

lemma adv_arr_Cons [simp]: "adv (arr (x # xs)) = arr xs"
  by (auto simp: adv_def arr_def)

lemma arr_Cons_0 [simp]: "arr (x # xs) 0 = x"
  by (simp add: arr_def)

lemma cname_strncpy [simp]: "cname (arr (strncpy t n)) n = cname t n"
  by (induction n arbitrary: t) (auto simp: cname_Suc)

lemma length_safestrcpy: "length (safestrcpy t n) \<le> n"
  by (induction t n rule: safestrcpy.induct) auto

lemma cname_safestrcpy:
  "0 < n \<Longrightarrow> cname (arr (safestrcpy t n)) n = cname t (n - 1)"
  by (induction t n rule: safestrcpy.induct) (auto simp: cname_Suc)

lemma safestrcpy_terminated: "0 < n \<Longrightarrow> 0 \<in> set (safestrcpy t n)"
  by (induction t n rule: safestrcpy.induct) auto

lemma strlen_loop_finds:
  "s k = 0 \<Longrightarrow> n \<le> k \<Longrightarrow> \<exists>r. strlen_loop s n = Some r \<and> s r = 0 \<and> (\<forall>i. n \<le> i \<and> i < r \<longrightarrow> s i \<noteq> 0)"
proof (induction "k - n" arbitrary: n)
  case 0
  then have "s n = 0" by simp
  then show ?case by (auto simp: strlen_loop.simps)
next
  case (Suc d)
  show ?case
  proof (cases "s n = 0")
    case True
    then show ?thesis by (auto simp: strlen_loop.simps)
  next
    case False
    have "d = k - (n + 1)" "n + 1 \<le> k"
      using Suc.hyps(2) by auto
    with Suc.hyps(1) [of "n + 1"] Suc.prems obtain r
      where "strlen_loop s (n + 1) = Some r" "s r = 0" "\<forall>i. n + 1 \<le> i \<and> i < r \<longrightarrow> s i \<noteq> 0"
      by auto
    moreover from this False have "\<forall>i. n \<le> i \<and> i < r \<longrightarrow> s i \<noteq> 0"
      by (metis Suc_eq_plus1 Suc_leI le_neq_implies_less)
    ultimately show ?thesis
      using False by (simp add: strlen_loop.simps [of s n])
  qed
qed

theorem strlen_finds:
  assumes "s k = 0"
  shows "\<exists>n. strlen s = Some n \<and> s n = 0 \<and> (\<forall>i<n. s i \<noteq> 0)"
  using strlen_loop_finds [of s k 0] assms by (auto simp: strlen_def)

end
