(* ===== verification/Mmu.thy ===== *)
theory Mmu
  imports Prelude
begin

text \<open>
  The x86 paging vocabulary of \<^verbatim>\<open>mmu.h\<close> and the address-space layout of \<^verbatim>\<open>memlayout.h\<close>, with
  the arithmetic of pages, directory and table indices, and page-table entries.
\<close>

section \<open>Definitions\<close>

subsection \<open>Memory layout (\<^verbatim>\<open>memlayout.h\<close>)\<close>

abbreviation (input) EXTMEM :: u32 where "EXTMEM \<equiv> 0x100000"
abbreviation (input) PHYSTOP :: u32 where "PHYSTOP \<equiv> 0xE000000"
abbreviation (input) DEVSPACE :: u32 where "DEVSPACE \<equiv> 0xFE000000"
abbreviation (input) KERNBASE :: u32 where "KERNBASE \<equiv> 0x80000000"
abbreviation (input) KERNLINK :: u32 where "KERNLINK \<equiv> 0x80100000"

definition v2p :: "u32 \<Rightarrow> u32" where
  "v2p a = a - KERNBASE"

definition p2v :: "u32 \<Rightarrow> u32" where
  "p2v a = a + KERNBASE"

subsection \<open>Pages and indices (\<^verbatim>\<open>mmu.h\<close>)\<close>

abbreviation (input) PGSIZE :: u32 where "PGSIZE \<equiv> 4096"
abbreviation (input) NPDENTRIES :: u32 where "NPDENTRIES \<equiv> 1024"
abbreviation (input) NPTENTRIES :: u32 where "NPTENTRIES \<equiv> 1024"

definition PDX :: "u32 \<Rightarrow> u32" where
  "PDX va = drop_bit 22 va AND 0x3FF"

definition PTX :: "u32 \<Rightarrow> u32" where
  "PTX va = drop_bit 12 va AND 0x3FF"

definition PGADDR :: "u32 \<Rightarrow> u32 \<Rightarrow> u32 \<Rightarrow> u32" where
  "PGADDR d t off = (push_bit 22 d OR push_bit 12 t OR off)"

definition PGROUNDUP :: "u32 \<Rightarrow> u32" where
  "PGROUNDUP sz = (sz + PGSIZE - 1) AND NOT (PGSIZE - 1)"

definition PGROUNDDOWN :: "u32 \<Rightarrow> u32" where
  "PGROUNDDOWN a = a AND NOT (PGSIZE - 1)"

subsection \<open>Page-table entries (\<^verbatim>\<open>mmu.h\<close>)\<close>

abbreviation (input) PTE_P :: u32 where "PTE_P \<equiv> 0x001"
abbreviation (input) PTE_W :: u32 where "PTE_W \<equiv> 0x002"
abbreviation (input) PTE_U :: u32 where "PTE_U \<equiv> 0x004"

definition PTE_ADDR :: "u32 \<Rightarrow> u32" where
  "PTE_ADDR pte = pte AND NOT 0xFFF"

definition PTE_FLAGS :: "u32 \<Rightarrow> u32" where
  "PTE_FLAGS pte = pte AND 0xFFF"

section \<open>Pages\<close>

lemma mask12: "(4095 :: u32) = mask 12"
  by (simp add: mask_eq_exp_minus_1)

lemma mask10: "(0x3FF :: u32) = mask 10"
  by (simp add: mask_eq_exp_minus_1)

lemma PGROUNDDOWN_alt: "PGROUNDDOWN a = a - a mod 4096"
proof -
  have "a AND NOT (mask 12) = push_bit 12 (drop_bit 12 a)"
    by (rule bit_word_eqI) (auto simp: bit_simps)
  also have "\<dots> = a - a mod 4096"
    by (simp add: push_bit_eq_mult drop_bit_eq_div minus_mod_eq_div_mult)
  finally show ?thesis
    unfolding PGROUNDDOWN_def mask12 [symmetric] by simp
qed

lemma PTE_ADDR_alt: "PTE_ADDR a = PGROUNDDOWN a"
  by (simp add: PTE_ADDR_def PGROUNDDOWN_def)

lemma PGROUNDUP_alt: "PGROUNDUP a = PGROUNDDOWN (a + 4095)"
  by (simp add: PGROUNDUP_def PGROUNDDOWN_def add.commute)

lemma unat_PGROUNDDOWN: "unat (PGROUNDDOWN a) = unat a - unat a mod 4096"
  unfolding PGROUNDDOWN_alt by (subst unat_sub) (simp_all add: word_le_nat_alt unat_mod)

text \<open>An address is page aligned if it is the start of its page.\<close>

definition pg_aligned :: "u32 \<Rightarrow> bool" where
  "pg_aligned a \<longleftrightarrow> unat a mod 4096 = 0"

lemma pg_aligned_PGROUNDDOWN [simp]: "pg_aligned (PGROUNDDOWN a)"
  by (simp add: pg_aligned_def unat_PGROUNDDOWN)

lemma PGROUNDDOWN_aligned [simp]: "pg_aligned a \<Longrightarrow> PGROUNDDOWN a = a"
  by (simp add: pg_aligned_def word_eq_unat unat_PGROUNDDOWN)

lemma pg_aligned_iff: "pg_aligned a \<longleftrightarrow> PGROUNDDOWN a = a"
  by (metis PGROUNDDOWN_aligned pg_aligned_PGROUNDDOWN)

lemma pg_aligned_PTE_ADDR [simp]: "pg_aligned (PTE_ADDR a)"
  by (simp add: PTE_ADDR_alt)

lemma pg_aligned_aligned4: "pg_aligned a \<Longrightarrow> aligned4 a"
proof -
  assume "pg_aligned a"
  then have "4096 dvd unat a" by (simp add: pg_aligned_def mod_eq_0_iff_dvd)
  moreover have "4 dvd (4096 :: nat)" by simp
  ultimately have "4 dvd unat a" by (rule dvd_trans [rotated])
  then show ?thesis by (simp add: aligned4_def)
qed

lemma pg_aligned_bound: "pg_aligned a \<Longrightarrow> unat a \<le> 4294963200"
proof -
  assume "pg_aligned a"
  then obtain k where "unat a = 4096 * k"
    by (auto simp: pg_aligned_def)
  moreover from this have "k < 1048576" using unat_lt_32 [of a] by simp
  ultimately show ?thesis by simp
qed

lemma unat_page_offset:
  "pg_aligned p \<Longrightarrow> i < 4096 \<Longrightarrow> unat (p + of_nat i) = unat p + i"
  using pg_aligned_bound [of p] by (intro unat_plus_of_nat) linarith

text \<open>The bytes of the page at \<open>p\<close> are those at an offset below the page size.\<close>

lemma in_page_iff:
  assumes "pg_aligned p"
  shows "x - p < 4096 \<longleftrightarrow> PGROUNDDOWN x = p"
proof
  assume lt: "x - p < 4096"
  then have "unat (x - p) < 4096" by (simp add: word_less_nat_alt)
  then have "unat x = unat p + unat (x - p)"
    using unat_page_offset [OF assms, of "unat (x - p)"] by simp
  moreover have "unat p mod 4096 = 0"
    using assms by (simp add: pg_aligned_def)
  ultimately have "unat (PGROUNDDOWN x) = unat p"
    using \<open>unat (x - p) < 4096\<close> unfolding unat_PGROUNDDOWN by (simp add: mod_add_eq [symmetric])
  then show "PGROUNDDOWN x = p" by (simp add: word_eq_unat)
next
  assume "PGROUNDDOWN x = p"
  then have "x - p = x mod 4096" by (auto simp: PGROUNDDOWN_alt)
  then show "x - p < 4096" by (simp add: word_less_nat_alt unat_mod)
qed

lemma PGROUNDDOWN_offset:
  "pg_aligned p \<Longrightarrow> i < 4096 \<Longrightarrow> PGROUNDDOWN (p + i) = p"
  using in_page_iff [of p "p + i"] by simp

text \<open>An aligned word does not cross a page boundary.\<close>

lemma word_in_page:
  assumes "aligned4 a" "i < 4"
  shows "PGROUNDDOWN (a + of_nat i) = PGROUNDDOWN a"
proof -
  obtain k where k: "unat a = 4 * k"
    using assms(1) by (auto simp: aligned4_def elim: dvdE)
  have "(4 * k + i) div (4 * 1024) = k div 1024"
    using assms(2) by (subst div_mult2_eq) simp
  then have "unat (a + of_nat i) div 4096 = unat a div 4096"
    using k aligned4_unat_plus [OF assms] by simp
  then show ?thesis
    by (simp add: word_eq_unat unat_PGROUNDDOWN minus_mod_eq_mult_div)
qed

lemma store32_outside:
  assumes "aligned4 a" "PGROUNDDOWN x \<noteq> PGROUNDDOWN a"
  shows "store32 m a v x = m x"
  using word_in_page [OF assms(1), of 0] word_in_page [OF assms(1), of 1]
    word_in_page [OF assms(1), of 2] word_in_page [OF assms(1), of 3] assms(2)
  by (auto simp: store32_def)

lemma load32_page_cong:
  assumes "aligned4 a" "\<And>y. PGROUNDDOWN y = PGROUNDDOWN a \<Longrightarrow> m y = m' y"
  shows "load32 m a = load32 m' a"
  by (rule load32_cong) (simp add: assms word_in_page)

section \<open>Indices\<close>

lemma unat_PDX: "unat (PDX va) = unat va div 4194304"
proof -
  have "unat (PDX va) = unat va div 4194304 mod 1024"
    unfolding PDX_def mask10 take_bit_eq_mask [symmetric]
    by (simp add: take_bit_eq_mod drop_bit_eq_div unat_div unat_mod)
  moreover have "unat va div 4194304 < 1024"
    using unat_lt_32 [of va] by simp
  ultimately show ?thesis by simp
qed

lemma unat_PTX: "unat (PTX va) = unat va div 4096 mod 1024"
  unfolding PTX_def mask10 take_bit_eq_mask [symmetric]
  by (simp add: take_bit_eq_mod drop_bit_eq_div unat_div unat_mod)

lemma PDX_bound: "unat (PDX va) < 1024"
  using unat_lt_32 [of va] by (simp add: unat_PDX)

lemma PTX_bound: "unat (PTX va) < 1024"
  by (simp add: unat_PTX)

text \<open>Directory and table index together identify the page of an address.\<close>

lemma same_page_iff:
  "PGROUNDDOWN va = PGROUNDDOWN vb \<longleftrightarrow> PDX va = PDX vb \<and> PTX va = PTX vb"
proof -
  have "PGROUNDDOWN va = PGROUNDDOWN vb \<longleftrightarrow> unat va div 4096 = unat vb div 4096"
    unfolding word_eq_unat unat_PGROUNDDOWN minus_mod_eq_mult_div by simp
  also have "\<dots> \<longleftrightarrow> unat va div 4096 div 1024 = unat vb div 4096 div 1024
      \<and> unat va div 4096 mod 1024 = unat vb div 4096 mod 1024"
    by (metis div_mult_mod_eq)
  finally show ?thesis
    by (simp add: word_eq_unat unat_PDX unat_PTX div_mult2_eq [symmetric])
qed

text \<open>The entry with index \<open>i\<close> of the table that starts at the page \<open>t\<close>.\<close>

definition slot :: "u32 \<Rightarrow> u32 \<Rightarrow> u32" where
  "slot t i = t + 4 * i"

lemma unat_slot:
  assumes "pg_aligned t" "unat i < 1024"
  shows "unat (slot t i) = unat t + 4 * unat i"
proof -
  have "4 * i = of_nat (4 * unat i)" by simp
  then show ?thesis
    using unat_page_offset [OF assms(1), of "4 * unat i"] assms(2) by (simp add: slot_def)
qed

lemma slot_page [simp]:
  assumes "pg_aligned t" "unat i < 1024"
  shows "PGROUNDDOWN (slot t i) = t"
proof -
  have "4 * i = of_nat (4 * unat i)" by simp
  then have "unat (4 * i) = 4 * unat i"
    using assms(2) unat_of_nat_32 [of "4 * unat i"] by simp
  then have "4 * i < 4096"
    using assms(2) by (simp add: word_less_nat_alt)
  then show ?thesis
    using PGROUNDDOWN_offset [OF assms(1)] by (simp add: slot_def)
qed

lemma slot_aligned4 [simp]:
  assumes "pg_aligned t" "unat i < 1024"
  shows "aligned4 (slot t i)"
  using pg_aligned_aligned4 [OF assms(1)] unat_slot [OF assms] by (simp add: aligned4_def)

lemma slot_eq_iff:
  assumes "pg_aligned t" "unat i < 1024" "pg_aligned u" "unat j < 1024"
  shows "slot t i = slot u j \<longleftrightarrow> t = u \<and> i = j"
proof
  assume eq: "slot t i = slot u j"
  then have "PGROUNDDOWN (slot t i) = PGROUNDDOWN (slot u j)" by (rule arg_cong)
  then have "t = u" using assms by simp
  moreover have "unat i = unat j"
    using unat_slot [OF assms(1,2)] unat_slot [OF assms(3,4)] eq \<open>t = u\<close> by simp
  ultimately show "t = u \<and> i = j" by (simp add: word_eq_unat)
qed simp

section \<open>Entries\<close>

lemma v2p_p2v [simp]: "v2p (p2v a) = a" and p2v_v2p [simp]: "p2v (v2p a) = a"
  by (simp_all add: v2p_def p2v_def)

lemma p2v_inj [simp]: "p2v a = p2v b \<longleftrightarrow> a = b"
  by (simp add: p2v_def)

text \<open>An aligned address has no bit below the page boundary; flags have none above it.\<close>

lemma pg_aligned_bits: "pg_aligned pa \<Longrightarrow> bit pa n \<Longrightarrow> 12 \<le> n"
proof -
  assume "pg_aligned pa" "bit pa n"
  then have "bit (PGROUNDDOWN pa) n" by simp
  then show "12 \<le> n"
    unfolding PGROUNDDOWN_def using mask12 by (auto simp: bit_simps)
qed

lemma flag_bits: "(f :: u32) AND 0xFFF = f \<Longrightarrow> bit f n \<Longrightarrow> n < 12"
proof -
  assume "f AND 0xFFF = f" "bit f n"
  then have "bit (f AND mask 12) n" by (simp add: mask12)
  then show "n < 12" by (simp add: bit_simps)
qed

lemma PTE_ADDR_bit: "bit (PTE_ADDR a) n \<longleftrightarrow> bit a n \<and> 12 \<le> n"
proof -
  have "PTE_ADDR a = a AND NOT (mask 12)" by (simp add: PTE_ADDR_def mask12)
  then show ?thesis by (auto simp: bit_simps dest: bit_imp_le_length)
qed

lemma PTE_FLAGS_bit: "bit (PTE_FLAGS a) n \<longleftrightarrow> bit a n \<and> n < 12"
proof -
  have "PTE_FLAGS a = a AND mask 12" by (simp add: PTE_FLAGS_def mask12)
  then show ?thesis by (auto simp: bit_simps)
qed

lemma PTE_ADDR_OR:
  assumes "pg_aligned pa" "f AND 0xFFF = f"
  shows "PTE_ADDR (pa OR f) = pa"
  by (rule bit_word_eqI)
     (auto simp: PTE_ADDR_bit bit_simps dest: pg_aligned_bits [OF assms(1)] flag_bits [OF assms(2)])

lemma PTE_FLAGS_OR:
  assumes "pg_aligned pa" "f AND 0xFFF = f"
  shows "PTE_FLAGS (pa OR f) = f"
  by (rule bit_word_eqI)
     (auto simp: PTE_FLAGS_bit bit_simps dest: pg_aligned_bits [OF assms(1)] flag_bits [OF assms(2)])

lemma PTE_split: "PTE_ADDR pte OR PTE_FLAGS pte = pte"
  by (rule bit_word_eqI) (auto simp: PTE_ADDR_bit PTE_FLAGS_bit bit_simps)

lemma PTE_FLAGS_idem [simp]: "PTE_FLAGS (PTE_FLAGS pte) = PTE_FLAGS pte"
  by (rule bit_word_eqI) (auto simp: PTE_FLAGS_bit)

lemma pg_aligned_p2v [simp]: "pg_aligned (p2v a) \<longleftrightarrow> pg_aligned a"
proof -
  have "unat (p2v a) mod 4096 = (unat a + 2147483648) mod 4294967296 mod 4096"
    by (simp add: p2v_def unat_word_ariths)
  also have "\<dots> = (unat a + 2147483648) mod 4096"
    by (rule mod_mod_cancel) simp
  also have "\<dots> = unat a mod 4096"
    using mod_mult_self1 [of "unat a" 524288 4096] by simp
  finally show ?thesis by (simp add: pg_aligned_def)
qed

lemma pg_aligned_v2p [simp]: "pg_aligned (v2p a) \<longleftrightarrow> pg_aligned a"
  using pg_aligned_p2v [of "v2p a"] by simp

end
