(* ===== verification/Spinlock.thy ===== *)
theory Spinlock
  imports Mmu
begin

text \<open>
  Spin locks (\<^verbatim>\<open>spinlock.c\<close>, \<^verbatim>\<open>spinlock.h\<close>). The first part models the code with all the
  processors: the lock word that \<open>xchg\<close> changes, the nesting count of \<open>pushcli\<close> and the
  interrupt flag of each processor, and the interleaving of their steps. The second part is
  the view that one processor has of its locks, the list of locks it holds, which the other
  theories use; the last section proves that the code implements that view.
\<close>

section \<open>The locks of the kernel\<close>

text \<open>One name per \<open>struct spinlock\<close> of the sources; a pipe has a lock of its own.\<close>

datatype lockid =
    L_kmem | L_pte_lookup | L_ptable | L_tickslock | L_bcache | L_ide | L_log | L_icache
  | L_ftable | L_cons | L_input | L_pipe u32

record spinlock =
  locked :: u32
  lk_name :: string
  lk_cpu :: "nat option"
  pcs :: "u32 list"

text \<open>The fields of \<open>struct cpu\<close> that the locks use, and the processor's interrupt flag.\<close>

record cpu_locks =
  ncli :: int
  intena :: bool
  fl_if :: bool

record mp =
  lks :: "lockid \<Rightarrow> spinlock"
  cpus :: "nat \<Rightarrow> cpu_locks"

section \<open>The code\<close>

definition initlock :: "lockid \<Rightarrow> string \<Rightarrow> mp \<Rightarrow> mp" where
  "initlock lk nm s =
     s\<lparr>lks := (lks s)(lk := (lks s lk)\<lparr>lk_name := nm, locked := 0, lk_cpu := None\<rparr>)\<rparr>"

definition pushcli :: "nat \<Rightarrow> mp \<Rightarrow> (mp, unit) res" where
  "pushcli c s =
     (let me = cpus s c;
          eflags = fl_if me;
          me = me\<lparr>fl_if := False\<rparr>;
          n = ncli me;
          me = me\<lparr>ncli := n + 1\<rparr>;
          me = (if n = 0 then me\<lparr>intena := eflags\<rparr> else me)
      in Ret () (s\<lparr>cpus := (cpus s)(c := me)\<rparr>))"

definition popcli :: "nat \<Rightarrow> mp \<Rightarrow> (mp, unit) res" where
  "popcli c s =
     (let me = cpus s c in
      if fl_if me then Panic ''popcli - interruptible''
      else let me = me\<lparr>ncli := ncli me - 1\<rparr> in
      if ncli me < 0 then Panic ''popcli''
      else let me = (if ncli me = 0 \<and> intena me then me\<lparr>fl_if := True\<rparr> else me)
      in Ret () (s\<lparr>cpus := (cpus s)(c := me)\<rparr>))"

definition holding :: "nat \<Rightarrow> lockid \<Rightarrow> mp \<Rightarrow> bool" where
  "holding c lk s \<longleftrightarrow> locked (lks s lk) \<noteq> 0 \<and> lk_cpu (lks s lk) = Some c"

text \<open>The atomic exchange on the lock word: the old value and the new state.\<close>

definition xchg_locked :: "lockid \<Rightarrow> u32 \<Rightarrow> mp \<Rightarrow> u32 \<times> mp" where
  "xchg_locked lk v s =
     (locked (lks s lk), s\<lparr>lks := (lks s)(lk := (lks s lk)\<lparr>locked := v\<rparr>)\<rparr>)"

text \<open>
  The call stack that \<open>getcallerpcs\<close> records: at most ten saved program counters along the
  chain of saved frame pointers, then zeros.
\<close>

primrec callerpcs_loop :: "memory \<Rightarrow> nat \<Rightarrow> u32 \<Rightarrow> u32 list" where
  "callerpcs_loop m 0 ebp = []"
| "callerpcs_loop m (Suc n) ebp =
     (if ebp = 0 \<or> ebp < KERNBASE \<or> ebp = 0xFFFFFFFF then replicate (Suc n) 0
      else load32 m (ebp + 4) # callerpcs_loop m n (load32 m ebp))"

definition getcallerpcs :: "memory \<Rightarrow> u32 \<Rightarrow> u32 list" where
  "getcallerpcs m v = callerpcs_loop m 10 (v - 8)"

text \<open>
  \<open>acquire\<close> in three pieces, between which other processors may run: up to the first
  \<open>xchg\<close>, one round of the spinning loop (\<open>True\<close> when the exchange got the lock), and what
  follows the loop.
\<close>

definition acquire_begin :: "nat \<Rightarrow> lockid \<Rightarrow> mp \<Rightarrow> (mp, unit) res" where
  "acquire_begin c lk s =
     bindR (pushcli c s) (\<lambda>_ s. if holding c lk s then Panic ''acquire'' else Ret () s)"

definition acquire_spin :: "lockid \<Rightarrow> mp \<Rightarrow> (mp, bool) res" where
  "acquire_spin lk s = (let (old, s) = xchg_locked lk 1 s in Ret (old = 0) s)"

definition acquire_end :: "memory \<Rightarrow> u32 \<Rightarrow> nat \<Rightarrow> lockid \<Rightarrow> mp \<Rightarrow> (mp, unit) res" where
  "acquire_end m stk c lk s =
     Ret () (s\<lparr>lks := (lks s)(lk := (lks s lk)\<lparr>lk_cpu := Some c, pcs := getcallerpcs m stk\<rparr>)\<rparr>)"

text \<open>\<open>release\<close> in two pieces: the bookkeeping, and the exchange that frees the lock.\<close>

definition release_begin :: "nat \<Rightarrow> lockid \<Rightarrow> mp \<Rightarrow> (mp, unit) res" where
  "release_begin c lk s =
     (if \<not> holding c lk s then Panic ''release''
      else Ret () (s\<lparr>lks := (lks s)(lk :=
             (lks s lk)\<lparr>pcs := (pcs (lks s lk))[0 := 0], lk_cpu := None\<rparr>)\<rparr>))"

definition release_end :: "nat \<Rightarrow> lockid \<Rightarrow> mp \<Rightarrow> (mp, unit) res" where
  "release_end c lk s = (let (old, s) = xchg_locked lk 0 s in popcli c s)"

section \<open>Processors in parallel\<close>

text \<open>
  Where each processor is in the lock code, and three ghost fields: the locks it holds, from
  the return of \<open>acquire\<close> to the call of \<open>release\<close>, latest first; the number of its
  \<open>pushcli()\<close> calls outside the lock code that are still open (\<open>switchuvm\<close> makes one); and for
  each lock the processor whose \<open>xchg\<close> took it.
\<close>

datatype lock_pc = Running | Spinning lockid | Got lockid | Releasing lockid

record mpg = mp +
  pc :: "nat \<Rightarrow> lock_pc"
  mine :: "nat \<Rightarrow> lockid list"
  xcli :: "nat \<Rightarrow> nat"
  own :: "lockid \<Rightarrow> nat option"

definition lift_mp :: "mpg \<Rightarrow> mp \<Rightarrow> mpg" where
  "lift_mp g s = g\<lparr>lks := lks s, cpus := cpus s\<rparr>"

definition mp_of :: "mpg \<Rightarrow> mp" where
  "mp_of g = \<lparr>lks = lks g, cpus = cpus g\<rparr>"

inductive mp_step :: "mpg \<Rightarrow> mpg \<Rightarrow> bool" where
  acq_begin: "pc g c = Running \<Longrightarrow> acquire_begin c lk (mp_of g) = Ret () s \<Longrightarrow>
    mp_step g ((lift_mp g s)\<lparr>pc := (pc g)(c := Spinning lk)\<rparr>)"
| acq_spin: "pc g c = Spinning lk \<Longrightarrow> acquire_spin lk (mp_of g) = Ret got s \<Longrightarrow>
    mp_step g ((lift_mp g s)\<lparr>pc := (pc g)(c := if got then Got lk else Spinning lk),
                             own := (if got then (own g)(lk \<mapsto> c) else own g)\<rparr>)"
| acq_end: "pc g c = Got lk \<Longrightarrow> acquire_end m stk c lk (mp_of g) = Ret () s \<Longrightarrow>
    mp_step g ((lift_mp g s)\<lparr>pc := (pc g)(c := Running), mine := (mine g)(c := lk # mine g c)\<rparr>)"
| rel_begin: "pc g c = Running \<Longrightarrow> release_begin c lk (mp_of g) = Ret () s \<Longrightarrow>
    mp_step g ((lift_mp g s)\<lparr>pc := (pc g)(c := Releasing lk),
                             mine := (mine g)(c := remove1 lk (mine g c))\<rparr>)"
| rel_end: "pc g c = Releasing lk \<Longrightarrow> release_end c lk (mp_of g) = Ret () s \<Longrightarrow>
    mp_step g ((lift_mp g s)\<lparr>pc := (pc g)(c := Running), own := (own g)(lk := None)\<rparr>)"
| push: "pc g c = Running \<Longrightarrow> pushcli c (mp_of g) = Ret () s \<Longrightarrow>
    mp_step g ((lift_mp g s)\<lparr>xcli := (xcli g)(c := Suc (xcli g c))\<rparr>)"
| pop: "pc g c = Running \<Longrightarrow> xcli g c = Suc n \<Longrightarrow> popcli c (mp_of g) = Ret () s \<Longrightarrow>
    mp_step g ((lift_mp g s)\<lparr>xcli := (xcli g)(c := n)\<rparr>)"
| setif: "pc g c = Running \<Longrightarrow> ncli (cpus g c) = 0 \<Longrightarrow>
    mp_step g (g\<lparr>cpus := (cpus g)(c := (cpus g c)\<lparr>fl_if := b\<rparr>)\<rparr>)"

inductive mp_reachable :: "mpg \<Rightarrow> bool" where
  start: "(\<And>l. locked (lks g l) = 0 \<and> lk_cpu (lks g l) = None \<and> own g l = None) \<Longrightarrow>
    (\<And>c. ncli (cpus g c) = 0 \<and> pc g c = Running \<and> mine g c = [] \<and> xcli g c = 0) \<Longrightarrow>
    mp_reachable g"
| step: "mp_reachable g \<Longrightarrow> mp_step g g' \<Longrightarrow> mp_reachable g'"

text \<open>How the code's variables and the ghost fields agree.\<close>

definition pending :: "lock_pc \<Rightarrow> nat" where
  "pending p = (case p of Running \<Rightarrow> 0 | _ \<Rightarrow> 1)"

definition own_inv :: "mpg \<Rightarrow> bool" where
  "own_inv g \<longleftrightarrow>
     (\<forall>l. locked (lks g l) = 0 \<longleftrightarrow> own g l = None)
     \<and> (\<forall>l c. own g l = Some c \<longleftrightarrow> l \<in> set (mine g c) \<or> pc g c = Got l \<or> pc g c = Releasing l)
     \<and> (\<forall>l c. lk_cpu (lks g l) = Some c \<longleftrightarrow> l \<in> set (mine g c))
     \<and> (\<forall>c. distinct (mine g c))
     \<and> (\<forall>l c. pc g c = Got l \<or> pc g c = Releasing l \<longrightarrow> l \<notin> set (mine g c))"

definition cli_inv :: "mpg \<Rightarrow> bool" where
  "cli_inv g \<longleftrightarrow>
     (\<forall>c. ncli (cpus g c) = int (length (mine g c) + pending (pc g c) + xcli g c)
        \<and> (0 < ncli (cpus g c) \<longrightarrow> \<not> fl_if (cpus g c)))"

lemmas lock_code_defs =
  acquire_begin_def acquire_spin_def acquire_end_def release_begin_def release_end_def
  pushcli_def popcli_def xchg_locked_def holding_def mp_of_def lift_mp_def Let_def

lemma own_inv_step: "mp_step g g' \<Longrightarrow> own_inv g \<Longrightarrow> own_inv g'"
proof (induction rule: mp_step.induct)
  case (acq_begin g c lk s)
  then show ?case
    by (auto simp: lock_code_defs own_inv_def split: if_splits)
next
  case (acq_spin g c lk got s)
  show ?case
  proof (cases got)
    case True
    then have "own g lk = None" and s: "s = (mp_of g)\<lparr>lks := (lks g)(lk := (lks g lk)\<lparr>locked := 1\<rparr>)\<rparr>"
      using acq_spin by (auto simp: lock_code_defs own_inv_def)
    moreover have "lk \<notin> set (mine g c')" "pc g c' \<noteq> Got lk" "pc g c' \<noteq> Releasing lk" for c'
      using acq_spin(3) \<open>own g lk = None\<close> unfolding own_inv_def by (metis option.distinct(1))+
    ultimately show ?thesis
      using acq_spin(1,3) True by (auto simp: own_inv_def lift_mp_def)
  next
    case False
    then have "own g lk \<noteq> None" and "s = (mp_of g)\<lparr>lks := (lks g)(lk := (lks g lk)\<lparr>locked := 1\<rparr>)\<rparr>"
      using acq_spin by (auto simp: lock_code_defs own_inv_def)
    then show ?thesis
      using acq_spin(1,3) False by (simp add: own_inv_def lift_mp_def)
  qed
next
  case (acq_end g c lk m stk s)
  then have s: "s = (mp_of g)\<lparr>lks := (lks g)(lk := (lks g lk)\<lparr>lk_cpu := Some c, pcs := getcallerpcs m stk\<rparr>)\<rparr>"
    by (simp add: lock_code_defs)
  have "lk \<notin> set (mine g c')" for c'
    using acq_end unfolding own_inv_def by (metis option.inject)
  moreover have "c' = c" if "pc g c' = Got lk \<or> pc g c' = Releasing lk" for c'
    using acq_end that unfolding own_inv_def by (metis option.inject)
  ultimately show ?case
    using acq_end(1,3) unfolding s own_inv_def by (auto simp: lift_mp_def)
next
  case (rel_begin g c lk s)
  then have own: "own g lk = Some c" and mine: "lk \<in> set (mine g c)"
    and s: "s = (mp_of g)\<lparr>lks := (lks g)(lk :=
          (lks g lk)\<lparr>pcs := (pcs (lks g lk))[0 := 0], lk_cpu := None\<rparr>)\<rparr>"
    by (auto simp: own_inv_def lock_code_defs split: if_splits)
  have "lk \<notin> set (mine g c')" "pc g c' \<noteq> Got lk" "pc g c' \<noteq> Releasing lk" if "c' \<noteq> c" for c'
    using rel_begin(3) own that unfolding own_inv_def by (metis option.inject)+
  then show ?case
    using rel_begin(1,3) mine unfolding s own_inv_def by (auto simp: lift_mp_def)
next
  case (rel_end g c lk s)
  then have own: "own g lk = Some c" and mine: "lk \<notin> set (mine g c)"
    and s: "lks s = (lks g)(lk := (lks g lk)\<lparr>locked := 0\<rparr>)"
    by (auto simp: own_inv_def lock_code_defs split: if_splits)
  have "lk \<notin> set (mine g c')" "pc g c' \<noteq> Got lk" "pc g c' \<noteq> Releasing lk" if "c' \<noteq> c" for c'
    using rel_end(3) own that unfolding own_inv_def by (metis option.inject)+
  then show ?case
    using rel_end(1,3) mine s unfolding own_inv_def by (auto simp: lift_mp_def)
next
  case (push g c s)
  then show ?case 
    by (auto simp: lock_code_defs own_inv_def)
next
  case (pop g c n s)
  then show ?case
    by (auto simp: lock_code_defs own_inv_def split: if_splits)
next
  case (setif g c b)
  then show ?case
    by (auto simp: own_inv_def)
qed


lemma cli_inv_step: "mp_step g g' \<Longrightarrow> own_inv g \<Longrightarrow> cli_inv g \<Longrightarrow> cli_inv g'"
proof (induction rule: mp_step.induct)
  case (rel_begin g c lk s)
  then have "lk \<in> set (mine g c)"
    by (auto simp: own_inv_def lock_code_defs split: if_splits)
  then have "length (mine g c) = Suc (length (remove1 lk (mine g c)))"
    by (rule length_Suc_remove1)
  with rel_begin show ?case
    by (auto simp: lock_code_defs cli_inv_def pending_def split: if_splits)
qed (auto simp: lock_code_defs cli_inv_def pending_def split: if_splits)

lemma reachable_lock_inv: "mp_reachable g \<Longrightarrow> own_inv g \<and> cli_inv g"
proof (induction rule: mp_reachable.induct)
  case (start g)
  then show ?case by (simp add: own_inv_def cli_inv_def pending_def)
next
  case (step g g')
  then show ?case by (blast intro: own_inv_step cli_inv_step)
qed

section \<open>One processor's view\<close>

text \<open>
  The rest of the kernel state is built on the list of locks that the running processor
  holds. \<open>acquire\<close> panics on a lock the processor already holds and otherwise ends with the
  lock held; \<open>release\<close> panics on a lock it does not hold.
\<close>

record klock =
  held :: "lockid list"

definition acquire :: "lockid \<Rightarrow> 'a klock_scheme \<Rightarrow> ('a klock_scheme, unit) res" where
  "acquire lk s =
     (if lk \<in> set (held s) then Panic ''acquire'' else Ret () (s\<lparr>held := lk # held s\<rparr>))"

definition release :: "lockid \<Rightarrow> 'a klock_scheme \<Rightarrow> ('a klock_scheme, unit) res" where
  "release lk s =
     (if lk \<notin> set (held s) then Panic ''release''
      else Ret () (s\<lparr>held := remove1 lk (held s)\<rparr>))"

lemma acquire_Ret [simp]:
  "lk \<notin> set (held s) \<Longrightarrow> acquire lk s = Ret () (s\<lparr>held := lk # held s\<rparr>)"
  by (simp add: acquire_def)

lemma release_Ret [simp]:
  "held s = lk # ls \<Longrightarrow> release lk s = Ret () (s\<lparr>held := ls\<rparr>)"
  by (simp add: release_def)

section \<open>The code implements the view\<close>

definition view :: "mpg \<Rightarrow> nat \<Rightarrow> klock" where
  "view g c = \<lparr>held = mine g c\<rparr>"

lemma holding_iff_mine: "own_inv g \<Longrightarrow> holding c l (mp_of g) \<longleftrightarrow> l \<in> set (mine g c)"
  unfolding own_inv_def holding_def mp_of_def by (simp, metis option.distinct(1))

text \<open>
  A run to a state in which processor 0 holds the lock of the process table, for the
  instances below.
\<close>

definition mp_start :: mpg where
  "mp_start = \<lparr>lks = (\<lambda>l. \<lparr>locked = 0, lk_name = [], lk_cpu = None, pcs = []\<rparr>),
     cpus = (\<lambda>c. \<lparr>ncli = 0, intena = False, fl_if = True\<rparr>),
     pc = (\<lambda>c. Running), mine = (\<lambda>c. []), xcli = (\<lambda>c. 0), own = (\<lambda>l. None)\<rparr>"

definition mp_held :: mpg where
  "mp_held = mp_start\<lparr>
     lks := (lks mp_start)(L_ptable := \<lparr>locked = 1, lk_name = [], lk_cpu = Some 0,
       pcs = getcallerpcs (\<lambda>_. 0) 0\<rparr>),
     cpus := (cpus mp_start)(0 := \<lparr>ncli = 1, intena = True, fl_if = False\<rparr>),
     pc := (pc mp_start)(0 := Running),
     mine := (mine mp_start)(0 := [L_ptable]), own := (own mp_start)(L_ptable \<mapsto> 0)\<rparr>"

lemma mp_held_reachable: "mp_reachable mp_held"
proof -
  have 0: "mp_reachable mp_start"
    by (rule mp_reachable.start) (simp_all add: mp_start_def)
  define g1 where "g1 = mp_start\<lparr>
     cpus := (cpus mp_start)(0 := \<lparr>ncli = 1, intena = True, fl_if = False\<rparr>),
     pc := (pc mp_start)(0 := Spinning L_ptable)\<rparr>"
  have "mp_step mp_start g1"
    using mp_step.acq_begin [of mp_start 0 L_ptable]
    by (simp add: g1_def mp_start_def lock_code_defs)
  with 0 have 1: "mp_reachable g1" by (rule mp_reachable.step)
  define g2 where "g2 = g1\<lparr>
     lks := (lks g1)(L_ptable := (lks g1 L_ptable)\<lparr>locked := 1\<rparr>),
     pc := (pc g1)(0 := Got L_ptable), own := (own g1)(L_ptable \<mapsto> 0)\<rparr>"
  have "mp_step g1 g2"
    using mp_step.acq_spin [of g1 0 L_ptable True]
    by (simp add: g1_def g2_def mp_start_def lock_code_defs)
  with 1 have 2: "mp_reachable g2" by (rule mp_reachable.step)
  have "mp_step g2 mp_held"
    using mp_step.acq_end [of g2 0 L_ptable "\<lambda>_. 0" 0]
    by (simp add: g1_def g2_def mp_held_def mp_start_def lock_code_defs)
  with 2 show ?thesis by (rule mp_reachable.step)
qed

text \<open>
  C9: in every interleaving of the processors' steps through \<open>acquire\<close> and \<open>release\<close>, no lock
  is in the hands of two of them, and a processor that holds a lock runs with its interrupts
  off.
\<close>

theorem mutual_exclusion:
  assumes "mp_reachable g" "l \<in> set (mine g c)" "l \<in> set (mine g c')"
  shows "c = c' \<and> \<not> fl_if (cpus g c)"
proof
  from assms(1) have inv: "own_inv g" "cli_inv g"
    by (simp_all add: reachable_lock_inv)
  from inv(1) assms(2,3) show "c = c'"
    unfolding own_inv_def by (metis option.inject)
  have "0 < length (mine g c)" using assms(2) by auto
  then have "0 < ncli (cpus g c)" using inv(2) unfolding cli_inv_def by (metis add_pos_nonneg of_nat_0_le_iff of_nat_0_less_iff of_nat_add)
  with inv(2) show "\<not> fl_if (cpus g c)" by (simp add: cli_inv_def)
qed

theorem mutual_exclusion_witness:
  "L_ptable \<in> set (mine mp_held 0) \<and> \<not> fl_if (cpus mp_held 0)"
  using mutual_exclusion [OF mp_held_reachable, of L_ptable 0 0] by (simp add: mp_held_def)

text \<open>
  C10: each step of the multiprocessor code is, in the view of every processor, nothing, an
  \<open>acquire\<close> or a \<open>release\<close> of the list of locks it holds; the other theories use that list.
\<close>

theorem lock_code_refines_view:
  assumes "mp_reachable g" "mp_step g g'"
  shows "view g' c = view g c \<or> (\<exists>l. acquire l (view g c) = Ret () (view g' c))
         \<or> (\<exists>l. release l (view g c) = Ret () (view g' c))"
  using assms(2,1)
proof (induction rule: mp_step.induct)
  case (acq_end g d lk m stk s)
  then have "lk \<notin> set (mine g d)"
    using reachable_lock_inv [of g] by (simp add: own_inv_def)
  then show ?case
    by (auto simp: view_def acquire_def lift_mp_def)
next
  case (rel_begin g d lk s)
  then have "holding d lk (mp_of g)"
    by (simp add: release_begin_def split: if_splits)
  then have "lk \<in> set (mine g d)"
    using reachable_lock_inv [OF rel_begin(3)] by (simp add: holding_iff_mine)
  then show ?case
    by (auto simp: view_def release_def lift_mp_def)
qed (simp_all add: view_def lift_mp_def)

theorem lock_code_refines_view_witness:
  "view mp_held 1 = \<lparr>held = []\<rparr> \<and> (\<exists>g'. mp_step mp_held g' \<and>
     (view g' 0 = view mp_held 0 \<or> (\<exists>l. acquire l (view mp_held 0) = Ret () (view g' 0))
      \<or> (\<exists>l. release l (view mp_held 0) = Ret () (view g' 0))))"
proof -
  have "holding 0 L_ptable (mp_of mp_held)"
    by (simp add: mp_held_def lock_code_defs)
  then obtain s where "release_begin 0 L_ptable (mp_of mp_held) = Ret () s"
    by (simp add: release_begin_def)
  moreover have "pc mp_held 0 = Running" by (simp add: mp_held_def)
  ultimately obtain g' where "mp_step mp_held g'"
    using mp_step.rel_begin by blast
  with lock_code_refines_view [OF mp_held_reachable this, of 0] show ?thesis
    by (auto simp: view_def mp_held_def mp_start_def)
qed

text \<open>The panics of \<open>acquire\<close> and \<open>release\<close> are those of the view.\<close>

theorem lock_panics_agree:
  assumes "mp_reachable g" "pc g c = Running"
  shows "acquire_begin c lk (mp_of g) = Panic ''acquire'' \<longleftrightarrow> acquire lk (view g c) = Panic ''acquire''"
    and "release_begin c lk (mp_of g) = Panic ''release'' \<longleftrightarrow> release lk (view g c) = Panic ''release''"
proof -
  have inv: "own_inv g" using assms(1) by (simp add: reachable_lock_inv)
  have "acquire_begin c lk (mp_of g) = Panic ''acquire'' \<longleftrightarrow> holding c lk (mp_of g)"
    by (auto simp: acquire_begin_def pushcli_def holding_def Let_def)
  then show "acquire_begin c lk (mp_of g) = Panic ''acquire''
      \<longleftrightarrow> acquire lk (view g c) = Panic ''acquire''"
    using inv by (simp add: holding_iff_mine acquire_def view_def)
  show "release_begin c lk (mp_of g) = Panic ''release''
      \<longleftrightarrow> release lk (view g c) = Panic ''release''"
    using inv by (simp add: release_begin_def holding_iff_mine release_def view_def)
qed

text \<open>
  C11: a processor that releases a lock it holds does not panic in \<open>release\<close> or \<open>popcli\<close>; the
  lock word is then zero and the nesting count is the number of locks the processor still
  holds and of its open \<open>pushcli\<close> calls.
\<close>

theorem release_never_panics:
  assumes "mp_reachable g" "pc g c = Running" "lk \<in> set (mine g c)"
  shows "runs (bindR (release_begin c lk (mp_of g)) (\<lambda>_. release_end c lk))
           (\<lambda>_ s. locked (lks s lk) = 0
             \<and> ncli (cpus s c) = int (length (remove1 lk (mine g c)) + xcli g c))"
proof -
  from assms(1) have inv: "own_inv g" "cli_inv g"
    by (simp_all add: reachable_lock_inv)
  have "holding c lk (mp_of g)" using assms(3) inv(1) by (simp add: holding_iff_mine)
  moreover have len: "length (mine g c) = Suc (length (remove1 lk (mine g c)))"
    using assms(3) by (rule length_Suc_remove1)
  moreover have "ncli (cpus g c) = int (length (mine g c) + xcli g c)"
    using inv(2) assms(2) by (simp add: cli_inv_def pending_def)
  moreover from this len have "\<not> fl_if (cpus g c)"
    using inv(2) unfolding cli_inv_def by auto
  ultimately show ?thesis
    by (simp add: lock_code_defs)
qed

theorem release_never_panics_witness:
  "runs (bindR (release_begin 0 L_ptable (mp_of mp_held)) (\<lambda>_. release_end 0 L_ptable))
     (\<lambda>_ s. locked (lks s L_ptable) = 0 \<and> ncli (cpus s 0) = 0)"
  using release_never_panics [OF mp_held_reachable, of 0 L_ptable]
  by (simp add: mp_held_def mp_start_def)

text \<open>
  Matched \<open>pushcli\<close> and \<open>popcli\<close> calls leave the processor as they found it, with the
  interrupts off in between.
\<close>

primrec pushes :: "nat \<Rightarrow> nat \<Rightarrow> mp \<Rightarrow> (mp, unit) res" where
  "pushes c 0 s = Ret () s"
| "pushes c (Suc n) s = bindR (pushcli c s) (\<lambda>_. pushes c n)"

primrec pops :: "nat \<Rightarrow> nat \<Rightarrow> mp \<Rightarrow> (mp, unit) res" where
  "pops c 0 s = Ret () s"
| "pops c (Suc n) s = bindR (popcli c s) (\<lambda>_. pops c n)"


lemma pushes_nested:
  "0 < ncli (cpus s c) \<Longrightarrow> \<not> fl_if (cpus s c) \<Longrightarrow>
   runs (pushes c n s) (\<lambda>_ t. ncli (cpus t c) = ncli (cpus s c) + int n \<and> \<not> fl_if (cpus t c)
     \<and> intena (cpus t c) = intena (cpus s c) \<and> (\<forall>d. d \<noteq> c \<longrightarrow> cpus t d = cpus s d) \<and> lks t = lks s)"
proof (induction n arbitrary: s)
  case (Suc n)
  obtain t where t: "pushcli c s = Ret () t" "ncli (cpus t c) = ncli (cpus s c) + 1"
      "\<not> fl_if (cpus t c)" "intena (cpus t c) = intena (cpus s c)"
      "\<forall>d. d \<noteq> c \<longrightarrow> cpus t d = cpus s d" "lks t = lks s"
    using Suc.prems by (auto simp: pushcli_def Let_def)
  have "0 < ncli (cpus t c)"
    using t(2) Suc.prems(1) by simp
  from Suc.IH [OF this t(3)] show ?case
    using t by (simp, elim runs_mono) auto
qed simp

lemma pops_all:
  "ncli (cpus s c) = int n \<Longrightarrow> \<not> fl_if (cpus s c) \<Longrightarrow>
   runs (pops c n s) (\<lambda>_ t. ncli (cpus t c) = 0 \<and> fl_if (cpus t c) = (0 < n \<and> intena (cpus s c))
     \<and> (\<forall>d. d \<noteq> c \<longrightarrow> cpus t d = cpus s d) \<and> lks t = lks s)"
proof (induction n arbitrary: s)
  case (Suc n)
  obtain t where t: "popcli c s = Ret () t" "ncli (cpus t c) = int n"
      "fl_if (cpus t c) = (n = 0 \<and> intena (cpus s c))" "intena (cpus t c) = intena (cpus s c)"
      "\<forall>d. d \<noteq> c \<longrightarrow> cpus t d = cpus s d" "lks t = lks s"
    using Suc.prems by (auto simp: popcli_def Let_def)
  show ?case
  proof (cases "n = 0")
    case True
    with t show ?thesis by simp
  next
    case False
    then have "\<not> fl_if (cpus t c)" using t(3) by simp
    from Suc.IH [OF t(2) this] False t show ?thesis
      by (auto elim!: runs_mono)
  qed
qed simp

theorem pushcli_popcli_matched:
  assumes "ncli (cpus s c) = 0"
  shows "runs (pushes c (Suc n) s) (\<lambda>_ t. \<not> fl_if (cpus t c)
           \<and> runs (pops c (Suc n) t)
               (\<lambda>_ u. ncli (cpus u c) = 0 \<and> fl_if (cpus u c) = fl_if (cpus s c)
                 \<and> (\<forall>d. d \<noteq> c \<longrightarrow> cpus u d = cpus s d) \<and> lks u = lks s))"
proof -
  obtain t where t: "pushcli c s = Ret () t" "ncli (cpus t c) = 1" "\<not> fl_if (cpus t c)"
      "intena (cpus t c) = fl_if (cpus s c)" "\<forall>d. d \<noteq> c \<longrightarrow> cpus t d = cpus s d" "lks t = lks s"
    using assms by (auto simp: pushcli_def Let_def)
  have "runs (pushes c n t) (\<lambda>_ u. \<not> fl_if (cpus u c)
           \<and> runs (pops c (Suc n) u)
               (\<lambda>_ v. ncli (cpus v c) = 0 \<and> fl_if (cpus v c) = fl_if (cpus s c)
                 \<and> (\<forall>d. d \<noteq> c \<longrightarrow> cpus v d = cpus s d) \<and> lks v = lks s))"
  proof (rule runs_mono [OF pushes_nested])
    fix u :: mp assume u: "ncli (cpus u c) = ncli (cpus t c) + int n \<and> \<not> fl_if (cpus u c)
      \<and> intena (cpus u c) = intena (cpus t c) \<and> (\<forall>d. d \<noteq> c \<longrightarrow> cpus u d = cpus t d) \<and> lks u = lks t"
    then have "runs (pops c (Suc n) u) (\<lambda>_ v. ncli (cpus v c) = 0
        \<and> fl_if (cpus v c) = (0 < Suc n \<and> intena (cpus u c))
        \<and> (\<forall>d. d \<noteq> c \<longrightarrow> cpus v d = cpus u d) \<and> lks v = lks u)"
      using t(2) by (intro pops_all) auto
    with u t show "\<not> fl_if (cpus u c) \<and> runs (pops c (Suc n) u)
        (\<lambda>_ v. ncli (cpus v c) = 0 \<and> fl_if (cpus v c) = fl_if (cpus s c)
          \<and> (\<forall>d. d \<noteq> c \<longrightarrow> cpus v d = cpus s d) \<and> lks v = lks s)"
      by (auto simp del: pops.simps elim!: runs_mono)
  qed (use t in simp_all)
  then show ?thesis using t(1) by simp
qed

end
