(* ===== verification/Kalloc.thy ===== *)
theory Kalloc
  imports Cstring Mmu Spinlock "HOL-Library.Multiset"
begin

text \<open>
  The physical page allocator (\<^verbatim>\<open>kalloc.c\<close>). The free pages form a linked list through the
  first word of each page, kept in the byte-addressed memory. The theory gives the code, the
  contract of a page allocator as a locale, and the proof that the code meets it.
\<close>

section \<open>The code\<close>

text \<open>
  The kernel's memory, addressed by kernel virtual address (physical address plus
  \<open>KERNBASE\<close>), the fields of \<open>kmem\<close>, and the address of the linker symbol \<open>end\<close>.
\<close>

record kmem = klock +
  mem :: memory
  use_lock :: bool
  freelist :: u32
  end_sym :: u32

definition kmem_acquire :: "'a kmem_scheme \<Rightarrow> ('a kmem_scheme, unit) res" where
  "kmem_acquire s = (if use_lock s then acquire L_kmem s else Ret () s)"

definition kmem_release :: "'a kmem_scheme \<Rightarrow> ('a kmem_scheme, unit) res" where
  "kmem_release s = (if use_lock s then release L_kmem s else Ret () s)"

definition kfree :: "u32 \<Rightarrow> 'a kmem_scheme \<Rightarrow> ('a kmem_scheme, unit) res" where
  "kfree v s =
     (if v mod PGSIZE \<noteq> 0 \<or> v < end_sym s \<or> v2p v \<ge> PHYSTOP then Panic ''kfree''
      else
        let s = s\<lparr>mem := memset (mem s) v 1 PGSIZE\<rparr> in
        bindR (kmem_acquire s) (\<lambda>_ s.
        let s = s\<lparr>mem := store32 (mem s) v (freelist s)\<rparr>;
            s = s\<lparr>freelist := v\<rparr> in
        kmem_release s))"

definition kalloc :: "'a kmem_scheme \<Rightarrow> ('a kmem_scheme, u32) res" where
  "kalloc s =
     bindR (kmem_acquire s) (\<lambda>_ s.
     let r = freelist s;
         s = (if r \<noteq> 0 then s\<lparr>freelist := load32 (mem s) r\<rparr> else s) in
     bindR (kmem_release s) (\<lambda>_ s. Ret r s))"

text \<open>
  The loop of \<open>freerange\<close>; its fuel is the number of pages of the address space, after which
  the pointer would have wrapped around.
\<close>

primrec freerange_loop :: "nat \<Rightarrow> u32 \<Rightarrow> u32 \<Rightarrow> 'a kmem_scheme \<Rightarrow> ('a kmem_scheme, unit) res" where
  "freerange_loop 0 p vend s = NoFuel"
| "freerange_loop (Suc n) p vend s =
     (if p + PGSIZE \<le> vend
      then bindR (kfree p s) (\<lambda>_ s. freerange_loop n (p + PGSIZE) vend s)
      else Ret () s)"

definition freerange :: "u32 \<Rightarrow> u32 \<Rightarrow> 'a kmem_scheme \<Rightarrow> ('a kmem_scheme, unit) res" where
  "freerange vstart vend s = freerange_loop 1048576 (PGROUNDUP vstart) vend s"

definition kinit1 :: "u32 \<Rightarrow> u32 \<Rightarrow> 'a kmem_scheme \<Rightarrow> ('a kmem_scheme, unit) res" where
  "kinit1 vstart vend s = freerange vstart vend (s\<lparr>use_lock := False\<rparr>)"

definition kinit2 :: "u32 \<Rightarrow> u32 \<Rightarrow> 'a kmem_scheme \<Rightarrow> ('a kmem_scheme, unit) res" where
  "kinit2 vstart vend s =
     bindR (freerange vstart vend s) (\<lambda>_ s. Ret () (s\<lparr>use_lock := True\<rparr>))"

section \<open>The contract of a page allocator\<close>

text \<open>
  A client asks for pages and gives back pages it got, in any order. \<open>serve\<close> runs such a list
  of requests; it returns the pages that the client holds at the end.
\<close>

datatype request = Get | Put nat

fun serve :: "('s \<Rightarrow> ('s, u32) res) \<Rightarrow> (u32 \<Rightarrow> 's \<Rightarrow> ('s, unit) res) \<Rightarrow> request list \<Rightarrow>
    u32 list \<Rightarrow> 's \<Rightarrow> ('s, u32 list) res" where
  "serve al fr [] out s = Ret out s"
| "serve al fr (Get # rs) out s =
     bindR (al s) (\<lambda>p s. serve al fr rs (if p = 0 then out else p # out) s)"
| "serve al fr (Put i # rs) out s =
     (if i < length out
      then bindR (fr (out ! i) s) (\<lambda>_ s. serve al fr rs (remove1 (out ! i) out) s)
      else serve al fr rs out s)"

text \<open>
  The laws: \<open>free s xs\<close> says that the allocator is in a good state with the free pages \<open>xs\<close>;
  \<open>ok\<close> is the condition on the locks under which it may be called. Allocation takes the first
  free page and touches nothing else; freeing puts a page back and touches only its bytes.
\<close>

locale page_allocator =
  fixes alloc :: "'s \<Rightarrow> ('s, u32) res"
    and dealloc :: "u32 \<Rightarrow> 's \<Rightarrow> ('s, unit) res"
    and free :: "'s \<Rightarrow> u32 list \<Rightarrow> bool"
    and ok :: "'s \<Rightarrow> bool"
    and valid_page :: "'s \<Rightarrow> u32 \<Rightarrow> bool"
  assumes free_valid: "free s xs \<Longrightarrow> distinct xs \<and> (\<forall>x\<in>set xs. valid_page s x \<and> x \<noteq> 0)"
    and alloc_none: "ok s \<Longrightarrow> free s [] \<Longrightarrow> alloc s = Ret 0 s"
    and alloc_some: "ok s \<Longrightarrow> free s (x # xs) \<Longrightarrow>
      \<exists>s'. alloc s = Ret x s' \<and> free s' xs \<and> ok s' \<and> valid_page s' = valid_page s"
    and dealloc_page: "ok s \<Longrightarrow> free s xs \<Longrightarrow> valid_page s x \<Longrightarrow> x \<notin> set xs \<Longrightarrow>
      \<exists>s'. dealloc x s = Ret () s' \<and> free s' (x # xs) \<and> ok s' \<and> valid_page s' = valid_page s"
begin

lemma serve_conserves:
  assumes "ok s" "free s xs" "distinct (out @ xs)" "\<forall>p\<in>set out. valid_page s p"
  shows "\<exists>out' s' ys. serve alloc dealloc rs out s = Ret out' s' \<and> free s' ys
    \<and> distinct (out' @ ys) \<and> mset (out' @ ys) = mset (out @ xs)"
  using assms
proof (induction rs arbitrary: out xs s)
  case (Cons r rs)
  show ?case
  proof (cases r)
    case Get
    show ?thesis
    proof (cases xs)
      case Nil
      then have "alloc s = Ret 0 s"
        using Cons.prems alloc_none by simp
      then show ?thesis
        using Cons.IH [OF Cons.prems] Get by simp
    next
      case (Cons x zs)
      from alloc_some [OF \<open>ok s\<close>, of x zs] \<open>free s xs\<close> this obtain s'
        where s': "alloc s = Ret x s'" "free s' zs" "ok s'" "valid_page s' = valid_page s" by auto
      have "x \<noteq> 0" "valid_page s x"
        using free_valid [OF \<open>free s xs\<close>] Cons by auto
      moreover have "\<exists>out' s'' ys. serve alloc dealloc rs (x # out) s' = Ret out' s'' \<and> free s'' ys
          \<and> distinct (out' @ ys) \<and> mset (out' @ ys) = mset ((x # out) @ zs)"
        using Cons.prems \<open>valid_page s x\<close> s' Cons by (intro Cons.IH) auto
      ultimately show ?thesis
        using s' Get Cons by auto
    qed
  next
    case (Put i)
    show ?thesis
    proof (cases "i < length out")
      case True
      let ?x = "out ! i"
      have "?x \<in> set out" using True by simp
      then have x: "?x \<in> set out" "?x \<notin> set xs"
        using Cons.prems(3) by (auto simp: disjoint_iff)
      from dealloc_page [OF Cons.prems(1,2) _ x(2)] x(1) Cons.prems(4) obtain s'
        where s': "dealloc ?x s = Ret () s'" "free s' (?x # xs)" "ok s'" "valid_page s' = valid_page s"
        by auto
      have "\<exists>out' s'' ys. serve alloc dealloc rs (remove1 ?x out) s' = Ret out' s'' \<and> free s'' ys
          \<and> distinct (out' @ ys) \<and> mset (out' @ ys) = mset (remove1 ?x out @ ?x # xs)"
        using Cons.prems s' x by (intro Cons.IH) (auto dest: in_set_remove1 [THEN iffD1, rotated] notin_set_remove1)
      moreover have "mset (remove1 ?x out @ ?x # xs) = mset (out @ xs)"
        using x(1) by simp
      ultimately show ?thesis
        using s' Put True by auto
    next
      case False
      then show ?thesis using Cons Put by auto
    qed
  qed
qed auto

end

section \<open>The code meets the contract\<close>

text \<open>The pages that \<open>kfree\<close> accepts.\<close>

definition kpage :: "'a kmem_scheme \<Rightarrow> u32 \<Rightarrow> bool" where
  "kpage s v \<longleftrightarrow> pg_aligned v \<and> end_sym s \<le> v \<and> v2p v < PHYSTOP"

definition kmem_ok :: "'a kmem_scheme \<Rightarrow> bool" where
  "kmem_ok s \<longleftrightarrow> (use_lock s \<longrightarrow> L_kmem \<notin> set (held s))"

text \<open>The linked list from \<open>p\<close> through the first words of the pages \<open>xs\<close>.\<close>

fun flist :: "memory \<Rightarrow> u32 \<Rightarrow> u32 list \<Rightarrow> bool" where
  "flist m p [] \<longleftrightarrow> p = 0"
| "flist m p (x # xs) \<longleftrightarrow> p = x \<and> flist m (load32 m x) xs"

definition free_pages :: "'a kmem_scheme \<Rightarrow> u32 list \<Rightarrow> bool" where
  "free_pages s xs \<longleftrightarrow>
     flist (mem s) (freelist s) xs \<and> distinct xs \<and> (\<forall>x\<in>set xs. kpage s x)"

lemma mod_4096_iff: "v mod 4096 = 0 \<longleftrightarrow> pg_aligned v" for v :: u32
  by (simp add: pg_aligned_def word_eq_unat unat_mod)

lemma kpage_range: "v2p v < PHYSTOP \<Longrightarrow> KERNBASE \<le> v \<and> v < 0x8E000000"
proof -
  assume "v2p v < PHYSTOP"
  then have "unat (v - 0x80000000) < 234881024"
    by (simp add: v2p_def word_less_nat_alt)
  then show ?thesis
    using unat_sub_if_size [of v "0x80000000"] unat_lt_32 [of v]
    by (auto simp: word_le_nat_alt word_less_nat_alt word_size split: if_splits)
qed

lemma kpage_nonzero: "kpage s v \<Longrightarrow> v \<noteq> 0"
  using kpage_range [of v] by (auto simp: kpage_def)

lemma kpage_aligned: "kpage s v \<Longrightarrow> pg_aligned v"
  by (simp add: kpage_def)

lemma kpage_cong: "end_sym s' = end_sym s \<Longrightarrow> kpage s' = kpage s"
  by (auto simp: kpage_def fun_eq_iff)

text \<open>What the two operations do when the lock is free.\<close>

lemma kalloc_eq:
  "kmem_ok s \<Longrightarrow> kalloc s =
     Ret (freelist s) (if freelist s = 0 then s else s\<lparr>freelist := load32 (mem s) (freelist s)\<rparr>)"
  by (auto simp: kalloc_def kmem_acquire_def kmem_release_def kmem_ok_def Let_def)

lemma kfree_eq:
  "kmem_ok s \<Longrightarrow> kpage s v \<Longrightarrow> kfree v s =
     Ret () (s\<lparr>mem := store32 (memset (mem s) v 1 4096) v (freelist s), freelist := v\<rparr>)"
  by (auto simp: kfree_def kmem_acquire_def kmem_release_def kmem_ok_def kpage_def
      mod_4096_iff Let_def linorder_not_less)

lemma kfree_panics: "\<not> kpage s v \<Longrightarrow> kfree v s = Panic ''kfree''"
  by (auto simp: kfree_def kpage_def mod_4096_iff linorder_not_less)

text \<open>Memory outside the page that is written stays as it was.\<close>

lemma memset_page_outside:
  "pg_aligned p \<Longrightarrow> PGROUNDDOWN x \<noteq> p \<Longrightarrow> memset m p c 4096 x = m x"
  by (simp add: memset_apply in_page_iff)

lemma flist_cong:
  assumes "\<And>x y. x \<in> set xs \<Longrightarrow> PGROUNDDOWN y = x \<Longrightarrow> m y = m' y" "\<forall>x\<in>set xs. pg_aligned x"
  shows "flist m p xs = flist m' p xs"
  using assms
proof (induction xs arbitrary: p)
  case (Cons x xs)
  have "load32 m x = load32 m' x"
    using Cons.prems by (intro load32_page_cong) (auto simp: pg_aligned_aligned4)
  with Cons show ?case by auto
qed simp

text \<open>The free list survives any change of memory outside the free pages.\<close>

lemma free_pages_cong:
  assumes "free_pages s xs" "freelist s' = freelist s" "end_sym s' = end_sym s"
    and "\<And>x y. x \<in> set xs \<Longrightarrow> PGROUNDDOWN y = x \<Longrightarrow> mem s' y = mem s y"
  shows "free_pages s' xs"
proof -
  have "\<forall>x\<in>set xs. pg_aligned x"
    using assms(1) by (auto simp: free_pages_def kpage_def)
  then have "flist (mem s') (freelist s') xs = flist (mem s) (freelist s') xs"
    using assms(4) by (intro flist_cong) auto
  with assms(1-3) show ?thesis
    using kpage_cong [of s' s] by (simp add: free_pages_def)
qed

lemma kalloc_none: "kmem_ok s \<Longrightarrow> free_pages s [] \<Longrightarrow> kalloc s = Ret 0 s"
  by (simp add: kalloc_eq free_pages_def)

lemma kalloc_some:
  assumes "kmem_ok s" "free_pages s (x # xs)"
  shows "kalloc s = Ret x (s\<lparr>freelist := load32 (mem s) x\<rparr>)"
    and "free_pages (s\<lparr>freelist := load32 (mem s) x\<rparr>) xs"
  using assms kpage_nonzero [of s x]
  by (auto simp: kalloc_eq free_pages_def kpage_def)

lemma kfree_page:
  assumes "kmem_ok s" "free_pages s xs" "kpage s x" "x \<notin> set xs"
  defines "t \<equiv> s\<lparr>mem := store32 (memset (mem s) x 1 4096) x (freelist s), freelist := x\<rparr>"
  shows "kfree x s = Ret () t" and "free_pages t (x # xs)"
    and "\<And>y. PGROUNDDOWN y \<noteq> x \<Longrightarrow> mem t y = mem s y"
proof -
  show "kfree x s = Ret () t"
    using assms by (simp add: kfree_eq)
  have al: "pg_aligned x" "aligned4 x"
    using assms(3) by (simp_all add: kpage_def pg_aligned_aligned4)
  then show frame: "mem t y = mem s y" if "PGROUNDDOWN y \<noteq> x" for y
    using that by (simp add: t_def store32_outside memset_page_outside)
  have "flist (mem t) (freelist s) xs = flist (mem s) (freelist s) xs"
    using assms(2,4) by (intro flist_cong) (auto simp: free_pages_def kpage_def intro!: frame)
  then show "free_pages t (x # xs)"
    using assms(2-4) kpage_cong [of t s] by (simp add: free_pages_def t_def)
qed

interpretation kmem: page_allocator kalloc kfree free_pages kmem_ok kpage
proof
  fix s :: "'a kmem_scheme" and x xs
  show "free_pages s xs \<Longrightarrow> distinct xs \<and> (\<forall>x\<in>set xs. kpage s x \<and> x \<noteq> 0)"
    using kpage_nonzero by (auto simp: free_pages_def)
  show "kmem_ok s \<Longrightarrow> free_pages s [] \<Longrightarrow> kalloc s = Ret 0 s"
    by (rule kalloc_none)
  show "\<exists>s'. kalloc s = Ret x s' \<and> free_pages s' xs \<and> kmem_ok s' \<and> kpage s' = kpage s"
    if "kmem_ok s" "free_pages s (x # xs)"
    using kalloc_some [OF that] that(1) by (auto simp: kmem_ok_def intro!: kpage_cong)
  show "\<exists>s'. kfree x s = Ret () s' \<and> free_pages s' (x # xs) \<and> kmem_ok s' \<and> kpage s' = kpage s"
    if "kmem_ok s" "free_pages s xs" "kpage s x" "x \<notin> set xs"
    using kfree_page [OF that] that(1) by (auto simp: kmem_ok_def intro!: kpage_cong)
qed

text \<open>The pages between two addresses, and what \<open>freerange\<close> does with them.\<close>

definition pages_from :: "u32 \<Rightarrow> nat \<Rightarrow> u32 list" where
  "pages_from p k = map (\<lambda>i. p + 4096 * of_nat i) [0..<k]"

lemma pages_from_0 [simp]: "pages_from p 0 = []"
  by (simp add: pages_from_def)

lemma pages_from_Suc: "pages_from p (Suc k) = p # pages_from (p + 4096) k"
  by (simp add: pages_from_def upt_conv_Cons map_Suc_upt [symmetric] comp_def algebra_simps
      del: upt_Suc)

lemma freerange_loop_frees:
  assumes "kmem_ok s" "free_pages s xs"
    and "distinct (pages_from p k @ xs)" "\<forall>x\<in>set (pages_from p k). kpage s x"
    and "unat p + 4096 * k \<le> unat vend" "unat vend < unat p + 4096 * Suc k"
    and "unat p + 4096 * Suc k < 4294967296" "k < n"
  shows "\<exists>s'. freerange_loop n p vend s = Ret () s' \<and> free_pages s' (rev (pages_from p k) @ xs)
    \<and> kmem_ok s' \<and> end_sym s' = end_sym s \<and> use_lock s' = use_lock s \<and> held s' = held s"
  using assms
proof (induction k arbitrary: p n xs s)
  case 0
  then obtain n' where "n = Suc n'" by (cases n) auto
  moreover have "\<not> p + 4096 \<le> vend"
    using 0 unat_plus_no_wrap [of p 4096] by (simp add: word_le_nat_alt)
  ultimately show ?case using 0 by simp
next
  case (Suc k)
  then obtain n' where n: "n = Suc n'" "k < n'" by (cases n) auto
  have up: "unat (p + 4096) = unat p + 4096"
    using unat_plus_no_wrap [of p 4096] Suc.prems(7) by simp
  then have "p + 4096 \<le> vend"
    using Suc.prems(5) by (simp add: word_le_nat_alt)
  have p: "kpage s p" "p \<notin> set xs"
    using Suc.prems(3,4) by (simp_all add: pages_from_Suc)
  define t where "t = s\<lparr>mem := store32 (memset (mem s) p 1 4096) p (freelist s), freelist := p\<rparr>"
  have t: "kfree p s = Ret () t" "free_pages t (p # xs)"
    unfolding t_def using kfree_page [OF Suc.prems(1,2) p] by simp_all
  have "kpage t = kpage s"
    by (rule kpage_cong) (simp add: t_def)
  then have "\<exists>s'. freerange_loop n' (p + 4096) vend t = Ret () s'
      \<and> free_pages s' (rev (pages_from (p + 4096) k) @ p # xs)
      \<and> kmem_ok s' \<and> end_sym s' = end_sym t \<and> use_lock s' = use_lock t \<and> held s' = held t"
    using Suc.prems up n(2) t(2)
    by (intro Suc.IH) (auto simp: pages_from_Suc kmem_ok_def t_def)
  then show ?case
    using t(1) n(1) \<open>p + 4096 \<le> vend\<close> by (auto simp: pages_from_Suc t_def)
qed

section \<open>Properties\<close>

text \<open>A small machine with no free page, for the instances below.\<close>

definition kmem_start :: kmem where
  "kmem_start = \<lparr>held = [], mem = (\<lambda>_. 0), use_lock = False, freelist = 0, end_sym = 0x80100000\<rparr>"

lemma kmem_start_ok: "kmem_ok kmem_start" "free_pages kmem_start []"
  by (simp_all add: kmem_start_def kmem_ok_def free_pages_def)

lemma pages_from_start:
  "distinct (pages_from 0x80100000 2)" "\<forall>x\<in>set (pages_from 0x80100000 2). kpage kmem_start x"
  by (simp_all add: pages_from_def kpage_def kmem_start_def pg_aligned_def v2p_def upt_rec)

text \<open>
  C12: whatever sequence of page requests and returns the kernel makes, \<open>kalloc\<close> and \<open>kfree\<close>
  serve it without a panic and no page is lost, duplicated or given out twice: the pages in
  use and the pages on the free list are at the end the same pages as at the start, each once.
\<close>

theorem kalloc_kfree_conserve:
  assumes "kmem_ok s" "free_pages s xs" "distinct (out @ xs)" "\<forall>p\<in>set out. kpage s p"
  shows "\<exists>out' s' ys. serve kalloc kfree rs out s = Ret out' s' \<and> free_pages s' ys
    \<and> distinct (out' @ ys) \<and> mset (out' @ ys) = mset (out @ xs)"
  using assms by (rule kmem.serve_conserves)

theorem kalloc_kfree_conserve_witness:
  "\<exists>out' s' ys. serve kalloc kfree [Put 1, Get, Put 0, Get, Get, Get]
       (pages_from 0x80100000 2) kmem_start = Ret out' s' \<and> free_pages s' ys
    \<and> distinct (out' @ ys) \<and> mset (out' @ ys) = mset (pages_from 0x80100000 2)"
  using kalloc_kfree_conserve [OF kmem_start_ok, of "pages_from 0x80100000 2"
      "[Put 1, Get, Put 0, Get, Get, Get]"] pages_from_start by simp

text \<open>
  C13: \<open>freerange\<close> returns and puts exactly the whole pages between its arguments on the free
  list, first page last.
\<close>

theorem freerange_frees:
  assumes "kmem_ok s" "free_pages s xs" "p = PGROUNDUP vstart"
    and "distinct (pages_from p k @ xs)" "\<forall>x\<in>set (pages_from p k). kpage s x"
    and "unat p + 4096 * k \<le> unat vend" "unat vend < unat p + 4096 * Suc k"
    and "unat p + 4096 * Suc k < 4294967296"
  shows "runs (freerange vstart vend s) (\<lambda>_ s'. free_pages s' (rev (pages_from p k) @ xs))"
proof -
  have "k < 1048576" using assms(8) by simp
  with freerange_loop_frees [OF assms(1,2,4-8), of 1048576] show ?thesis
    by (auto simp: freerange_def assms(3) runs_iff)
qed

theorem freerange_frees_witness:
  "runs (freerange 0x800FF004 0x80102FFF kmem_start)
     (\<lambda>_ s'. free_pages s' (rev (pages_from 0x80100000 2)))"
  using freerange_frees [OF kmem_start_ok refl, where vstart = "0x800FF004" and k = 2
      and vend = "0x80102FFF"] pages_from_start
  by (simp add: PGROUNDUP_def)

end
