(* ===== verification/Proc.thy ===== *)
theory Proc
  imports Kalloc
begin

text \<open>
  The process table and the operations on it that need neither address spaces nor files
  (\<^verbatim>\<open>proc.h\<close>, \<^verbatim>\<open>proc.c\<close>): allocation of a table entry, sleeping and waking, giving up the
  processor, killing, and the signal state of a process. \<open>fork\<close>, \<open>exit\<close>, \<open>wait\<close> and
  \<open>growproc\<close> build on the address spaces of theory \<open>Vm\<close>.
\<close>

section \<open>Data\<close>

datatype procstate = UNUSED | EMBRYO | SLEEPING | RUNNABLE | RUNNING | ZOMBIE

text \<open>What a process can sleep on: the addresses that the sources pass to \<open>sleep\<close>.\<close>

datatype chan =
    Ch_proc nat | Ch_ticks | Ch_buf nat | Ch_log | Ch_inode nat
  | Ch_pipe_nread u32 | Ch_pipe_nwrite u32 | Ch_input

text \<open>A word of \<open>struct proc\<close> that is a plain value or the address of an entry of \<open>ftable\<close>.\<close>

datatype kword = W u32 | FileP nat

record trapframe =
  tf_edi :: u32
  tf_esi :: u32
  tf_ebp :: u32
  tf_oesp :: u32
  tf_ebx :: u32
  tf_edx :: u32
  tf_ecx :: u32
  tf_eax :: u32
  tf_gs :: u16
  tf_fs :: u16
  tf_es :: u16
  tf_ds :: u16
  tf_trapno :: u32
  tf_err :: u32
  tf_eip :: u32
  tf_cs :: u16
  tf_eflags :: u32
  tf_esp :: u32
  tf_ss :: u16

record kcontext =
  ctx_edi :: u32
  ctx_esi :: u32
  ctx_ebx :: u32
  ctx_ebp :: u32
  ctx_eip :: u32

abbreviation (input) NPROC :: nat where "NPROC \<equiv> 64"
abbreviation (input) NOFILE :: nat where "NOFILE \<equiv> 16"
abbreviation (input) KSTACKSIZE :: u32 where "KSTACKSIZE \<equiv> 4096"

record proc =
  sz :: u32
  pgdir :: u32
  kstack :: u32
  state :: procstate
  pid :: u32
  parent :: "nat option"
  tf :: trapframe
  ctx :: kcontext
  wchan :: "chan option"
  killed :: bool
  ofile :: "kword list"
  cwd :: "nat option"
  name :: "u8 list"
  handlers :: "kword list"
  restorer_addr :: u32
  shared :: bool

text \<open>
  The process table with \<open>proc\<close>, the entry that the processor runs, and the addresses that
  the linker gives to \<open>trapret\<close> and \<open>forkret\<close>.
\<close>

record pst = kmem +
  ptable :: "proc list"
  cur :: "nat option"
  initproc :: "nat option"
  nextpid :: u32
  trapret_sym :: u32
  forkret_sym :: u32

definition upd_proc :: "nat \<Rightarrow> (proc \<Rightarrow> proc) \<Rightarrow> 'a pst_scheme \<Rightarrow> 'a pst_scheme" where
  "upd_proc i f s = s\<lparr>ptable := (ptable s)[i := f (ptable s ! i)]\<rparr>"

text \<open>A dereference of the variable \<open>proc\<close>.\<close>

definition with_cur :: "'a pst_scheme \<Rightarrow> (nat \<Rightarrow> ('a pst_scheme, 'b) res) \<Rightarrow> ('a pst_scheme, 'b) res" where
  "with_cur s f = (case cur s of None \<Rightarrow> Fault ''proc'' | Some i \<Rightarrow> f i)"

section \<open>Signals\<close>

abbreviation (input) SIGKILL :: nat where "SIGKILL \<equiv> 0"
abbreviation (input) SIGFPE :: nat where "SIGFPE \<equiv> 1"
abbreviation (input) SIGSEGV :: nat where "SIGSEGV \<equiv> 14"

text \<open>
  \<open>handlers\<close> has two entries, but the sources index it with signal numbers up to
  \<open>SIGSEGV = 14\<close>. \<open>struct proc\<close> is 140 bytes long, with \<open>ofile\<close> at offset 40 and \<open>handlers\<close>
  at offset 124, so that \<open>p->handlers[14]\<close> (offset 180) is \<open>ofile[0]\<close> of the next entry of
  the table. Other indices are outside the model.
\<close>

definition get_handler :: "nat \<Rightarrow> nat \<Rightarrow> 'a pst_scheme \<Rightarrow> ('a pst_scheme, kword) res" where
  "get_handler i signum s =
     (if signum < 2 then Ret (handlers (ptable s ! i) ! signum) s
      else if signum = SIGSEGV \<and> Suc i < length (ptable s)
      then Ret (ofile (ptable s ! Suc i) ! 0) s
      else Fault ''handlers'')"

definition set_handler :: "nat \<Rightarrow> nat \<Rightarrow> kword \<Rightarrow> 'a pst_scheme \<Rightarrow> ('a pst_scheme, unit) res" where
  "set_handler i signum h s =
     (if signum < 2 then Ret () (upd_proc i (\<lambda>p. p\<lparr>handlers := (handlers p)[signum := h]\<rparr>) s)
      else if signum = SIGSEGV \<and> Suc i < length (ptable s)
      then Ret () (upd_proc (Suc i) (\<lambda>p. p\<lparr>ofile := (ofile p)[0 := h]\<rparr>) s)
      else Fault ''handlers'')"

definition signal_register_handler :: "nat \<Rightarrow> kword \<Rightarrow> 'a pst_scheme \<Rightarrow> ('a pst_scheme, kword) res" where
  "signal_register_handler signum handler s =
     (case cur s of None \<Rightarrow> Ret (W 0xFFFFFFFF) s
      | Some i \<Rightarrow>
          bindR (get_handler i signum s) (\<lambda>previous s.
          bindR (set_handler i signum handler s) (\<lambda>_ s.
          Ret previous s)))"

section \<open>Allocating a process\<close>

text \<open>The first entry of the table with the given property.\<close>

fun find_index :: "('a \<Rightarrow> bool) \<Rightarrow> 'a list \<Rightarrow> nat option" where
  "find_index P [] = None"
| "find_index P (x # xs) = (if P x then Some 0 else map_option Suc (find_index P xs))"

lemma find_index_None: "find_index P xs = None \<longleftrightarrow> (\<forall>x \<in> set xs. \<not> P x)"
  by (induction xs) auto

lemma find_index_Some:
  assumes "find_index P xs = Some i"
  shows "i < length xs" "P (xs ! i)" "j < i \<Longrightarrow> \<not> P (xs ! j)"
proof -
  have "i < length xs \<and> P (xs ! i) \<and> (\<forall>j<i. \<not> P (xs ! j))" using assms
  proof (induction xs arbitrary: i)
    case (Cons x xs)
    then show ?case by (cases i) (auto simp: less_Suc_eq_0_disj split: if_splits)
  qed simp
  then show "i < length xs" "P (xs ! i)" "j < i \<Longrightarrow> \<not> P (xs ! j)" by auto
qed

definition zero_context :: kcontext where
  "zero_context = \<lparr>ctx_edi = 0, ctx_esi = 0, ctx_ebx = 0, ctx_ebp = 0, ctx_eip = 0\<rparr>"

text \<open>
  The trap frame (76 bytes) and the context (20 bytes) lie on the kernel stack; they are kept
  as the fields \<open>tf\<close> and \<open>ctx\<close> of the entry. The word between them, the address of
  \<open>trapret\<close>, is stored in memory.
\<close>

definition allocproc :: "'a pst_scheme \<Rightarrow> ('a pst_scheme, nat option) res" where
  "allocproc s =
     bindR (acquire L_ptable s) (\<lambda>_ s.
     case find_index (\<lambda>p. state p = UNUSED) (ptable s) of
       None \<Rightarrow> bindR (release L_ptable s) (\<lambda>_ s. Ret None s)
     | Some i \<Rightarrow>
         let s = upd_proc i (\<lambda>p. p\<lparr>state := EMBRYO, pid := nextpid s\<rparr>) s;
             s = s\<lparr>nextpid := nextpid s + 1\<rparr> in
         bindR (release L_ptable s) (\<lambda>_ s.
         bindR (kalloc s) (\<lambda>stk s.
         let s = upd_proc i (\<lambda>p. p\<lparr>kstack := stk\<rparr>) s in
         if stk = 0 then Ret None (upd_proc i (\<lambda>p. p\<lparr>state := UNUSED\<rparr>) s)
         else
           let sp = stk + KSTACKSIZE;
               sp = sp - 76;
               sp = sp - 4;
               s = s\<lparr>mem := store32 (mem s) sp (trapret_sym s)\<rparr>;
               s = upd_proc i (\<lambda>p. p\<lparr>ctx := zero_context\<lparr>ctx_eip := forkret_sym s\<rparr>\<rparr>) s in
           bindR (set_handler i SIGKILL (W 0xFFFFFFFF) s) (\<lambda>_ s.
           bindR (set_handler i SIGFPE (W 0xFFFFFFFF) s) (\<lambda>_ s.
           bindR (set_handler i SIGSEGV (W 0xFFFFFFFF) s) (\<lambda>_ s.
           let s = upd_proc i (\<lambda>p. p\<lparr>restorer_addr := 0xFFFFFFFF, shared := False\<rparr>) s in
           Ret (Some i) s))))))"

section \<open>Sleeping, waking and giving up the processor\<close>

text \<open>
  \<open>sched\<close> leaves the processor: control comes back only when the scheduler picks the process
  again. The nesting count \<open>ncli\<close> is the number of locks held (theory \<open>Spinlock\<close>), and
  interrupts are off while a lock is held.
\<close>

definition sched :: "'a pst_scheme \<Rightarrow> ('a pst_scheme, unit) res" where
  "sched s =
     (if L_ptable \<notin> set (held s) then Panic ''sched ptable.lock''
      else if length (held s) \<noteq> 1 then Panic ''sched locks''
      else with_cur s (\<lambda>i.
        if state (ptable s ! i) = RUNNING then Panic ''sched running''
        else Sleep s))"

definition yield_cpu :: "'a pst_scheme \<Rightarrow> ('a pst_scheme, unit) res" where
  "yield_cpu s =
     bindR (acquire L_ptable s) (\<lambda>_ s.
     with_cur s (\<lambda>i. sched (upd_proc i (\<lambda>p. p\<lparr>state := RUNNABLE\<rparr>) s)))"

text \<open>\<open>sleep\<close> up to the switch, and from the switch back to its return.\<close>

definition sleep :: "chan \<Rightarrow> lockid \<Rightarrow> 'a pst_scheme \<Rightarrow> ('a pst_scheme, unit) res" where
  "sleep ch lk s =
     (case cur s of None \<Rightarrow> Panic ''sleep''
      | Some i \<Rightarrow>
          bindR (if lk \<noteq> L_ptable
                 then bindR (acquire L_ptable s) (\<lambda>_ s. release lk s) else Ret () s) (\<lambda>_ s.
          sched (upd_proc i (\<lambda>p. p\<lparr>wchan := Some ch, state := SLEEPING\<rparr>) s)))"

definition sleep_return :: "lockid \<Rightarrow> 'a pst_scheme \<Rightarrow> ('a pst_scheme, unit) res" where
  "sleep_return lk s =
     with_cur s (\<lambda>i.
     let s = upd_proc i (\<lambda>p. p\<lparr>wchan := None\<rparr>) s in
     if lk \<noteq> L_ptable then bindR (release L_ptable s) (\<lambda>_ s. acquire lk s) else Ret () s)"

definition wakeup1 :: "chan \<Rightarrow> 'a pst_scheme \<Rightarrow> 'a pst_scheme" where
  "wakeup1 ch s =
     s\<lparr>ptable := map (\<lambda>p. if state p = SLEEPING \<and> wchan p = Some ch
                          then p\<lparr>state := RUNNABLE\<rparr> else p) (ptable s)\<rparr>"

definition wakeup :: "chan \<Rightarrow> 'a pst_scheme \<Rightarrow> ('a pst_scheme, unit) res" where
  "wakeup ch s =
     bindR (acquire L_ptable s) (\<lambda>_ s.
     let s = wakeup1 ch s in
     release L_ptable s)"

lemma wakeup_Ret: "L_ptable \<notin> set (held s) \<Longrightarrow> wakeup ch s = Ret () (wakeup1 ch s)"
  by (simp add: wakeup_def wakeup1_def)

lemma sleep_Sleep:
  assumes "held s = [lk]" "lk \<noteq> L_ptable" "cur s = Some i" "i < length (ptable s)"
  shows "sleep ch lk s = Sleep (s\<lparr>held := [L_ptable],
    ptable := (ptable s)[i := (ptable s ! i)\<lparr>wchan := Some ch, state := SLEEPING\<rparr>]\<rparr>)"
  using assms by (simp add: sleep_def sched_def with_cur_def upd_proc_def release_def)

definition kill :: "u32 \<Rightarrow> 'a pst_scheme \<Rightarrow> ('a pst_scheme, int) res" where
  "kill n s =
     bindR (acquire L_ptable s) (\<lambda>_ s.
     case find_index (\<lambda>p. pid p = n) (ptable s) of
       None \<Rightarrow> bindR (release L_ptable s) (\<lambda>_ s. Ret (-1) s)
     | Some i \<Rightarrow>
         let s = upd_proc i (\<lambda>p. p\<lparr>killed := True\<rparr>) s;
             s = upd_proc i (\<lambda>p. if state p = SLEEPING then p\<lparr>state := RUNNABLE\<rparr> else p) s in
         bindR (release L_ptable s) (\<lambda>_ s. Ret 0 s))"

end
