(* ===== verification/Segments.thy ===== *)
theory Segments
  imports Prelude
begin

text \<open>
  Segment and gate descriptors (\<^verbatim>\<open>mmu.h\<close>): the bit fields of the two structures and the
  macros that fill them, with the proof that the processor reads back the base, limit and
  offset that the macros were given.
\<close>

section \<open>Definitions\<close>

abbreviation (input) SEG_KCODE :: nat where "SEG_KCODE \<equiv> 1"
abbreviation (input) SEG_KDATA :: nat where "SEG_KDATA \<equiv> 2"
abbreviation (input) SEG_KCPU :: nat where "SEG_KCPU \<equiv> 3"
abbreviation (input) SEG_UCODE :: nat where "SEG_UCODE \<equiv> 4"
abbreviation (input) SEG_UDATA :: nat where "SEG_UDATA \<equiv> 5"
abbreviation (input) SEG_TSS :: nat where "SEG_TSS \<equiv> 6"

record segdesc =
  lim_15_0 :: "16 word"
  base_15_0 :: "16 word"
  base_23_16 :: "8 word"
  seg_type :: "4 word"
  seg_s :: "1 word"
  seg_dpl :: "2 word"
  seg_p :: "1 word"
  lim_19_16 :: "4 word"
  avl :: "1 word"
  seg_rsv1 :: "1 word"
  db :: "1 word"
  seg_g :: "1 word"
  base_31_24 :: "8 word"

abbreviation (input) DPL_USER :: "2 word" where "DPL_USER \<equiv> 3"
abbreviation (input) STA_X :: "4 word" where "STA_X \<equiv> 0x8"
abbreviation (input) STA_W :: "4 word" where "STA_W \<equiv> 0x2"
abbreviation (input) STA_R :: "4 word" where "STA_R \<equiv> 0x2"
abbreviation (input) STS_T32A :: "4 word" where "STS_T32A \<equiv> 0x9"
abbreviation (input) STS_IG32 :: "4 word" where "STS_IG32 \<equiv> 0xE"
abbreviation (input) STS_TG32 :: "4 word" where "STS_TG32 \<equiv> 0xF"

definition SEG :: "4 word \<Rightarrow> u32 \<Rightarrow> u32 \<Rightarrow> 2 word \<Rightarrow> segdesc" where
  "SEG ty base lim dpl =
     \<lparr>lim_15_0 = ucast (drop_bit 12 lim AND 0xFFFF), base_15_0 = ucast (base AND 0xFFFF),
      base_23_16 = ucast (drop_bit 16 base AND 0xFF), seg_type = ty, seg_s = 1, seg_dpl = dpl,
      seg_p = 1, lim_19_16 = ucast (drop_bit 28 lim), avl = 0, seg_rsv1 = 0, db = 1, seg_g = 1,
      base_31_24 = ucast (drop_bit 24 base)\<rparr>"

definition SEG16 :: "4 word \<Rightarrow> u32 \<Rightarrow> u32 \<Rightarrow> 2 word \<Rightarrow> segdesc" where
  "SEG16 ty base lim dpl =
     \<lparr>lim_15_0 = ucast (lim AND 0xFFFF), base_15_0 = ucast (base AND 0xFFFF),
      base_23_16 = ucast (drop_bit 16 base AND 0xFF), seg_type = ty, seg_s = 1, seg_dpl = dpl,
      seg_p = 1, lim_19_16 = ucast (drop_bit 16 lim), avl = 0, seg_rsv1 = 0, db = 1, seg_g = 0,
      base_31_24 = ucast (drop_bit 24 base)\<rparr>"

record gatedesc =
  off_15_0 :: "16 word"
  gate_cs :: "16 word"
  gate_args :: "5 word"
  gate_rsv1 :: "3 word"
  gate_type :: "4 word"
  gate_s :: "1 word"
  gate_dpl :: "2 word"
  gate_p :: "1 word"
  off_31_16 :: "16 word"

definition SETGATE :: "bool \<Rightarrow> 16 word \<Rightarrow> u32 \<Rightarrow> 2 word \<Rightarrow> gatedesc" where
  "SETGATE istrap sel off d =
     \<lparr>off_15_0 = ucast (off AND 0xFFFF), gate_cs = sel, gate_args = 0, gate_rsv1 = 0,
      gate_type = (if istrap then STS_TG32 else STS_IG32), gate_s = 0, gate_dpl = d, gate_p = 1,
      off_31_16 = ucast (drop_bit 16 off)\<rparr>"

section \<open>What the processor reads\<close>

definition seg_base :: "segdesc \<Rightarrow> u32" where
  "seg_base d = (ucast (base_15_0 d) OR push_bit 16 (ucast (base_23_16 d))
     OR push_bit 24 (ucast (base_31_24 d)))"

text \<open>The limit: 20 bits, in pages of 4096 bytes when the granularity bit is set.\<close>

definition seg_limit :: "segdesc \<Rightarrow> u32" where
  "seg_limit d =
     (let lim = ucast (lim_15_0 d) OR push_bit 16 (ucast (lim_19_16 d)) in
      if seg_g d = 1 then push_bit 12 lim OR 0xFFF else lim)"

definition gate_offset :: "gatedesc \<Rightarrow> u32" where
  "gate_offset g = (ucast (off_15_0 g) OR push_bit 16 (ucast (off_31_16 g)))"

lemma mask16: "(0xFFFF :: u32) = mask 16" and mask8: "(0xFF :: u32) = mask 8"
  and mask12': "(0xFFF :: u32) = mask 12"
  by (simp_all add: mask_eq_exp_minus_1)

lemma base_fields:
  "((ucast (ucast (b AND 0xFFFF) :: 16 word) :: u32)
     OR push_bit 16 (ucast (ucast (drop_bit 16 b AND 0xFF) :: 8 word))
     OR push_bit 24 (ucast (ucast (drop_bit 24 b) :: 8 word))) = (b :: u32)" (is "?l = b")
proof (rule bit_word_eqI)
  fix n assume "n < LENGTH(32)"
  then consider "n < 16" | "16 \<le> n" "n < 24" | "24 \<le> n" "n < 32" by fastforce
  then show "bit ?l n = bit b n"
    unfolding mask16 mask8 by cases (auto simp: bit_simps)
qed

lemma SEG_base [simp]: "seg_base (SEG ty base lim dpl) = base"
  unfolding seg_base_def SEG_def by (simp only: segdesc.simps base_fields)

lemma SEG16_base [simp]: "seg_base (SEG16 ty base lim dpl) = base"
  unfolding seg_base_def SEG16_def by (simp only: segdesc.simps base_fields)

lemma SEG_limit: "seg_limit (SEG ty base lim dpl) = lim OR 0xFFF"
proof -
  have "push_bit 12 ((ucast (ucast (drop_bit 12 lim AND 0xFFFF) :: 16 word) :: u32)
      OR push_bit 16 (ucast (ucast (drop_bit 28 lim) :: 4 word))) OR 0xFFF = lim OR 0xFFF"
    (is "?l = ?r")
  proof (rule bit_word_eqI)
    fix n assume "n < LENGTH(32)"
    then consider "n < 12" | "12 \<le> n" "n < 28" | "28 \<le> n" "n < 32" by fastforce
    then show "bit ?l n = bit ?r n"
      unfolding mask16 mask12' by cases (auto simp: bit_simps)
  qed
  then show ?thesis
    unfolding seg_limit_def SEG_def Let_def by (simp only: segdesc.simps simp_thms if_True)
qed

lemma SEG16_limit:
  assumes "lim < 0x100000"
  shows "seg_limit (SEG16 ty base lim dpl) = lim"
proof -
  have hi: "\<not> bit lim n" if "20 \<le> n" for n
  proof -
    have "lim = take_bit 20 lim"
      using assms by (simp add: take_bit_eq_mod word_eq_unat unat_mod word_less_nat_alt)
    then show ?thesis using that by (metis bit_take_bit_iff leD)
  qed
  have "(ucast (ucast (lim AND 0xFFFF) :: 16 word) :: u32)
      OR push_bit 16 (ucast (ucast (drop_bit 16 lim) :: 4 word)) = lim" (is "?l = lim")
  proof (rule bit_word_eqI)
    fix n assume "n < LENGTH(32)"
    then consider "n < 16" | "16 \<le> n" "n < 20" | "20 \<le> n" "n < 32" by fastforce
    then show "bit ?l n = bit lim n"
      unfolding mask16 using hi by cases (auto simp: bit_simps)
  qed
  then show ?thesis
    unfolding seg_limit_def SEG16_def Let_def by (simp only: segdesc.simps) simp
qed

lemma SETGATE_offset [simp]: "gate_offset (SETGATE t sel off d) = off"
proof -
  have "(ucast (ucast (off AND 0xFFFF) :: 16 word) :: u32)
      OR push_bit 16 (ucast (ucast (drop_bit 16 off) :: 16 word)) = off" (is "?l = off")
  proof (rule bit_word_eqI)
    fix n assume "n < LENGTH(32)"
    then consider "n < 16" | "16 \<le> n" "n < 32" by fastforce
    then show "bit ?l n = bit off n"
      unfolding mask16 by cases (auto simp: bit_simps)
  qed
  then show ?thesis
    unfolding gate_offset_def SETGATE_def by (simp only: gatedesc.simps)
qed

end
