(* ===== verification/Vm.thy ===== *)
theory Vm
  imports Proc Segments
begin

text \<open>
  Address spaces (\<^verbatim>\<open>vm.c\<close>): the code. Page directories and page tables are read and written in
  the kernel's memory through their kernel virtual addresses; an entry holds a physical
  address. \<open>cprintf\<close> calls only write to the console and are left out, and so is the effect of
  reloading \<open>cr3\<close> on the translation cache. A read or write through a null pointer, whose behaviour C leaves undefined, is a
  \<open>Fault\<close>.
  \<open>loaduvm\<close>, which reads a file, is in theory \<open>Exec\<close>.
\<close>

section \<open>State\<close>

text \<open>
  \<open>pte_array\<close> is the table of reference counts of shared pages, an array of signed characters
  indexed by page number; \<open>data_sym\<close> is the address of the linker symbol \<open>data\<close> and \<open>ts_sym\<close>
  that of the running processor's task state and \<open>cpu_sym\<close> that of its \<open>cpu\<close>, \<open>proc\<close> pair.
\<close>

record vmst = pst +
  pte_array :: "nat \<Rightarrow> u8"
  kpgdir :: u32
  cr3 :: u32
  gdt :: "nat \<Rightarrow> segdesc"
  ts_ss0 :: u16
  ts_esp0 :: u32
  data_sym :: u32
  ts_sym :: u32
  cpu_sym :: u32

definition lcr3 :: "u32 \<Rightarrow> 'a vmst_scheme \<Rightarrow> 'a vmst_scheme" where
  "lcr3 val s = s\<lparr>cr3 := val\<rparr>"

section \<open>Segments\<close>

definition seginit :: "'a vmst_scheme \<Rightarrow> 'a vmst_scheme" where
  "seginit s =
     s\<lparr>gdt := (gdt s)
         (SEG_KCODE := SEG (STA_X OR STA_R) 0 0xffffffff 0,
          SEG_KDATA := SEG STA_W 0 0xffffffff 0,
          SEG_UCODE := SEG (STA_X OR STA_R) 0 0xffffffff DPL_USER,
          SEG_UDATA := SEG STA_W 0 0xffffffff DPL_USER,
          SEG_KCPU := SEG STA_W (cpu_sym s) 8 0),
       cur := None\<rparr>"

section \<open>Page tables\<close>

definition walkpgdir :: "u32 \<Rightarrow> u32 \<Rightarrow> bool \<Rightarrow> 'a kmem_scheme \<Rightarrow> ('a kmem_scheme, u32) res" where
  "walkpgdir pd va alloc s =
     (let pde = slot pd (PDX va) in
      if load32 (mem s) pde AND PTE_P \<noteq> 0
      then let pgtab = p2v (PTE_ADDR (load32 (mem s) pde)) in Ret (slot pgtab (PTX va)) s
      else if \<not> alloc then Ret 0 s
      else bindR (kalloc s) (\<lambda>pgtab s.
        if pgtab = 0 then Ret 0 s
        else
          let s = s\<lparr>mem := memset (mem s) pgtab 0 PGSIZE\<rparr>;
              s = s\<lparr>mem := store32 (mem s) pde (v2p pgtab OR PTE_P OR PTE_W OR PTE_U)\<rparr> in
          Ret (slot pgtab (PTX va)) s))"

text \<open>
  The loop of \<open>mappages\<close> ends when \<open>a = lst\<close> (\<open>last\<close> in the code); its fuel is the number of pages of the address
  space.
\<close>

primrec mappages_loop :: "nat \<Rightarrow> u32 \<Rightarrow> u32 \<Rightarrow> u32 \<Rightarrow> u32 \<Rightarrow> u32 \<Rightarrow> 'a kmem_scheme \<Rightarrow>
    ('a kmem_scheme, int) res" where
  "mappages_loop 0 pd a lst pa perm s = NoFuel"
| "mappages_loop (Suc n) pd a lst pa perm s =
     bindR (walkpgdir pd a True s) (\<lambda>pte s.
     if pte = 0 then Ret (-1) s
     else if load32 (mem s) pte AND PTE_P \<noteq> 0 then Panic ''remap''
     else
       let s = s\<lparr>mem := store32 (mem s) pte (pa OR perm OR PTE_P)\<rparr> in
       if a = lst then Ret 0 s
       else mappages_loop n pd (a + PGSIZE) lst (pa + PGSIZE) perm s)"

definition mappages :: "u32 \<Rightarrow> u32 \<Rightarrow> u32 \<Rightarrow> u32 \<Rightarrow> u32 \<Rightarrow> 'a kmem_scheme \<Rightarrow>
    ('a kmem_scheme, int) res" where
  "mappages pd va nbytes pa perm s =
     mappages_loop 1048576 pd (PGROUNDDOWN va) (PGROUNDDOWN (va + nbytes - 1)) pa perm s"

section \<open>The kernel's part of an address space\<close>

text \<open>The table \<open>kmap\<close>: virtual address, physical range, permissions.\<close>

definition kmap :: "u32 \<Rightarrow> (u32 \<times> u32 \<times> u32 \<times> u32) list" where
  "kmap data =
     [(KERNBASE, 0, EXTMEM, PTE_W),
      (KERNLINK, v2p KERNLINK, v2p data, 0),
      (data, v2p data, PHYSTOP, PTE_W),
      (DEVSPACE, DEVSPACE, 0, PTE_W)]"

primrec setupkvm_loop :: "u32 \<Rightarrow> (u32 \<times> u32 \<times> u32 \<times> u32) list \<Rightarrow> 'a kmem_scheme \<Rightarrow>
    ('a kmem_scheme, u32) res" where
  "setupkvm_loop pd [] s = Ret pd s"
| "setupkvm_loop pd (k # ks) s =
     (case k of (virt, phys_start, phys_end, perm) \<Rightarrow>
      bindR (mappages pd virt (phys_end - phys_start) phys_start perm s) (\<lambda>r s.
      if r < 0 then Ret 0 s else setupkvm_loop pd ks s))"

definition setupkvm :: "'a vmst_scheme \<Rightarrow> ('a vmst_scheme, u32) res" where
  "setupkvm s =
     bindR (kalloc s) (\<lambda>pd s.
     if pd = 0 then Ret 0 s
     else
       let s = s\<lparr>mem := memset (mem s) pd 0 PGSIZE\<rparr> in
       if p2v PHYSTOP > DEVSPACE then Panic ''PHYSTOP too high''
       else setupkvm_loop pd (kmap (data_sym s)) s)"

definition switchkvm :: "'a vmst_scheme \<Rightarrow> 'a vmst_scheme" where
  "switchkvm s = lcr3 (v2p (kpgdir s)) s"

definition kvmalloc :: "'a vmst_scheme \<Rightarrow> ('a vmst_scheme, unit) res" where
  "kvmalloc s =
     bindR (setupkvm s) (\<lambda>pd s.
     let s = s\<lparr>kpgdir := pd\<rparr> in
     Ret () (switchkvm s))"

text \<open>
  \<open>switchuvm p\<close> loads the task state from \<open>proc\<close>, the running process. The matched
  \<open>pushcli\<close> and \<open>popcli\<close> leave the locks alone.
\<close>

definition switchuvm :: "nat \<Rightarrow> 'a vmst_scheme \<Rightarrow> ('a vmst_scheme, unit) res" where
  "switchuvm p s =
     with_cur s (\<lambda>i.
     let s = s\<lparr>gdt := (gdt s)(SEG_TSS := (SEG16 STS_T32A (ts_sym s) 103 0)\<lparr>seg_s := 0\<rparr>)\<rparr>;
         s = s\<lparr>ts_ss0 := 0x10\<rparr>;
         s = s\<lparr>ts_esp0 := kstack (ptable s ! i) + KSTACKSIZE\<rparr> in
     if pgdir (ptable s ! p) = 0 then Panic ''switchuvm: no pgdir''
     else Ret () (lcr3 (v2p (pgdir (ptable s ! p))) s))"

section \<open>The user's part of an address space\<close>

text \<open>Copying a buffer of bytes to memory.\<close>

primrec write_bytes :: "memory \<Rightarrow> u32 \<Rightarrow> u8 list \<Rightarrow> memory" where
  "write_bytes m a [] = m"
| "write_bytes m a (b # bs) = write_bytes (m(a := b)) (a + 1) bs"

definition inituvm :: "u32 \<Rightarrow> u8 list \<Rightarrow> 'a kmem_scheme \<Rightarrow> ('a kmem_scheme, unit) res" where
  "inituvm pd init s =
     (if length init \<ge> 4096 then Panic ''inituvm: more than a page''
      else bindR (kalloc s) (\<lambda>pg s.
        if pg = 0 then Fault ''inituvm''
        else
          let s = s\<lparr>mem := memset (mem s) pg 0 PGSIZE\<rparr> in
          bindR (mappages pd 0 PGSIZE (v2p pg) (PTE_W OR PTE_U) s) (\<lambda>_ s.
          Ret () (s\<lparr>mem := write_bytes (mem s) pg init\<rparr>))))"

abbreviation (input) PROT_NONE :: u32 where "PROT_NONE \<equiv> 0"
abbreviation (input) PROT_READ :: u32 where "PROT_READ \<equiv> 1"
abbreviation (input) PROT_WRITE :: u32 where "PROT_WRITE \<equiv> 2"

text \<open>The new value of an entry: the clearing of \<open>W\<close> and \<open>U\<close>, then the \<open>switch\<close>.\<close>

definition mprotect_pte :: "u32 \<Rightarrow> u32 \<Rightarrow> u32" where
  "mprotect_pte prot pte =
     (let pte = pte AND 0xfffffff9 in
      if prot = PROT_NONE then pte OR PTE_P
      else if prot = PROT_READ then pte OR (PTE_P OR PTE_U)
      else if prot = PROT_WRITE then pte OR (PTE_P OR PTE_W)
      else if prot = PROT_READ OR PROT_WRITE then pte OR (PTE_P OR PTE_W OR PTE_U)
      else pte)"

text \<open>The \<open>do\<close> loop of \<open>mprotect\<close>: one round per page, \<open>fin\<close> is \<open>(uint)addr + len\<close>.\<close>

primrec mprotect_loop :: "nat \<Rightarrow> u32 \<Rightarrow> u32 \<Rightarrow> u32 \<Rightarrow> u32 \<Rightarrow> 'a kmem_scheme \<Rightarrow>
    ('a kmem_scheme, unit) res" where
  "mprotect_loop 0 pd a fin prot s = NoFuel"
| "mprotect_loop (Suc n) pd a fin prot s =
     bindR (walkpgdir pd a False s) (\<lambda>pte s.
     let a = a + PGSIZE in
     if pte = 0 then Fault ''mprotect''
     else
       let s = s\<lparr>mem := store32 (mem s) pte (mprotect_pte prot (load32 (mem s) pte))\<rparr> in
       if a < fin then mprotect_loop n pd a fin prot s else Ret () s)"

definition mprotect :: "u32 \<Rightarrow> u32 \<Rightarrow> u32 \<Rightarrow> 'a vmst_scheme \<Rightarrow> ('a vmst_scheme, int) res" where
  "mprotect addr len prot s =
     with_cur s (\<lambda>i.
     bindR (mprotect_loop 1048576 (pgdir (ptable s ! i)) (PGROUNDDOWN addr) (addr + len) prot s)
       (\<lambda>_ s. Ret 0 (lcr3 (v2p (pgdir (ptable s ! i))) s)))"

text \<open>The reference count of the page with physical address \<open>pa\<close>, a signed character.\<close>

definition page_no :: "u32 \<Rightarrow> nat" where
  "page_no pa = unat (pa div PGSIZE)"

definition refs :: "u32 \<Rightarrow> 'a vmst_scheme \<Rightarrow> int" where
  "refs pa s = sint (pte_array s (page_no pa))"

definition set_refs :: "u32 \<Rightarrow> u8 \<Rightarrow> 'a vmst_scheme \<Rightarrow> 'a vmst_scheme" where
  "set_refs pa n s = s\<lparr>pte_array := (pte_array s)(page_no pa := n)\<rparr>"

text \<open>What \<open>deallocuvm\<close> does with one present entry.\<close>

definition dealloc_pte :: "u32 \<Rightarrow> 'a vmst_scheme \<Rightarrow> ('a vmst_scheme, unit) res" where
  "dealloc_pte pte s =
     (let pa = PTE_ADDR (load32 (mem s) pte) in
      bindR (acquire L_pte_lookup s) (\<lambda>_ s.
      bindR
        (if refs pa s < 2 then
           (if pa = 0 then bindR (release L_pte_lookup s) (\<lambda>_ s. Panic ''kfree'')
            else bindR (kfree (p2v pa) s) (\<lambda>_ s. Ret () (s\<lparr>mem := store32 (mem s) pte 0\<rparr>)))
         else if refs pa s = 2 then
           Ret () (set_refs pa 1
             (s\<lparr>mem := store32 (mem s) pte (load32 (mem s) pte OR PTE_W)\<rparr>))
         else Ret () (set_refs pa (pte_array s (page_no pa) - 1) s))
        (\<lambda>_ s. release L_pte_lookup s)))"

primrec deallocuvm_loop :: "nat \<Rightarrow> u32 \<Rightarrow> u32 \<Rightarrow> u32 \<Rightarrow> 'a vmst_scheme \<Rightarrow>
    ('a vmst_scheme, unit) res" where
  "deallocuvm_loop 0 pd a oldsz s = NoFuel"
| "deallocuvm_loop (Suc n) pd a oldsz s =
     (if a < oldsz then
        bindR (walkpgdir pd a False s) (\<lambda>pte s.
        if pte = 0 then
          deallocuvm_loop n pd (a + (NPTENTRIES - 1) * PGSIZE + PGSIZE) oldsz s
        else if load32 (mem s) pte AND PTE_P \<noteq> 0 then
          bindR (dealloc_pte pte s) (\<lambda>_ s. deallocuvm_loop n pd (a + PGSIZE) oldsz s)
        else deallocuvm_loop n pd (a + PGSIZE) oldsz s)
      else Ret () s)"

definition deallocuvm :: "u32 \<Rightarrow> u32 \<Rightarrow> u32 \<Rightarrow> 'a vmst_scheme \<Rightarrow> ('a vmst_scheme, u32) res" where
  "deallocuvm pd oldsz newsz s =
     (if newsz \<ge> oldsz then Ret oldsz s
      else bindR (deallocuvm_loop 1048577 pd (PGROUNDUP newsz) oldsz s) (\<lambda>_ s. Ret newsz s))"

primrec allocuvm_loop :: "nat \<Rightarrow> u32 \<Rightarrow> u32 \<Rightarrow> u32 \<Rightarrow> u32 \<Rightarrow> 'a vmst_scheme \<Rightarrow>
    ('a vmst_scheme, u32) res" where
  "allocuvm_loop 0 pd a oldsz newsz s = NoFuel"
| "allocuvm_loop (Suc n) pd a oldsz newsz s =
     (if a < newsz then
        bindR (kalloc s) (\<lambda>pg s.
        if pg = 0 then bindR (deallocuvm pd newsz oldsz s) (\<lambda>_ s. Ret 0 s)
        else
          let s = s\<lparr>mem := memset (mem s) pg 0 PGSIZE\<rparr> in
          bindR (mappages pd a PGSIZE (v2p pg) (PTE_W OR PTE_U) s) (\<lambda>_ s.
          allocuvm_loop n pd (a + PGSIZE) oldsz newsz s))
      else Ret newsz s)"

definition allocuvm :: "u32 \<Rightarrow> u32 \<Rightarrow> u32 \<Rightarrow> 'a vmst_scheme \<Rightarrow> ('a vmst_scheme, u32) res" where
  "allocuvm pd oldsz newsz s =
     (if newsz \<ge> KERNBASE then Ret 0 s
      else if newsz < oldsz then Ret oldsz s
      else allocuvm_loop 1048577 pd (PGROUNDUP oldsz) oldsz newsz s)"

text \<open>The loop over the page directory at the end of \<open>freevm\<close>.\<close>

primrec freevm_loop :: "nat \<Rightarrow> u32 \<Rightarrow> u32 \<Rightarrow> 'a vmst_scheme \<Rightarrow> ('a vmst_scheme, unit) res" where
  "freevm_loop 0 pd i s = Ret () s"
| "freevm_loop (Suc n) pd i s =
     bindR (if load32 (mem s) (slot pd i) AND PTE_P \<noteq> 0
            then kfree (p2v (PTE_ADDR (load32 (mem s) (slot pd i)))) s else Ret () s) (\<lambda>_ s.
     freevm_loop n pd (i + 1) s)"

definition freevm :: "u32 \<Rightarrow> 'a vmst_scheme \<Rightarrow> ('a vmst_scheme, unit) res" where
  "freevm pd s =
     (if pd = 0 then Panic ''freevm: no pgdir''
      else
        bindR (deallocuvm pd KERNBASE 0 s) (\<lambda>_ s.
        bindR (freevm_loop 1024 pd 0 s) (\<lambda>_ s.
        kfree pd s)))"

primrec free_cow_loop :: "nat \<Rightarrow> u32 \<Rightarrow> u32 \<Rightarrow> 'a vmst_scheme \<Rightarrow> ('a vmst_scheme, unit) res" where
  "free_cow_loop 0 pd i s = Ret () s"
| "free_cow_loop (Suc n) pd i s =
     bindR (if load32 (mem s) (slot pd i) AND PTE_P \<noteq> 0 then
              (let pa = PTE_ADDR (load32 (mem s) (slot pd i)) in
               if refs pa s < 2 then kfree (p2v pa) s else Ret () s)
            else Ret () s) (\<lambda>_ s.
     free_cow_loop n pd (i + 1) s)"

definition free_cow_vm :: "u32 \<Rightarrow> 'a vmst_scheme \<Rightarrow> ('a vmst_scheme, unit) res" where
  "free_cow_vm pd s =
     (if pd = 0 then Panic ''freevm: no pgdir''
      else
        bindR (deallocuvm pd KERNBASE 0 s) (\<lambda>_ s.
        bindR (acquire L_pte_lookup s) (\<lambda>_ s.
        bindR (free_cow_loop 1024 pd 0 s) (\<lambda>_ s.
        release L_pte_lookup s))))"

definition clearpteu :: "u32 \<Rightarrow> u32 \<Rightarrow> 'a kmem_scheme \<Rightarrow> ('a kmem_scheme, unit) res" where
  "clearpteu pd uva s =
     bindR (walkpgdir pd uva False s) (\<lambda>pte s.
     if pte = 0 then Panic ''clearpteu''
     else Ret () (s\<lparr>mem := store32 (mem s) pte (load32 (mem s) pte AND NOT PTE_U)\<rparr>))"

section \<open>Copying an address space\<close>

text \<open>\<open>None\<close> is the jump to \<open>bad\<close>.\<close>

primrec copyuvm_loop :: "nat \<Rightarrow> u32 \<Rightarrow> u32 \<Rightarrow> u32 \<Rightarrow> u32 \<Rightarrow> 'a vmst_scheme \<Rightarrow>
    ('a vmst_scheme, unit option) res" where
  "copyuvm_loop 0 pd d i nbytes s = NoFuel"
| "copyuvm_loop (Suc n) pd d i nbytes s =
     (if i < nbytes then
        bindR (walkpgdir pd i False s) (\<lambda>pte s.
        if pte = 0 then Panic ''copyuvm: pte should exist''
        else if load32 (mem s) pte AND PTE_P = 0 then Panic ''copyuvm: page not present''
        else
          let pa = PTE_ADDR (load32 (mem s) pte);
              flags = PTE_FLAGS (load32 (mem s) pte) in
          bindR (kalloc s) (\<lambda>pg s.
          if pg = 0 then Ret None s
          else
            let s = s\<lparr>mem := memmove (mem s) pg (p2v pa) PGSIZE\<rparr> in
            bindR (mappages d i PGSIZE (v2p pg) flags s) (\<lambda>r s.
            if r < 0 then Ret None s
            else copyuvm_loop n pd d (i + PGSIZE) nbytes s)))
      else Ret (Some ()) s)"

definition copyuvm :: "u32 \<Rightarrow> u32 \<Rightarrow> 'a vmst_scheme \<Rightarrow> ('a vmst_scheme, u32) res" where
  "copyuvm pd nbytes s =
     bindR (setupkvm s) (\<lambda>d s.
     if d = 0 then Ret 0 s
     else bindR (copyuvm_loop 1048577 pd d 0 nbytes s) (\<lambda>r s.
       case r of Some _ \<Rightarrow> Ret d s
       | None \<Rightarrow> bindR (freevm d s) (\<lambda>_ s. Ret 0 s)))"

section \<open>Copy on write\<close>

primrec copyuvm_cow_loop :: "nat \<Rightarrow> u32 \<Rightarrow> u32 \<Rightarrow> u32 \<Rightarrow> u32 \<Rightarrow> 'a vmst_scheme \<Rightarrow>
    ('a vmst_scheme, unit option) res" where
  "copyuvm_cow_loop 0 pd d i nbytes s = NoFuel"
| "copyuvm_cow_loop (Suc n) pd d i nbytes s =
     (if i < nbytes then
        bindR (walkpgdir pd i False s) (\<lambda>pte s.
        if pte = 0 then Panic ''copyuvm: pte should exist''
        else if load32 (mem s) pte AND PTE_P = 0 then Panic ''copyuvm: page not present''
        else
          let pa = PTE_ADDR (load32 (mem s) pte);
              flags = PTE_FLAGS (load32 (mem s) pte) in
          bindR (kalloc s) (\<lambda>pg s.
          if pg = 0 then Ret None s
          else
            bindR (acquire L_pte_lookup s) (\<lambda>_ s.
            let s = (if refs pa s = 0 then set_refs pa 2 s
                     else set_refs pa (pte_array s (page_no pa) + 1) s) in
            bindR (release L_pte_lookup s) (\<lambda>_ s.
            bindR (mappages d i PGSIZE pa flags s) (\<lambda>r s.
            if r < 0 then Ret None s
            else
              let s = s\<lparr>mem := store32 (mem s) pte (load32 (mem s) pte AND NOT PTE_W)\<rparr> in
              copyuvm_cow_loop n pd d (i + PGSIZE) nbytes s)))))
      else Ret (Some ()) s)"

definition copyuvm_cow :: "u32 \<Rightarrow> u32 \<Rightarrow> 'a vmst_scheme \<Rightarrow> ('a vmst_scheme, u32) res" where
  "copyuvm_cow pd nbytes s =
     bindR (setupkvm s) (\<lambda>d s.
     if d = 0 then Ret 0 s
     else bindR (copyuvm_cow_loop 1048577 pd d 0 nbytes s) (\<lambda>r s.
       case r of Some _ \<Rightarrow> Ret d (lcr3 (v2p pd) s)
       | None \<Rightarrow> bindR (freevm d s) (\<lambda>_ s. Ret 0 s)))"

text \<open>
  The test for a count of one reads \<open>pte_array[pa/PGSIZE == 1]\<close>, that is entry 1 when the page
  number is 1 and entry 0 otherwise.
\<close>

definition handle_cow_fault :: "u32 \<Rightarrow> 'a vmst_scheme \<Rightarrow> ('a vmst_scheme, unit) res" where
  "handle_cow_fault addr s =
     (case cur s of
        None \<Rightarrow> Panic ''handle_cow_fault: proc should exist''
      | Some i \<Rightarrow>
        if addr \<ge> KERNBASE then Panic (''handle_cow_fault: given kernel level address'' @ [CHR 0x0A])
        else bindR (walkpgdir (pgdir (ptable s ! i)) addr False s) (\<lambda>pte s.
          if pte = 0 then Panic ''handle_cow_fault: invalid memory addresss given''
          else if load32 (mem s) pte AND PTE_W \<noteq> 0
          then Panic ''handle_cow_fault: page memory already writable. PGFAULT out of my hooves''
          else
            let pa = PTE_ADDR (load32 (mem s) pte) in
            bindR (acquire L_pte_lookup s) (\<lambda>_ s.
            if pte_array s (page_no pa) = 0
            then bindR (release L_pte_lookup s) (\<lambda>_ s. Panic ''cowfork: process not shared'')
            else bindR
              (if pte_array s (if page_no pa = 1 then 1 else 0) \<noteq> 0 then
                 (let s = s\<lparr>mem := store32 (mem s) pte (load32 (mem s) pte OR PTE_W)\<rparr> in
                  Ret () (set_refs pa (pte_array s (page_no pa) - 1) s))
               else
                 (let s = set_refs pa (pte_array s (page_no pa) - 1) s;
                      pa = PTE_ADDR (load32 (mem s) pte) in
                  bindR (kalloc s) (\<lambda>pg s.
                  if pg = 0 then
                    bindR (release L_pte_lookup s)
                      (\<lambda>_ s. Panic ''cowfork handle fault: bad things happened'')
                  else
                    let s = s\<lparr>mem := memmove (mem s) pg (p2v pa) PGSIZE\<rparr>;
                        s = s\<lparr>mem := store32 (mem s) pte (v2p pg OR PTE_P OR PTE_U OR PTE_W)\<rparr> in
                    Ret () s)))
              (\<lambda>_ s.
               bindR (release L_pte_lookup s) (\<lambda>_ s.
               Ret () (lcr3 (v2p (pgdir (ptable s ! i))) s))))))"

section \<open>Access to user memory\<close>

definition uva2ka :: "u32 \<Rightarrow> u32 \<Rightarrow> 'a kmem_scheme \<Rightarrow> ('a kmem_scheme, u32) res" where
  "uva2ka pd uva s =
     bindR (walkpgdir pd uva False s) (\<lambda>pte s.
     if pte = 0 then Fault ''uva2ka''
     else if load32 (mem s) pte AND PTE_P = 0 then Ret 0 s
     else if load32 (mem s) pte AND PTE_U = 0 then Ret 0 s
     else Ret (p2v (PTE_ADDR (load32 (mem s) pte))) s)"

text \<open>The loop copies at least one byte per round, so the length of the buffer is enough fuel.\<close>

primrec copyout_loop :: "nat \<Rightarrow> u32 \<Rightarrow> u32 \<Rightarrow> u8 list \<Rightarrow> 'a kmem_scheme \<Rightarrow>
    ('a kmem_scheme, int) res" where
  "copyout_loop 0 pd va buf s = NoFuel"
| "copyout_loop (Suc k) pd va buf s =
     (if buf = [] then Ret 0 s
      else
        let va0 = PGROUNDDOWN va in
        bindR (uva2ka pd va0 s) (\<lambda>pa0 s.
        if pa0 = 0 then Ret (-1) s
        else
          let n = min (4096 - unat (va - va0)) (length buf);
              s = s\<lparr>mem := write_bytes (mem s) (pa0 + (va - va0)) (take n buf)\<rparr> in
          copyout_loop k pd (va0 + PGSIZE) (drop n buf) s))"

definition copyout :: "u32 \<Rightarrow> u32 \<Rightarrow> u8 list \<Rightarrow> 'a kmem_scheme \<Rightarrow> ('a kmem_scheme, int) res" where
  "copyout pd va buf s = copyout_loop (Suc (length buf)) pd va buf s"

end
