(* ===== verification/Vm_Map.thy ===== *)
theory Vm_Map
  imports Vm
begin

text \<open>
  What page directories mean (\<^verbatim>\<open>vm.c\<close>): the map from virtual pages to page-table entries that
  a directory in memory represents, the invariant that keeps the pages of the directory apart
  from each other and from the free pages, and the effect of \<open>walkpgdir\<close> and \<open>mappages\<close>
  on that map.
\<close>

section \<open>The map of a page directory\<close>

definition pde_at :: "memory \<Rightarrow> u32 \<Rightarrow> u32 \<Rightarrow> u32" where
  "pde_at m pd va = load32 m (slot pd (PDX va))"

definition has_pt :: "memory \<Rightarrow> u32 \<Rightarrow> u32 \<Rightarrow> bool" where
  "has_pt m pd va \<longleftrightarrow> pde_at m pd va AND PTE_P \<noteq> 0"

definition pgtab_of :: "memory \<Rightarrow> u32 \<Rightarrow> u32 \<Rightarrow> u32" where
  "pgtab_of m pd va = p2v (PTE_ADDR (pde_at m pd va))"

definition pte_addr :: "memory \<Rightarrow> u32 \<Rightarrow> u32 \<Rightarrow> u32" where
  "pte_addr m pd va = slot (pgtab_of m pd va) (PTX va)"

text \<open>The entry for the page of \<open>va\<close>; no page table means an empty entry.\<close>

definition pgmap :: "memory \<Rightarrow> u32 \<Rightarrow> u32 \<Rightarrow> u32" where
  "pgmap m pd va = (if has_pt m pd va then load32 m (pte_addr m pd va) else 0)"

text \<open>The pages that hold the directory itself and its tables.\<close>

definition pt_pages :: "memory \<Rightarrow> u32 \<Rightarrow> u32 set" where
  "pt_pages m pd = insert pd {pgtab_of m pd va | va. has_pt m pd va}"

definition wf_pd :: "'a kmem_scheme \<Rightarrow> u32 \<Rightarrow> u32 list \<Rightarrow> bool" where
  "wf_pd s pd xs \<longleftrightarrow>
     kpage s pd \<and> pd \<notin> set xs
     \<and> (\<forall>va. has_pt (mem s) pd va \<longrightarrow>
          kpage s (pgtab_of (mem s) pd va) \<and> pgtab_of (mem s) pd va \<notin> set xs
          \<and> pgtab_of (mem s) pd va \<noteq> pd)
     \<and> (\<forall>va vb. has_pt (mem s) pd va \<longrightarrow> has_pt (mem s) pd vb \<longrightarrow>
          pgtab_of (mem s) pd va = pgtab_of (mem s) pd vb \<longrightarrow> PDX va = PDX vb)"

lemma pg_aligned_pgtab_of [simp]: "pg_aligned (pgtab_of m pd va)"
  by (simp add: pgtab_of_def)

lemma aligned4_pte_addr [simp]: "aligned4 (pte_addr m pd va)"
  by (simp add: pte_addr_def PTX_bound)

lemma page_pte_addr [simp]: "PGROUNDDOWN (pte_addr m pd va) = pgtab_of m pd va"
  by (simp add: pte_addr_def PTX_bound)

lemma pd_cong:
  assumes "PDX va = PDX vb"
  shows "pde_at m pd va = pde_at m pd vb" "has_pt m pd va = has_pt m pd vb"
    "pgtab_of m pd va = pgtab_of m pd vb"
  using assms by (simp_all add: pde_at_def has_pt_def pgtab_of_def)

lemma pgmap_page: "PGROUNDDOWN va = PGROUNDDOWN vb \<Longrightarrow> pgmap m pd va = pgmap m pd vb"
  unfolding same_page_iff pgmap_def pte_addr_def using pd_cong [of va vb m pd] by simp

lemma pgmap_PGROUNDDOWN [simp]: "pgmap m pd (PGROUNDDOWN va) = pgmap m pd va"
  by (rule pgmap_page) simp

lemma pt_pagesI [intro, simp]:
  "pd \<in> pt_pages m pd" "has_pt m pd va \<Longrightarrow> pgtab_of m pd va \<in> pt_pages m pd"
  by (auto simp: pt_pages_def)

lemma wf_pd_aligned: "wf_pd s pd xs \<Longrightarrow> pg_aligned pd"
  by (auto simp: wf_pd_def dest: kpage_aligned)

lemma wf_pdI:
  assumes "kpage s pd" "pd \<notin> set xs"
    and "\<And>va. has_pt (mem s) pd va \<Longrightarrow> kpage s (pgtab_of (mem s) pd va)
      \<and> pgtab_of (mem s) pd va \<notin> set xs \<and> pgtab_of (mem s) pd va \<noteq> pd"
    and "\<And>va vb. has_pt (mem s) pd va \<Longrightarrow> has_pt (mem s) pd vb \<Longrightarrow>
      pgtab_of (mem s) pd va = pgtab_of (mem s) pd vb \<Longrightarrow> PDX va = PDX vb"
  shows "wf_pd s pd xs"
  unfolding wf_pd_def using assms by blast

lemma wf_pd_eqs:
  assumes "has_pt (mem s') pd = has_pt (mem s) pd" "pgtab_of (mem s') pd = pgtab_of (mem s) pd"
    "kpage s' = kpage s" "wf_pd s pd xs"
  shows "wf_pd s' pd xs"
  using assms(4) unfolding wf_pd_def assms(1-3) .

lemma wf_pd_mono: "wf_pd s pd xs \<Longrightarrow> set ys \<subseteq> set xs \<Longrightarrow> wf_pd s pd ys"
  unfolding wf_pd_def by blast

lemma wf_pd_pd: "wf_pd s pd xs \<Longrightarrow> kpage s pd" "wf_pd s pd xs \<Longrightarrow> pd \<notin> set xs"
  by (simp_all add: wf_pd_def)

lemma wf_pd_tab:
  assumes "wf_pd s pd xs" "has_pt (mem s) pd va"
  shows "kpage s (pgtab_of (mem s) pd va)" "pgtab_of (mem s) pd va \<notin> set xs"
    "pgtab_of (mem s) pd va \<noteq> pd" "pd \<noteq> pgtab_of (mem s) pd va"
  using assms unfolding wf_pd_def by auto

lemma wf_pd_inj:
  "wf_pd s pd xs \<Longrightarrow> has_pt (mem s) pd va \<Longrightarrow> has_pt (mem s) pd vb \<Longrightarrow>
   pgtab_of (mem s) pd va = pgtab_of (mem s) pd vb \<Longrightarrow> PDX va = PDX vb"
  unfolding wf_pd_def by blast

lemma pt_pages_aligned: "wf_pd s pd xs \<Longrightarrow> p \<in> pt_pages (mem s) pd \<Longrightarrow> pg_aligned p"
  by (auto simp: pt_pages_def dest: wf_pd_aligned)

lemma pt_pages_kpage: "wf_pd s pd xs \<Longrightarrow> p \<in> pt_pages (mem s) pd \<Longrightarrow> kpage s p"
  by (auto simp: pt_pages_def wf_pd_def)

lemma pt_pages_free: "wf_pd s pd xs \<Longrightarrow> p \<in> pt_pages (mem s) pd \<Longrightarrow> p \<notin> set xs"
  by (auto simp: pt_pages_def wf_pd_def)

subsection \<open>Memory that does not matter\<close>

lemma pt_frame:
  assumes "pg_aligned pd" "\<And>y. PGROUNDDOWN y \<in> pt_pages m pd \<Longrightarrow> m' y = m y"
  shows "pde_at m' pd = pde_at m pd" "has_pt m' pd = has_pt m pd" "pgtab_of m' pd = pgtab_of m pd"
    "pte_addr m' pd = pte_addr m pd" "pgmap m' pd = pgmap m pd" "pt_pages m' pd = pt_pages m pd"
proof -
  have "load32 m' (slot pd (PDX va)) = load32 m (slot pd (PDX va))" for va
    by (rule load32_page_cong) (simp_all add: assms PDX_bound)
  then show pde: "pde_at m' pd = pde_at m pd"
    by (simp add: pde_at_def fun_eq_iff)
  then show "has_pt m' pd = has_pt m pd" and "pgtab_of m' pd = pgtab_of m pd"
    and "pte_addr m' pd = pte_addr m pd"
    by (simp_all add: has_pt_def pgtab_of_def pte_addr_def fun_eq_iff)
  moreover have "load32 m' (pte_addr m pd va) = load32 m (pte_addr m pd va)" if "has_pt m pd va" for va
    by (rule load32_page_cong) (simp_all add: assms that)
  ultimately show "pgmap m' pd = pgmap m pd" "pt_pages m' pd = pt_pages m pd"
    by (auto simp: pgmap_def pt_pages_def fun_eq_iff)
qed

lemma wf_pd_cong:
  assumes "wf_pd s pd xs" "end_sym s' = end_sym s" "set ys \<subseteq> set xs"
    and "\<And>y. PGROUNDDOWN y \<in> pt_pages (mem s) pd \<Longrightarrow> mem s' y = mem s y"
  shows "wf_pd s' pd ys"
proof -
  have al: "pg_aligned pd" using assms(1) by (rule wf_pd_aligned)
  have "has_pt (mem s') pd = has_pt (mem s) pd"
    by (rule pt_frame(2) [OF al]) (rule assms(4))
  moreover have "pgtab_of (mem s') pd = pgtab_of (mem s) pd"
    by (rule pt_frame(3) [OF al]) (rule assms(4))
  moreover have "kpage s' = kpage s" by (rule kpage_cong [OF assms(2)])
  ultimately show ?thesis using wf_pd_mono [OF assms(1,3)] by (rule wf_pd_eqs)
qed

subsection \<open>Setting one entry\<close>

lemma set_pte:
  fixes v :: u32
  assumes "wf_pd s pd xs" "has_pt (mem s) pd va"
  defines "m' \<equiv> store32 (mem s) (pte_addr (mem s) pd va) v"
  shows "pde_at m' pd = pde_at (mem s) pd" "pgtab_of m' pd = pgtab_of (mem s) pd"
    "has_pt m' pd = has_pt (mem s) pd" "pte_addr m' pd = pte_addr (mem s) pd"
    "pt_pages m' pd = pt_pages (mem s) pd"
    "pgmap m' pd vb = (if PGROUNDDOWN va = PGROUNDDOWN vb then v else pgmap (mem s) pd vb)"
proof -
  let ?m = "mem s"
  have al: "pg_aligned pd" using assms(1) by (rule wf_pd_aligned)
  have ne: "pte_addr ?m pd va \<noteq> slot pd (PDX vb)" for vb
  proof
    assume "pte_addr ?m pd va = slot pd (PDX vb)"
    then have "PGROUNDDOWN (pte_addr ?m pd va) = PGROUNDDOWN (slot pd (PDX vb))" by (rule arg_cong)
    then show False
      using wf_pd_tab(3) [OF assms(1,2)] al by (simp add: PDX_bound)
  qed
  have "load32 m' (slot pd (PDX vb)) = load32 ?m (slot pd (PDX vb))" for vb
    unfolding m'_def using al ne by (intro load32_store32_other) (simp_all add: PDX_bound)
  then show pde: "pde_at m' pd = pde_at ?m pd" by (simp add: pde_at_def fun_eq_iff)
  then show tab: "pgtab_of m' pd = pgtab_of ?m pd" and has: "has_pt m' pd = has_pt ?m pd"
    and pa: "pte_addr m' pd = pte_addr ?m pd"
    by (simp_all add: has_pt_def pgtab_of_def pte_addr_def fun_eq_iff)
  then show "pt_pages m' pd = pt_pages ?m pd" by (simp add: pt_pages_def)
  show "pgmap m' pd vb = (if PGROUNDDOWN va = PGROUNDDOWN vb then v else pgmap ?m pd vb)"
  proof (cases "PGROUNDDOWN va = PGROUNDDOWN vb")
    case True
    then have "pgmap m' pd vb = pgmap m' pd va" by (intro pgmap_page) simp
    then show ?thesis using True assms(2) by (simp add: pgmap_def has pa) (simp add: m'_def)
  next
    case False
    have "pte_addr ?m pd va \<noteq> pte_addr ?m pd vb" if "has_pt ?m pd vb"
    proof
      assume "pte_addr ?m pd va = pte_addr ?m pd vb"
      then have "pgtab_of ?m pd va = pgtab_of ?m pd vb" "PTX va = PTX vb"
        by (simp_all add: pte_addr_def slot_eq_iff PTX_bound)
      moreover from this(1) have "PDX va = PDX vb"
        by (rule wf_pd_inj [OF assms(1,2) that])
      ultimately show False using False by (simp add: same_page_iff)
    qed
    then show ?thesis
      using False by (simp add: pgmap_def has pa) (simp add: m'_def load32_store32_other)
  qed
qed

lemma wf_set_pte:
  assumes "wf_pd s pd xs" "has_pt (mem s) pd va"
  shows "wf_pd (s\<lparr>mem := store32 (mem s) (pte_addr (mem s) pd va) v\<rparr>) pd xs"
proof -
  let ?s = "s\<lparr>mem := store32 (mem s) (pte_addr (mem s) pd va) v\<rparr>"
  have "kpage ?s = kpage s" by (rule kpage_cong) simp
  with assms show ?thesis
    by (intro wf_pd_eqs [OF _ _ _ assms(1)]) (simp_all add: set_pte(2,3))
qed

lemma set_pte_outside:
  "PGROUNDDOWN y \<noteq> pgtab_of m pd va \<Longrightarrow> store32 m (pte_addr m pd va) v y = m y"
  by (rule store32_outside) simp_all

subsection \<open>A new page table\<close>

lemma PTE_P_bit: "x AND PTE_P \<noteq> 0 \<longleftrightarrow> bit x 0" for x :: u32
  using bit_iff_and_push_bit_not_eq_0 [of x 0] by simp

lemma PTE_W_bit: "x AND PTE_W \<noteq> 0 \<longleftrightarrow> bit x 1" for x :: u32
  using bit_iff_and_push_bit_not_eq_0 [of x 1] by simp

lemma PTE_U_bit: "x AND PTE_U \<noteq> 0 \<longleftrightarrow> bit x 2" for x :: u32
  using bit_iff_and_push_bit_not_eq_0 [of x 2] by simp

lemma load32_zero: "aligned4 a \<Longrightarrow> (\<And>y. PGROUNDDOWN y = PGROUNDDOWN a \<Longrightarrow> m y = 0) \<Longrightarrow> load32 m a = 0"
proof -
  assume "aligned4 a" "\<And>y. PGROUNDDOWN y = PGROUNDDOWN a \<Longrightarrow> m y = 0"
  then have "load32 m a = load32 (\<lambda>_. 0) a"
    by (intro load32_page_cong) simp_all
  then show ?thesis by (simp add: load32_def)
qed

lemma memset_page_inside:
  "pg_aligned p \<Longrightarrow> PGROUNDDOWN x = p \<Longrightarrow> memset m p c 4096 x = ucast c"
  by (simp add: memset_apply in_page_iff)

lemma new_pt:
  assumes "wf_pd s pd (x # xs)" "kpage s x" "\<not> has_pt (mem s) pd va"
  defines "m' \<equiv> store32 (memset (mem s) x 0 4096) (slot pd (PDX va))
             (v2p x OR PTE_P OR PTE_W OR PTE_U)"
  shows "pde_at m' pd vb = (if PDX vb = PDX va then v2p x OR 7 else pde_at (mem s) pd vb)"
    and "has_pt m' pd vb \<longleftrightarrow> PDX vb = PDX va \<or> has_pt (mem s) pd vb"
    and "pgtab_of m' pd vb = (if PDX vb = PDX va then x else pgtab_of (mem s) pd vb)"
    and "pgmap m' pd vb = pgmap (mem s) pd vb"
proof -
  let ?m = "memset (mem s) x 0 4096"
  have al: "pg_aligned pd" "pg_aligned x" and ne: "x \<noteq> pd"
    using wf_pd_aligned [OF assms(1)] assms(2) wf_pd_pd(2) [OF assms(1)]
    by (auto dest: kpage_aligned)
  have frame: "m' y = mem s y" if "PGROUNDDOWN y \<noteq> x" "PGROUNDDOWN y \<noteq> pd" for y
    using that al by (simp add: m'_def store32_outside memset_page_outside PDX_bound)
  have "load32 m' (slot pd (PDX vb)) =
      (if PDX vb = PDX va then v2p x OR 7 else load32 (mem s) (slot pd (PDX vb)))" for vb
  proof (cases "PDX vb = PDX va")
    case False
    then have "load32 m' (slot pd (PDX vb)) = load32 ?m (slot pd (PDX vb))"
      unfolding m'_def using al
      by (intro load32_store32_other) (auto simp: PDX_bound slot_eq_iff)
    also have "\<dots> = load32 (mem s) (slot pd (PDX vb))"
      using al ne by (intro load32_page_cong) (auto simp: PDX_bound memset_page_outside)
    finally show ?thesis using False by simp
  qed (simp add: m'_def)
  then show pde: "pde_at m' pd vb = (if PDX vb = PDX va then v2p x OR 7 else pde_at (mem s) pd vb)" for vb
    by (simp add: pde_at_def)
  have P: "bit (v2p x OR 7) 0" by (simp add: bit_simps)
  show has: "has_pt m' pd vb \<longleftrightarrow> PDX vb = PDX va \<or> has_pt (mem s) pd vb" for vb
    using P by (simp add: has_pt_def PTE_P_bit pde)
  have "PTE_ADDR (v2p x OR 7) = v2p x"
    using al by (intro PTE_ADDR_OR) simp_all
  then show tab: "pgtab_of m' pd vb = (if PDX vb = PDX va then x else pgtab_of (mem s) pd vb)" for vb
    by (simp add: pgtab_of_def pde)
  show "pgmap m' pd vb = pgmap (mem s) pd vb"
  proof (cases "PDX vb = PDX va")
    case True
    have zero: "m' y = 0" if "PGROUNDDOWN y = x" for y
      using that al ne by (simp add: m'_def store32_outside memset_page_inside PDX_bound)
    have "load32 m' (pte_addr m' pd vb) = 0"
      by (rule load32_zero) (simp_all add: tab True zero)
    then show ?thesis
      using True assms(3) pd_cong(2) [OF True] by (simp add: pgmap_def)
  next
    case False
    have "load32 m' (pte_addr (mem s) pd vb) = load32 (mem s) (pte_addr (mem s) pd vb)"
      if "has_pt (mem s) pd vb"
      using wf_pd_tab [OF assms(1) that] by (intro load32_page_cong frame) auto
    moreover have "pte_addr m' pd vb = pte_addr (mem s) pd vb"
      using False by (simp add: pte_addr_def tab)
    ultimately show ?thesis
      using False by (simp add: pgmap_def has)
  qed
qed

lemma new_pt_pages:
  assumes "wf_pd s pd (x # xs)" "kpage s x" "\<not> has_pt (mem s) pd va"
  defines "m' \<equiv> store32 (memset (mem s) x 0 4096) (slot pd (PDX va))
             (v2p x OR PTE_P OR PTE_W OR PTE_U)"
  shows "pt_pages m' pd = insert x (pt_pages (mem s) pd)"
proof -
  note np = new_pt [OF assms(1-3), folded m'_def]
  have old: "pgtab_of m' pd vb = pgtab_of (mem s) pd vb" if "has_pt (mem s) pd vb" for vb
    using that assms(3) pd_cong(2) [of vb va "mem s" pd] by (auto simp: np)
  have "p \<in> pt_pages m' pd \<longleftrightarrow> p = x \<or> p \<in> pt_pages (mem s) pd" for p
  proof
    assume "p \<in> pt_pages m' pd"
    then consider "p = pd" | vb where "p = pgtab_of m' pd vb" "has_pt m' pd vb"
      by (auto simp: pt_pages_def)
    then show "p = x \<or> p \<in> pt_pages (mem s) pd"
    proof cases
      case 2
      then show ?thesis by (cases "PDX vb = PDX va") (simp_all add: np)
    qed simp
  next
    assume "p = x \<or> p \<in> pt_pages (mem s) pd"
    then consider "p = x" | "p = pd" | vb where "p = pgtab_of (mem s) pd vb" "has_pt (mem s) pd vb"
      by (auto simp: pt_pages_def)
    then show "p \<in> pt_pages m' pd"
    proof cases
      case 1
      then have "p = pgtab_of m' pd va" "has_pt m' pd va" by (simp_all add: np)
      then show ?thesis by simp
    next
      case 3
      then have "p = pgtab_of m' pd vb" "has_pt m' pd vb" using old by (simp_all add: np(2))
      then show ?thesis by simp
    qed simp
  qed
  then show ?thesis by blast
qed

section \<open>What an operation on a directory may change\<close>

text \<open>
  \<open>vm_frame pd s xs s' ys\<close>: from \<open>s\<close> with free pages \<open>xs\<close> to \<open>s'\<close> with free pages \<open>ys\<close>, only
  memory and the free list changed; pages were only taken, from the front of the free list;
  the directory \<open>pd\<close> is still well formed and grew only by pages that were taken; and memory
  changed only in the directory, its tables and the pages that were free.
\<close>

definition vm_frame :: "u32 \<Rightarrow> 'a kmem_scheme \<Rightarrow> u32 list \<Rightarrow> 'a kmem_scheme \<Rightarrow> u32 list \<Rightarrow> bool" where
  "vm_frame pd s xs s' ys \<longleftrightarrow>
     s' = s\<lparr>mem := mem s', freelist := freelist s'\<rparr>
     \<and> free_pages s' ys \<and> (\<exists>zs. xs = zs @ ys) \<and> wf_pd s' pd ys
     \<and> pt_pages (mem s) pd \<subseteq> pt_pages (mem s') pd
     \<and> pt_pages (mem s') pd \<subseteq> pt_pages (mem s) pd \<union> (set xs - set ys)
     \<and> (\<forall>y. PGROUNDDOWN y \<notin> set xs \<longrightarrow> PGROUNDDOWN y \<notin> pt_pages (mem s) pd \<longrightarrow> mem s' y = mem s y)"

lemma vm_frame_refl: "wf_pd s pd xs \<Longrightarrow> free_pages s xs \<Longrightarrow> vm_frame pd s xs s xs"
  by (simp add: vm_frame_def)

lemma vm_frameD:
  assumes "vm_frame pd s xs s' ys"
  shows "free_pages s' ys" "wf_pd s' pd ys" "set ys \<subseteq> set xs"
    "s' = s\<lparr>mem := mem s', freelist := freelist s'\<rparr>"
    "pt_pages (mem s) pd \<subseteq> pt_pages (mem s') pd"
    "pt_pages (mem s') pd \<subseteq> pt_pages (mem s) pd \<union> (set xs - set ys)"
    "\<exists>zs. xs = zs @ ys"
  using assms by (auto simp: vm_frame_def)

lemma vm_frame_outside:
  "vm_frame pd s xs s' ys \<Longrightarrow> PGROUNDDOWN y \<notin> set xs \<Longrightarrow> PGROUNDDOWN y \<notin> pt_pages (mem s) pd \<Longrightarrow>
   mem s' y = mem s y"
  unfolding vm_frame_def by blast

lemma vm_frame_fields:
  assumes "vm_frame pd s xs s' ys"
  shows "end_sym s' = end_sym s" "use_lock s' = use_lock s" "held s' = held s"
    "kmem_ok s' = kmem_ok s" "kpage s' = kpage s"
proof -
  note eq = vm_frameD(4) [OF assms]
  show "end_sym s' = end_sym s" by (subst eq) simp
  then show "kpage s' = kpage s" by (rule kpage_cong)
  show "use_lock s' = use_lock s" by (subst eq) simp
  moreover show "held s' = held s" by (subst eq) simp
  ultimately show "kmem_ok s' = kmem_ok s" by (simp add: kmem_ok_def)
qed

lemma vm_frame_trans:
  assumes "vm_frame pd s xs t ys" "vm_frame pd t ys u zs"
  shows "vm_frame pd s xs u zs"
proof -
  note f = vm_frameD [OF assms(1)] and g = vm_frameD [OF assms(2)]
  have "u = s\<lparr>mem := mem u, freelist := freelist u\<rparr>"
    by (subst g(4), subst f(4)) simp
  moreover have "mem u y = mem s y" if "PGROUNDDOWN y \<notin> set xs" "PGROUNDDOWN y \<notin> pt_pages (mem s) pd" for y
  proof -
    have "PGROUNDDOWN y \<notin> pt_pages (mem t) pd" "PGROUNDDOWN y \<notin> set ys"
      using that f(3,6) by auto
    then have "mem u y = mem t y" by (intro vm_frame_outside [OF assms(2)])
    then show ?thesis using vm_frame_outside [OF assms(1) that] by simp
  qed
  moreover have "\<exists>ws. xs = ws @ zs" using f(7) g(7) by auto
  moreover have "pt_pages (mem u) pd \<subseteq> pt_pages (mem s) pd \<union> (set xs - set zs)"
    using f(3,6) g(3,6) by blast
  ultimately show ?thesis
    using f g unfolding vm_frame_def by blast
qed

text \<open>Another directory that shares no page with this one is left alone.\<close>

lemma vm_frame_other:
  assumes "vm_frame pd s xs s' ys" "wf_pd s qd xs" "pt_pages (mem s) qd \<inter> pt_pages (mem s) pd = {}"
  shows "wf_pd s' qd ys" "pgmap (mem s') qd = pgmap (mem s) qd"
    "pt_pages (mem s') qd = pt_pages (mem s) qd" "has_pt (mem s') qd = has_pt (mem s) qd"
    "pte_addr (mem s') qd = pte_addr (mem s) qd"
    "pt_pages (mem s') qd \<inter> pt_pages (mem s') pd = {}"
proof -
  have same: "mem s' y = mem s y" if "PGROUNDDOWN y \<in> pt_pages (mem s) qd" for y
    using that assms(3) pt_pages_free [OF assms(2)] by (intro vm_frame_outside [OF assms(1)]) auto
  have al: "pg_aligned qd" by (rule wf_pd_aligned [OF assms(2)])
  show "wf_pd s' qd ys"
    by (rule wf_pd_cong [OF assms(2) vm_frame_fields(1) [OF assms(1)] vm_frameD(3) [OF assms(1)] same])
  show "pgmap (mem s') qd = pgmap (mem s) qd" "has_pt (mem s') qd = has_pt (mem s) qd"
    "pte_addr (mem s') qd = pte_addr (mem s) qd"
    and pt: "pt_pages (mem s') qd = pt_pages (mem s) qd"
    by (rule pt_frame [OF al same]; assumption)+
  show "pt_pages (mem s') qd \<inter> pt_pages (mem s') pd = {}"
    unfolding pt using vm_frameD(6) [OF assms(1)] assms(3) pt_pages_free [OF assms(2)] by auto
qed

lemma free_pages_frame:
  assumes "free_pages s xs" "freelist s' = freelist s" "end_sym s' = end_sym s"
    and "\<And>y. PGROUNDDOWN y \<in> set xs \<Longrightarrow> mem s' y = mem s y"
  shows "free_pages s' xs"
  using assms by (intro free_pages_cong [OF assms(1)]) auto

lemma set_pte_frame:
  assumes "wf_pd s pd xs" "free_pages s xs" "has_pt (mem s) pd va"
  shows "vm_frame pd s xs (s\<lparr>mem := store32 (mem s) (pte_addr (mem s) pd va) v\<rparr>) xs"
proof -
  let ?s = "s\<lparr>mem := store32 (mem s) (pte_addr (mem s) pd va) v\<rparr>"
  have "mem ?s y = mem s y" if "PGROUNDDOWN y \<noteq> pgtab_of (mem s) pd va" for y
    using that by (simp add: set_pte_outside)
  moreover from this have "free_pages ?s xs"
    using wf_pd_tab(2) [OF assms(1,3)] by (intro free_pages_frame [OF assms(2)]) (simp_all, metis)
  moreover have "mem ?s y = mem s y" if "PGROUNDDOWN y \<notin> pt_pages (mem s) pd" for y
    using that assms(3) by (intro calculation(1)) auto
  ultimately show ?thesis
    using wf_set_pte [OF assms(1,3), of v] set_pte(5) [OF assms(1,3), of v]
    by (simp add: vm_frame_def)
qed

text \<open>Taking the first free page for data and writing to it.\<close>

lemma take_page_frame:
  assumes "kmem_ok s" "wf_pd s pd (x # xs)" "free_pages s (x # xs)"
    and "\<And>y. PGROUNDDOWN y \<noteq> x \<Longrightarrow> m' y = mem s y"
  defines "t \<equiv> s\<lparr>freelist := load32 (mem s) x, mem := m'\<rparr>"
  shows "vm_frame pd s (x # xs) t xs" "pgmap (mem t) pd = pgmap (mem s) pd"
    "pt_pages (mem t) pd = pt_pages (mem s) pd" "has_pt (mem t) pd = has_pt (mem s) pd"
proof -
  have x: "x \<notin> set xs" using assms(3) by (simp add: free_pages_def)
  have same: "mem t y = mem s y" if "PGROUNDDOWN y \<noteq> x" for y
    using that assms(4) by (simp add: t_def)
  have pt: "mem t y = mem s y" if "PGROUNDDOWN y \<in> pt_pages (mem s) pd" for y
    using that pt_pages_free [OF assms(2)] by (intro same) auto
  have al: "pg_aligned pd" by (rule wf_pd_aligned [OF assms(2)])
  show pm: "pgmap (mem t) pd = pgmap (mem s) pd" "pt_pages (mem t) pd = pt_pages (mem s) pd"
    "has_pt (mem t) pd = has_pt (mem s) pd"
    by (rule pt_frame [OF al pt]; assumption)+
  have "free_pages (s\<lparr>freelist := load32 (mem s) x\<rparr>) xs"
    by (rule kalloc_some(2) [OF assms(1,3)])
  moreover have "mem t y = mem s y" if "PGROUNDDOWN y \<in> set xs" for y
    using that x by (intro same) auto
  ultimately have "free_pages t xs" by (elim free_pages_frame) (simp_all add: t_def)
  moreover have "wf_pd t pd xs"
    by (rule wf_pd_cong [OF assms(2)]) (use pt in \<open>auto simp: t_def\<close>)
  moreover have "mem t y = mem s y" if "PGROUNDDOWN y \<notin> set (x # xs)" for y
    using that by (intro same) auto
  ultimately show "vm_frame pd s (x # xs) t xs"
    unfolding vm_frame_def pm by (simp add: t_def)
qed

section \<open>Walking the directory\<close>

lemma walkpgdir_found:
  "has_pt (mem s) pd va \<Longrightarrow> walkpgdir pd va al s = Ret (pte_addr (mem s) pd va) s"
  by (simp add: walkpgdir_def has_pt_def pde_at_def pte_addr_def pgtab_of_def Let_def)

lemma walkpgdir_none:
  "\<not> has_pt (mem s) pd va \<Longrightarrow> walkpgdir pd va False s = Ret 0 s"
  by (simp add: walkpgdir_def has_pt_def pde_at_def Let_def)

lemma walkpgdir_full:
  "\<not> has_pt (mem s) pd va \<Longrightarrow> kmem_ok s \<Longrightarrow> free_pages s [] \<Longrightarrow> walkpgdir pd va True s = Ret 0 s"
  by (simp add: walkpgdir_def has_pt_def pde_at_def kalloc_none Let_def)

lemma pte_addr_nonzero:
  assumes "wf_pd s pd xs" "has_pt (mem s) pd va"
  shows "pte_addr (mem s) pd va \<noteq> 0"
proof
  let ?t = "pgtab_of (mem s) pd va"
  assume "pte_addr (mem s) pd va = 0"
  then have "PGROUNDDOWN (pte_addr (mem s) pd va) = PGROUNDDOWN 0" by (rule arg_cong)
  moreover have "PGROUNDDOWN 0 = 0" by (simp add: PGROUNDDOWN_def)
  ultimately show False
    using kpage_nonzero [OF wf_pd_tab(1) [OF assms]] by simp
qed

lemma walkpgdir_new:
  assumes "kmem_ok s" "wf_pd s pd (x # xs)" "free_pages s (x # xs)" "\<not> has_pt (mem s) pd va"
  shows "\<exists>s'. walkpgdir pd va True s = Ret (pte_addr (mem s') pd va) s'
    \<and> vm_frame pd s (x # xs) s' xs \<and> pgmap (mem s') pd = pgmap (mem s) pd \<and> has_pt (mem s') pd va"
proof -
  have kx: "kpage s x" "x \<notin> set xs"
    using assms(3) by (simp_all add: free_pages_def)
  define m' where "m' = store32 (memset (mem s) x 0 4096) (slot pd (PDX va))
    (v2p x OR PTE_P OR PTE_W OR PTE_U)"
  define s' where "s' = s\<lparr>freelist := load32 (mem s) x, mem := m'\<rparr>"
  note np = new_pt [OF assms(2) kx(1) assms(4), folded m'_def]
  have al: "pg_aligned pd" "pg_aligned x"
    using wf_pd_aligned [OF assms(2)] kx by (auto dest: kpage_aligned)
  have frame: "mem s' y = mem s y" if "PGROUNDDOWN y \<noteq> x" "PGROUNDDOWN y \<noteq> pd" for y
    using that al by (simp add: s'_def m'_def store32_outside memset_page_outside PDX_bound)
  have pds: "pd \<noteq> x" "pd \<notin> set xs" "kpage s pd" using wf_pd_pd [OF assms(2)] by auto
  have "free_pages (s\<lparr>freelist := load32 (mem s) x\<rparr>) xs"
    by (rule kalloc_some(2) [OF assms(1,3)])
  moreover have "mem s' y = mem s y" if "PGROUNDDOWN y \<in> set xs" for y
    using that kx pds by (intro frame) auto
  ultimately have fr: "free_pages s' xs"
    by (elim free_pages_frame) (simp_all add: s'_def)
  have kp: "kpage s' = kpage s" by (rule kpage_cong) (simp add: s'_def)
  have m: "mem s' = m'" by (simp add: s'_def)
  have tab: "pgtab_of (mem s) pd vb \<noteq> x" "x \<noteq> pgtab_of (mem s) pd vb"
      "pgtab_of (mem s) pd vb \<notin> set xs" if "has_pt (mem s) pd vb" for vb
    using wf_pd_tab(2) [OF assms(2) that] by auto
  have wf: "wf_pd s' pd xs"
  proof (rule wf_pdI)
    fix vb assume "has_pt (mem s') pd vb"
    then have "has_pt (mem s) pd vb" if "PDX vb \<noteq> PDX va" using that by (simp add: m np)
    with wf_pd_tab(1,3) [OF assms(2), of vb] tab(3) [of vb]
    show "kpage s' (pgtab_of (mem s') pd vb) \<and> pgtab_of (mem s') pd vb \<notin> set xs
        \<and> pgtab_of (mem s') pd vb \<noteq> pd"
      using pds kx by (cases "PDX vb = PDX va") (simp_all add: m kp np)
  next
    fix vb vc
    assume "has_pt (mem s') pd vb" "has_pt (mem s') pd vc" "pgtab_of (mem s') pd vb = pgtab_of (mem s') pd vc"
    then show "PDX vb = PDX vc"
      using tab by (auto simp: m np split: if_splits intro: wf_pd_inj [OF assms(2)])
  qed (use pds kp in simp_all)
  have "walkpgdir pd va True s = Ret (slot x (PTX va)) s'"
    using assms(4) kalloc_some(1) [OF assms(1,3)] kpage_nonzero [OF kx(1)]
    by (simp add: walkpgdir_def has_pt_def pde_at_def s'_def m'_def Let_def)
  moreover have "pte_addr (mem s') pd va = slot x (PTX va)"
    by (simp add: pte_addr_def m np)
  moreover have "pt_pages (mem s') pd = insert x (pt_pages (mem s) pd)"
    unfolding m by (rule new_pt_pages [OF assms(2) kx(1) assms(4), folded m'_def])
  moreover have "pgmap (mem s') pd = pgmap (mem s) pd" by (simp add: m np fun_eq_iff)
  moreover have "s' = s\<lparr>mem := mem s', freelist := freelist s'\<rparr>" by (simp add: s'_def)
  moreover have "has_pt (mem s') pd va" by (simp add: m np)
  moreover have "\<exists>zs. x # xs = zs @ xs" by (rule exI [of _ "[x]"]) simp
  moreover have "mem s' y = mem s y"
    if "PGROUNDDOWN y \<notin> set (x # xs)" "PGROUNDDOWN y \<notin> pt_pages (mem s) pd" for y
    using that by (intro frame) auto
  ultimately show ?thesis
    using fr wf kx(2) unfolding vm_frame_def by (intro exI [of _ s']) auto
qed

lemma walkpgdir_alloc:
  assumes "kmem_ok s" "wf_pd s pd xs" "free_pages s xs"
  obtains r s' ys where "walkpgdir pd va True s = Ret r s'" "vm_frame pd s xs s' ys"
    "pgmap (mem s') pd = pgmap (mem s) pd" "length xs \<le> Suc (length ys)"
    "r = 0 \<and> xs = [] \<or> r = pte_addr (mem s') pd va \<and> r \<noteq> 0 \<and> has_pt (mem s') pd va"
proof (cases "has_pt (mem s) pd va")
  case True
  with that [OF walkpgdir_found [OF True] vm_frame_refl [OF assms(2,3)]] pte_addr_nonzero [OF assms(2)]
  show thesis by simp
next
  case False
  show thesis
  proof (cases xs)
    case Nil
    with that [OF walkpgdir_full [OF False] vm_frame_refl [OF assms(2,3)]] assms show thesis by simp
  next
    case (Cons x ys)
    with walkpgdir_new [of s pd x ys va] assms False obtain s'
      where s': "walkpgdir pd va True s = Ret (pte_addr (mem s') pd va) s'" "vm_frame pd s xs s' ys"
        "pgmap (mem s') pd = pgmap (mem s) pd" "has_pt (mem s') pd va" by auto
    with that [OF s'(1-3)] pte_addr_nonzero [OF vm_frameD(2) [OF s'(2)] s'(4)] Cons
    show thesis by simp
  qed
qed

section \<open>Mapping a range of pages\<close>

text \<open>
  The map after \<open>k\<close> pages from the page \<open>a\<close> on have been mapped to the physical pages from
  \<open>pa\<close> on.
\<close>

definition map_range :: "(u32 \<Rightarrow> u32) \<Rightarrow> u32 \<Rightarrow> nat \<Rightarrow> u32 \<Rightarrow> u32 \<Rightarrow> u32 \<Rightarrow> u32" where
  "map_range g a k pa perm vb =
     (let off = PGROUNDDOWN vb - a in
      if unat off < 4096 * k then (pa + off) OR perm OR PTE_P else g vb)"

lemma map_range_0 [simp]: "map_range g a 0 pa perm = g"
  by (simp add: map_range_def fun_eq_iff)

lemma pg_aligned_minus: "pg_aligned a \<Longrightarrow> pg_aligned b \<Longrightarrow> pg_aligned (a - b)"
proof -
  assume "pg_aligned a" "pg_aligned b"
  then have "4096 dvd unat a" "4096 dvd unat b"
    by (simp_all add: pg_aligned_def mod_eq_0_iff_dvd)
  moreover have "4096 dvd (4294967296 :: nat)" by simp
  ultimately have "4096 dvd unat (a - b)"
    by (auto simp: unat_sub_if_size word_size intro: dvd_diff_nat dvd_add)
  then show ?thesis by (simp add: pg_aligned_def mod_eq_0_iff_dvd)
qed

lemma pg_aligned_plus_page: "pg_aligned a \<Longrightarrow> pg_aligned (a + 4096)"
  using pg_aligned_minus [of a "-4096"] by (simp add: pg_aligned_def)

lemma pg_aligned_ge: "pg_aligned a \<Longrightarrow> a \<noteq> 0 \<Longrightarrow> 4096 \<le> unat a"
proof -
  assume "pg_aligned a" "a \<noteq> 0"
  then have "4096 dvd unat a" "unat a \<noteq> 0"
    by (simp_all add: pg_aligned_def mod_eq_0_iff_dvd word_eq_unat)
  then show ?thesis by (intro dvd_imp_le) simp_all
qed

text \<open>A range is its first page and the range that starts one page later.\<close>

lemma in_range_Suc:
  assumes "pg_aligned a" "unat a + 4096 * k < 4294967296"
  shows "unat (PGROUNDDOWN vb - a) < 4096 * Suc k \<longleftrightarrow>
      PGROUNDDOWN a = PGROUNDDOWN vb \<or> unat (PGROUNDDOWN vb - (a + 4096)) < 4096 * k" (is ?iff)
    and "PGROUNDDOWN a = PGROUNDDOWN vb \<Longrightarrow> \<not> unat (PGROUNDDOWN vb - (a + 4096)) < 4096 * k"
proof -
  define o1 where "o1 = PGROUNDDOWN vb - a"
  have al: "pg_aligned o1"
    unfolding o1_def using assms(1) by (intro pg_aligned_minus) simp_all
  have a: "PGROUNDDOWN a = a" using assms(1) by simp
  have o2: "PGROUNDDOWN vb - (a + 4096) = o1 - 4096" by (simp add: o1_def)
  have k: "4096 * k \<le> 4294963200" using assms(2) by simp
  have zero: "o1 = 0 \<longleftrightarrow> PGROUNDDOWN a = PGROUNDDOWN vb" by (auto simp: o1_def a)
  have wrap: "unat (- 4096 :: u32) = 4294963200" by simp
  show "\<not> unat (PGROUNDDOWN vb - (a + 4096)) < 4096 * k" if "PGROUNDDOWN a = PGROUNDDOWN vb"
    using that zero k wrap unfolding o2 by simp
  show ?iff
  proof (cases "o1 = 0")
    case False
    then have ge: "4096 \<le> unat o1" using al by (rule pg_aligned_ge [rotated])
    then have "unat (o1 - 4096) = unat o1 - 4096"
      by (subst unat_minus_le) (simp_all add: word_le_nat_alt)
    with ge False zero show ?thesis unfolding o2 o1_def [symmetric] by auto
  qed (use zero in \<open>simp add: o1_def\<close>)
qed

lemma map_range_Suc:
  assumes "pg_aligned a" "unat a + 4096 * k < 4294967296"
  shows "map_range (\<lambda>vb. if PGROUNDDOWN a = PGROUNDDOWN vb then pa OR perm OR PTE_P else g vb)
           (a + 4096) k (pa + 4096) perm = map_range g a (Suc k) pa perm"
proof
  fix vb
  have "pa + 4096 + (PGROUNDDOWN vb - (a + 4096)) = pa + (PGROUNDDOWN vb - a)" by simp
  moreover have "PGROUNDDOWN vb = a" if "PGROUNDDOWN a = PGROUNDDOWN vb"
    using that assms(1) by simp
  ultimately show "map_range (\<lambda>vb. if PGROUNDDOWN a = PGROUNDDOWN vb then pa OR perm OR PTE_P else g vb)
           (a + 4096) k (pa + 4096) perm vb = map_range g a (Suc k) pa perm vb"
    using in_range_Suc [OF assms, of vb] unfolding map_range_def Let_def by auto
qed

lemma map_one:
  assumes "kmem_ok s" "wf_pd s pd xs" "free_pages s xs" "\<not> bit (pgmap (mem s) pd a) 0"
  obtains (no_memory) s' ys where "walkpgdir pd a True s = Ret 0 s'" "vm_frame pd s xs s' ys" "ys = []"
      "xs = []" "pgmap (mem s') pd = pgmap (mem s) pd"
  | (entry) pte s' ys where "walkpgdir pd a True s = Ret pte s'" "pte \<noteq> 0"
      "load32 (mem s') pte AND PTE_P = 0"
      "\<And>v. vm_frame pd s xs (s'\<lparr>mem := store32 (mem s') pte v\<rparr>) ys"
      "\<And>v. pgmap (store32 (mem s') pte v) pd =
        (\<lambda>vb. if PGROUNDDOWN a = PGROUNDDOWN vb then v else pgmap (mem s) pd vb)"
      "length xs \<le> Suc (length ys)"
proof -
  obtain r s' ys where w: "walkpgdir pd a True s = Ret r s'" "vm_frame pd s xs s' ys"
    "pgmap (mem s') pd = pgmap (mem s) pd" "length xs \<le> Suc (length ys)"
    "r = 0 \<and> xs = [] \<or> r = pte_addr (mem s') pd a \<and> r \<noteq> 0 \<and> has_pt (mem s') pd a"
    by (rule walkpgdir_alloc [OF assms(1-3), of a])
  from w(5) show thesis
  proof
    assume "r = 0 \<and> xs = []"
    then show thesis using no_memory w vm_frameD(7) [OF w(2)] by auto
  next
    assume r: "r = pte_addr (mem s') pd a \<and> r \<noteq> 0 \<and> has_pt (mem s') pd a"
    then have has: "has_pt (mem s') pd a" and eq: "r = pte_addr (mem s') pd a" by simp_all
    have "load32 (mem s') r = pgmap (mem s) pd a"
      using w(3) has eq by (metis pgmap_def)
    then have "load32 (mem s') r AND PTE_P = 0"
      using assms(4) PTE_P_bit by metis
    moreover have "vm_frame pd s xs (s'\<lparr>mem := store32 (mem s') r v\<rparr>) ys" for v
      using set_pte_frame [OF vm_frameD(2,1) [OF w(2)] has, of v] eq
      by (auto intro: vm_frame_trans [OF w(2)])
    moreover have "pgmap (store32 (mem s') r v) pd =
        (\<lambda>vb. if PGROUNDDOWN a = PGROUNDDOWN vb then v else pgmap (mem s) pd vb)" for v
      using set_pte(6) [OF vm_frameD(2) [OF w(2)] has] eq w(3) by (simp add: fun_eq_iff)
    ultimately show thesis using entry w(1,4) r by blast
  qed
qed

lemma mappages_loop_maps:
  assumes "kmem_ok s" "wf_pd s pd xs" "free_pages s xs"
    and "pg_aligned a" "lst = a + 4096 * of_nat k" "unat a + 4096 * k < 4294967296" "k < n"
    and "\<And>vb. unat (PGROUNDDOWN vb - a) < 4096 * Suc k \<Longrightarrow> \<not> bit (pgmap (mem s) pd vb) 0"
  shows "\<exists>r s' ys j. mappages_loop n pd a lst pa perm s = Ret r s' \<and> vm_frame pd s xs s' ys
    \<and> pgmap (mem s') pd = map_range (pgmap (mem s) pd) a j pa perm
    \<and> length xs \<le> length ys + j
    \<and> (r = 0 \<and> j = Suc k \<or> r = -1 \<and> j \<le> k \<and> ys = [])"
  using assms
proof (induction k arbitrary: n a pa s xs)
  case (0 n a pa s xs)
  obtain n' where n: "n = Suc n'" using 0 by (cases n) auto
  have "\<not> bit (pgmap (mem s) pd a) 0" using 0 by (auto simp: pg_aligned_iff)
  from 0(1-3) this show ?case
  proof (cases rule: map_one)
    case no_memory
    then show ?thesis using n by (intro exI [of _ "-1"] exI exI [of _ 0]) auto
  next
    case (entry pte s' ys)
    let ?v = "pa OR perm OR PTE_P"
    show ?thesis
      using entry n 0(5) map_range_Suc [OF 0(4), of 0 pa perm "pgmap (mem s) pd"] 0(6)
      by (intro exI [of _ 0] exI [of _ "s'\<lparr>mem := store32 (mem s') pte ?v\<rparr>"] exI [of _ ys]
          exI [of _ 1]) auto
  qed
next
  case (Suc k n a pa s xs)
  obtain n' where n: "n = Suc n'" using Suc.prems(7) by (cases n) auto
  have free: "\<not> bit (pgmap (mem s) pd a) 0" using Suc.prems by (auto simp: pg_aligned_iff)
  from Suc.prems(1-3) this show ?case
  proof (cases rule: map_one)
    case no_memory
    then show ?thesis using n by (intro exI [of _ "-1"] exI exI [of _ 0]) auto
  next
    case (entry pte s' ys)
    define t where "t = s'\<lparr>mem := store32 (mem s') pte (pa OR perm OR PTE_P)\<rparr>"
    have f: "vm_frame pd s xs t ys" unfolding t_def by (rule entry(4))
    have g: "pgmap (mem t) pd =
        (\<lambda>vb. if PGROUNDDOWN a = PGROUNDDOWN vb then pa OR perm OR PTE_P else pgmap (mem s) pd vb)"
      unfolding t_def by (simp add: entry(5))
    have up: "unat (a + 4096) = unat a + 4096"
      using unat_plus_no_wrap [of a 4096] Suc.prems(6) by simp
    have "\<not> bit (pgmap (mem t) pd vb) 0" if "unat (PGROUNDDOWN vb - (a + 4096)) < 4096 * Suc k" for vb
      using in_range_Suc [OF Suc.prems(4,6), of vb] that Suc.prems(8) by (auto simp: g)
    then obtain r s'' zs j where r: "mappages_loop n' pd (a + 4096) lst (pa + 4096) perm t = Ret r s''"
        "vm_frame pd t ys s'' zs"
        "pgmap (mem s'') pd = map_range (pgmap (mem t) pd) (a + 4096) j (pa + 4096) perm"
        "length ys \<le> length zs + j" "r = 0 \<and> j = Suc k \<or> r = -1 \<and> j \<le> k \<and> zs = []"
      using Suc.IH [of t ys "a + 4096" n' "pa + 4096"] f Suc.prems up n
        vm_frameD [OF f] vm_frame_fields(4) [OF f] pg_aligned_plus_page [OF Suc.prems(4)]
      by (auto simp: algebra_simps)
    have "unat lst = unat a + 4096 * Suc k"
      using unat_plus_of_nat [of a "4096 * Suc k"] Suc.prems(5,6) by simp
    then have "a \<noteq> lst" by auto
    then have "mappages_loop n pd a lst pa perm s = Ret r s''"
      using n entry(1-3) r(1) by (simp add: t_def)
    moreover have "pgmap (mem s'') pd = map_range (pgmap (mem s) pd) a (Suc j) pa perm"
      unfolding r(3) g using r(5) Suc.prems(4,6) by (intro map_range_Suc) auto
    ultimately show ?thesis
      using vm_frame_trans [OF f r(2)] r(4,5) entry(6)
      by (intro exI [of _ r] exI [of _ s''] exI [of _ zs] exI [of _ "Suc j"]) auto
  qed
qed

text \<open>\<open>mappages\<close> on a range that does not wrap around and is not mapped yet.\<close>

definition npages :: "u32 \<Rightarrow> u32 \<Rightarrow> nat" where
  "npages va n = Suc (unat (PGROUNDDOWN (va + n - 1) - PGROUNDDOWN va) div 4096)"

lemma npages_range:
  assumes "0 < n" "unat va + unat n \<le> 4294967296"
  shows "\<exists>k. npages va n = Suc k \<and> PGROUNDDOWN (va + n - 1) = PGROUNDDOWN va + 4096 * of_nat k
    \<and> unat (PGROUNDDOWN va) + 4096 * k < 4294967296
    \<and> unat (PGROUNDDOWN va) + 4096 * k < unat va + unat n
    \<and> unat va + unat n \<le> unat (PGROUNDDOWN va) + 4096 * Suc k"
proof -
  define a where "a = PGROUNDDOWN va"
  define l where "l = PGROUNDDOWN (va + n - 1)"
  define k where "k = unat (l - a) div 4096"
  have pos: "1 \<le> unat n" using assms(1) by (simp add: word_less_nat_alt)
  have "unat (va + (n - 1)) = unat va + (unat n - 1)"
    using unat_plus_no_wrap [of va "n - 1"] assms(2) pos unat_minus_le [of 1 n]
    by (simp add: word_le_nat_alt)
  then have e: "unat (va + n - 1) = unat va + (unat n - 1)" by (simp add: add_diff_eq)
  have "unat a \<le> unat l"
    unfolding a_def l_def unat_PGROUNDDOWN e minus_mod_eq_mult_div by (simp add: div_le_mono)
  moreover from this have "unat (l - a) = unat l - unat a"
    by (intro unat_minus_le) (simp add: word_le_nat_alt)
  moreover have "pg_aligned (l - a)"
    unfolding a_def l_def by (intro pg_aligned_minus) simp_all
  ultimately have lst: "unat l = unat a + 4096 * k"
    by (simp add: k_def pg_aligned_def mod_eq_0_iff_dvd)
  then have lt: "unat a + 4096 * k < 4294967296"
    using unat_lt_32 [of l] by simp
  then have "l = a + 4096 * of_nat k"
    using unat_plus_of_nat [of a "4096 * k"] lst by (simp add: word_eq_unat)
  moreover have "unat l \<le> unat (va + n - 1)" "unat (va + n - 1) < unat l + 4096"
    unfolding l_def unat_PGROUNDDOWN by (simp_all add: mod_less_divisor less_diff_conv2)
  ultimately show ?thesis
    using lt lst e pos unfolding a_def [symmetric] l_def [symmetric] npages_def
    by (intro exI [of _ k]) (auto simp: k_def)
qed

lemma mappages_maps:
  assumes "kmem_ok s" "wf_pd s pd xs" "free_pages s xs"
    and "0 < n" "unat va + unat n \<le> 4294967296"
    and "\<And>vb. unat (PGROUNDDOWN vb - PGROUNDDOWN va) < 4096 * npages va n \<Longrightarrow>
          \<not> bit (pgmap (mem s) pd vb) 0"
  shows "\<exists>r s' ys j. mappages pd va n pa perm s = Ret r s' \<and> vm_frame pd s xs s' ys
    \<and> pgmap (mem s') pd = map_range (pgmap (mem s) pd) (PGROUNDDOWN va) j pa perm
    \<and> length xs \<le> length ys + j
    \<and> (r = 0 \<and> j = npages va n \<or> r = -1 \<and> j < npages va n \<and> ys = [])"
proof -
  obtain k where k: "npages va n = Suc k" "PGROUNDDOWN (va + n - 1) = PGROUNDDOWN va + 4096 * of_nat k"
      "unat (PGROUNDDOWN va) + 4096 * k < 4294967296"
    using npages_range [OF assms(4,5)] by blast
  have "\<exists>r s' ys j. mappages_loop 1048576 pd (PGROUNDDOWN va) (PGROUNDDOWN (va + n - 1)) pa perm s = Ret r s'
    \<and> vm_frame pd s xs s' ys
    \<and> pgmap (mem s') pd = map_range (pgmap (mem s) pd) (PGROUNDDOWN va) j pa perm
    \<and> length xs \<le> length ys + j \<and> (r = 0 \<and> j = Suc k \<or> r = -1 \<and> j \<le> k \<and> ys = [])"
    using assms(1-3,6) k by (intro mappages_loop_maps) simp_all
  then show ?thesis
    unfolding mappages_def k(1) by (simp add: less_Suc_eq_le)
qed

lemma npages_page: "pg_aligned a \<Longrightarrow> npages a 4096 = 1"
proof -
  assume al: "pg_aligned a"
  then have "PGROUNDDOWN (a + 4095) = a" by (intro PGROUNDDOWN_offset) simp_all
  moreover have "a + 4096 - 1 = a + 4095" by simp
  ultimately have "PGROUNDDOWN (a + 4096 - 1) = PGROUNDDOWN a" using al by (simp only: pg_aligned_iff)
  then show ?thesis by (simp only: npages_def) simp
qed

text \<open>One page, as \<open>allocuvm\<close> and \<open>copyuvm\<close> map it.\<close>

lemma mappages_page:
  assumes "kmem_ok s" "wf_pd s pd xs" "free_pages s xs" "pg_aligned a" "\<not> bit (pgmap (mem s) pd a) 0"
  obtains r s' ys where "mappages pd a 4096 pa perm s = Ret r s'" "vm_frame pd s xs s' ys"
    "length xs \<le> Suc (length ys)"
    "r = 0 \<and> (\<forall>vb. pgmap (mem s') pd vb =
        (if PGROUNDDOWN vb = a then pa OR perm OR PTE_P else pgmap (mem s) pd vb))
     \<or> r = -1 \<and> xs = [] \<and> ys = [] \<and> pgmap (mem s') pd = pgmap (mem s) pd"
proof -
  have a: "PGROUNDDOWN a = a" using assms(4) by (simp add: pg_aligned_iff)
  have bound: "unat a + unat (4096 :: u32) \<le> 4294967296"
    using pg_aligned_bound [OF assms(4)] by simp
  have inr: "unat (PGROUNDDOWN vb - a) < 4096 \<longleftrightarrow> PGROUNDDOWN vb = a" for vb
    using in_page_iff [OF assms(4), of "PGROUNDDOWN vb"] by (simp add: word_less_nat_alt)
  have "\<not> bit (pgmap (mem s) pd vb) 0" if "unat (PGROUNDDOWN vb - PGROUNDDOWN a) < 4096 * npages a 4096" for vb
    using that assms(5) inr [of vb] pgmap_PGROUNDDOWN [of "mem s" pd vb]
    by (auto simp: a npages_page [OF assms(4)])
  then obtain r s' ys j where m: "mappages pd a 4096 pa perm s = Ret r s'" "vm_frame pd s xs s' ys"
    "pgmap (mem s') pd = map_range (pgmap (mem s) pd) a j pa perm" "length xs \<le> length ys + j"
    "r = 0 \<and> j = 1 \<or> r = -1 \<and> j < 1 \<and> ys = []"
    using mappages_maps [OF assms(1-3) _ bound, of pa perm] a npages_page [OF assms(4)] by auto
  show thesis
    by (rule that [OF m(1,2)]) (use m(3-5) in \<open>auto simp: map_range_def inr\<close>)
qed

section \<open>Mapping a list of pages\<close>

text \<open>
  The map after the pages \<open>ps\<close> have been mapped from the page \<open>a\<close> on, with the flags \<open>h\<close>.
\<close>

definition map_pages :: "(u32 \<Rightarrow> u32) \<Rightarrow> (u32 \<Rightarrow> u32) \<Rightarrow> u32 \<Rightarrow> u32 list \<Rightarrow> u32 \<Rightarrow> u32" where
  "map_pages h g a ps vb =
     (let off = unat (PGROUNDDOWN vb - a) in
      if off < 4096 * length ps then v2p (ps ! (off div 4096)) OR h vb else g vb)"

lemma map_pages_Nil [simp]: "map_pages h g a [] = g"
  by (simp add: map_pages_def fun_eq_iff)

lemma map_pages_Cons:
  assumes "pg_aligned a" "unat a + 4096 * length ps < 4294967296"
  shows "map_pages h (\<lambda>vb. if PGROUNDDOWN vb = a then v2p p OR h vb else g vb) (a + 4096) ps
    = map_pages h g a (p # ps)"
proof
  fix vb
  define o1 where "o1 = PGROUNDDOWN vb - a"
  have a: "PGROUNDDOWN a = a" using assms(1) by simp
  note r = in_range_Suc [OF assms, of vb, unfolded a]
  show "map_pages h (\<lambda>vb. if PGROUNDDOWN vb = a then v2p p OR h vb else g vb) (a + 4096) ps vb
    = map_pages h g a (p # ps) vb"
  proof (cases "PGROUNDDOWN vb = a")
    case True
    then show ?thesis using r by (auto simp: map_pages_def)
  next
    case False
    have "pg_aligned o1" unfolding o1_def using assms(1) by (intro pg_aligned_minus) simp_all
    then have ge: "4096 \<le> unat o1" using False by (intro pg_aligned_ge) (auto simp: o1_def)
    have o2: "PGROUNDDOWN vb - (a + 4096) = o1 - 4096" by (simp add: o1_def)
    have "unat (o1 - 4096) = unat o1 - 4096"
      using ge by (subst unat_minus_le) (simp_all add: word_le_nat_alt)
    moreover have "unat o1 div 4096 = Suc ((unat o1 - 4096) div 4096)"
      using ge by (simp add: le_div_geq)
    ultimately show ?thesis
      using r False ge unfolding map_pages_def o2 o1_def [symmetric] Let_def by auto
  qed
qed

section \<open>A small machine\<close>

text \<open>
  A process with an empty page directory at \<open>0x80100000\<close> and four free pages after it, for
  the instances of the properties.
\<close>

definition demo_pages :: "u32 list" where
  "demo_pages = [0x80101000, 0x80102000, 0x80103000, 0x80104000]"

definition demo_mem :: memory where
  "demo_mem = store32 (store32 (store32 (\<lambda>_. 0) 0x80101000 0x80102000) 0x80102000 0x80103000)
     0x80103000 0x80104000"

definition demo_proc :: proc where
  "demo_proc = \<lparr>sz = 0, pgdir = 0x80100000, kstack = 0, state = RUNNING, pid = 1, parent = None,
     tf = \<lparr>tf_edi = 0, tf_esi = 0, tf_ebp = 0, tf_oesp = 0, tf_ebx = 0, tf_edx = 0, tf_ecx = 0,
       tf_eax = 0, tf_gs = 0, tf_fs = 0, tf_es = 0, tf_ds = 0, tf_trapno = 0, tf_err = 0, tf_eip = 0,
       tf_cs = 0, tf_eflags = 0, tf_esp = 0, tf_ss = 0\<rparr>,
     ctx = zero_context, wchan = None, killed = False, ofile = replicate 16 (W 0), cwd = None,
     name = [], handlers = [W 0, W 0], restorer_addr = 0, shared = False\<rparr>"

definition demo :: vmst where
  "demo = \<lparr>held = [], mem = demo_mem, use_lock = True, freelist = 0x80101000, end_sym = 0x80100000,
     ptable = [demo_proc], cur = Some 0, initproc = Some 0, nextpid = 2, trapret_sym = 0,
     forkret_sym = 0, pte_array = (\<lambda>_. 0), kpgdir = 0, cr3 = 0,
     gdt = (\<lambda>_. SEG 0 0 0 0), ts_ss0 = 0, ts_esp0 = 0, data_sym = 0x80108000, ts_sym = 0, cpu_sym = 0\<rparr>"

lemma demo_pages_aligned: "x \<in> set demo_pages \<Longrightarrow> pg_aligned x"
  by (auto simp: demo_pages_def pg_aligned_def)

lemma demo_mem_outside: "PGROUNDDOWN y \<notin> set demo_pages \<Longrightarrow> demo_mem y = 0"
proof -
  assume y: "PGROUNDDOWN y \<notin> set demo_pages"
  have "store32 m p v y = m y" if "p \<in> set demo_pages" for m p v
    using y that demo_pages_aligned [OF that]
    by (intro store32_outside) (auto simp: pg_aligned_aligned4 pg_aligned_iff)
  then show ?thesis by (simp add: demo_mem_def demo_pages_def)
qed

lemma demo_free: "free_pages demo demo_pages"
proof -
  have "load32 demo_mem 0x80104000 = 0"
    by (simp add: demo_mem_def load32_store32_other aligned4_def) (simp add: load32_def)
  then show ?thesis
    by (simp add: free_pages_def demo_def demo_pages_def demo_mem_def load32_store32_other aligned4_def
        kpage_def pg_aligned_def v2p_def)
qed

lemma demo_no_pt: "\<not> has_pt demo_mem 0x80100000 va"
proof -
  have al: "pg_aligned 0x80100000" by (simp add: pg_aligned_def)
  have "load32 demo_mem (slot 0x80100000 (PDX va)) = 0"
    by (rule load32_zero) (auto simp: al PDX_bound demo_pages_def intro: demo_mem_outside)
  then show ?thesis by (simp add: has_pt_def pde_at_def)
qed

lemma demo_wf: "wf_pd demo 0x80100000 demo_pages"
  by (rule wf_pdI) (simp_all add: demo_def demo_no_pt demo_pages_def kpage_def pg_aligned_def v2p_def)

lemma demo_ok: "kmem_ok demo"
  by (simp add: demo_def kmem_ok_def)

lemma demo_pgmap: "pgmap (mem demo) 0x80100000 va = 0"
  by (simp add: demo_def pgmap_def demo_no_pt)

text \<open>The same machine with one user page mapped.\<close>

lemma demo_mapped:
  obtains s xs where "vm_frame 0x80100000 demo demo_pages s xs" "3 \<le> length xs"
    "\<And>vb. pgmap (mem s) 0x80100000 vb = (if PGROUNDDOWN vb = 0x1000 then 0x200007 else 0)"
proof -
  have al: "pg_aligned 0x1000" by (simp add: pg_aligned_def)
  obtain r s ys where m: "mappages 0x80100000 0x1000 4096 0x200000 (PTE_W OR PTE_U) demo = Ret r s"
    "vm_frame 0x80100000 demo demo_pages s ys" "length demo_pages \<le> Suc (length ys)"
    "r = 0 \<and> (\<forall>vb. pgmap (mem s) 0x80100000 vb = (if PGROUNDDOWN vb = 0x1000
        then 0x200000 OR (PTE_W OR PTE_U) OR PTE_P else pgmap (mem demo) 0x80100000 vb))
     \<or> r = -1 \<and> demo_pages = [] \<and> ys = [] \<and> pgmap (mem s) 0x80100000 = pgmap (mem demo) 0x80100000"
    by (rule mappages_page [OF demo_ok demo_wf demo_free al, where pa = "0x200000" and perm = "PTE_W OR PTE_U"])
      (simp_all add: demo_pgmap)
  with that [OF m(2)] show thesis by (auto simp: demo_pgmap demo_pages_def)
qed

lemma present_has_pt: "bit (pgmap m pd va) 0 \<Longrightarrow> has_pt m pd va"
  by (auto simp: pgmap_def split: if_splits)

section \<open>Properties\<close>

text \<open>
  C4: \<open>mappages\<close> on an unmapped range returns. When it returns 0, every page of the range is
  mapped to the corresponding physical page with the given permissions and every other page
  keeps its mapping; it returns -1 only when the free list is exhausted. Memory changes only
  in the directory, its tables and pages taken from the free list.
\<close>

theorem mappages_correct:
  assumes "kmem_ok s" "wf_pd s pd xs" "free_pages s xs"
    and "0 < n" "unat va + unat n \<le> 4294967296"
    and "\<And>vb. unat (PGROUNDDOWN vb - PGROUNDDOWN va) < 4096 * npages va n \<Longrightarrow>
          \<not> bit (pgmap (mem s) pd vb) 0"
  shows "runs (mappages pd va n pa perm s) (\<lambda>r s'. \<exists>ys. vm_frame pd s xs s' ys
     \<and> (r = 0 \<and> pgmap (mem s') pd
          = map_range (pgmap (mem s) pd) (PGROUNDDOWN va) (npages va n) pa perm
        \<or> r = -1 \<and> ys = []))"
  using mappages_maps [OF assms(1-5), of pa perm] assms(6) unfolding runs_iff by blast

theorem mappages_correct_witness:
  "runs (mappages 0x80100000 0x3FF800 0x1000 0x200000 PTE_W demo) (\<lambda>r s'. \<exists>ys.
     vm_frame 0x80100000 demo demo_pages s' ys
     \<and> (r = 0 \<and> pgmap (mem s') 0x80100000
          = map_range (pgmap (mem demo) 0x80100000) (PGROUNDDOWN 0x3FF800) (npages 0x3FF800 0x1000)
              0x200000 PTE_W
        \<or> r = -1 \<and> ys = []))"
  by (rule mappages_correct [OF demo_ok demo_wf demo_free]) (simp_all add: demo_pgmap)

end
