(* ===== verification/Vm_Protect.thy ===== *)
theory Vm_Protect
  imports Vm_Map
begin

text \<open>
  Changing the protection of pages (\<^verbatim>\<open>vm.c\<close>): what \<open>mprotect\<close> and \<open>clearpteu\<close> do to the
  entries, and what the permission bits of the result allow.
\<close>

section \<open>One entry\<close>

lemma bit_6: "bit (6 :: u32) n \<longleftrightarrow> n = 1 \<or> n = 2"
  by (auto simp: bit_numeral_rec bit_1_iff split: nat.splits)

lemma bit_mprotect_mask: "bit (pte AND 0xfffffff9) n \<longleftrightarrow> bit pte n \<and> n \<noteq> 1 \<and> n \<noteq> 2" for pte :: u32
proof -
  have "(0xfffffff9 :: u32) = NOT 6" by simp
  moreover have "bit (pte AND NOT 6) n \<longleftrightarrow> bit pte n \<and> n \<noteq> 1 \<and> n \<noteq> 2"
    by (cases "n < 32") (simp_all only: bit_and_iff bit_not_iff bit_6, auto dest: bit_imp_le_length)
  ultimately show ?thesis by (simp only:)
qed

lemma bit_flags:
  "bit (1 :: int) n \<longleftrightarrow> n = 0" "bit (2 :: int) n \<longleftrightarrow> n = 1" "bit (4 :: int) n \<longleftrightarrow> n = 2"
  "bit (3 :: int) n \<longleftrightarrow> n = 0 \<or> n = 1" "bit (5 :: int) n \<longleftrightarrow> n = 0 \<or> n = 2"
  "bit (7 :: int) n \<longleftrightarrow> n = 0 \<or> n = 1 \<or> n = 2"
  by (auto simp: bit_numeral_rec bit_1_iff split: nat.splits)

text \<open>The value of each bit of an entry after \<open>mprotect\<close>.\<close>

lemma mprotect_pte_bit:
  assumes "prot \<le> 3"
  shows "bit (mprotect_pte prot pte) n \<longleftrightarrow>
    n = 0 \<or> n = 1 \<and> (prot = PROT_WRITE \<or> prot = 3) \<or> n = 2 \<and> (prot = PROT_READ \<or> prot = 3)
    \<or> 2 < n \<and> bit pte n"
proof -
  have "unat prot \<le> 3" using assms by (simp add: word_le_nat_alt)
  then consider "unat prot = 0" | "unat prot = 1" | "unat prot = 2" | "unat prot = 3" by linarith
  then consider "prot = 0" | "prot = 1" | "prot = 2" | "prot = 3"
    by cases (simp_all add: word_eq_unat)
  then show ?thesis
    by cases (simp_all only: mprotect_pte_def Let_def if_True if_False refl, simp_all,
        auto simp: bit_or_iff bit_mprotect_mask bit_flags bit_1_iff)
qed

lemma mprotect_pte_addr: "PTE_ADDR (mprotect_pte prot pte) = PTE_ADDR pte"
proof (rule bit_word_eqI)
  fix n assume "n < LENGTH(32)"
  have "bit (mprotect_pte prot pte) n \<longleftrightarrow> bit pte n" if "12 \<le> n"
    using that by (auto simp: mprotect_pte_def Let_def bit_or_iff bit_mprotect_mask bit_flags bit_1_iff)
  then show "bit (PTE_ADDR (mprotect_pte prot pte)) n = bit (PTE_ADDR pte) n"
    by (auto simp: PTE_ADDR_bit)
qed

section \<open>A range of pages\<close>

text \<open>The map after \<open>f\<close> has been applied to the entries of \<open>k\<close> pages from \<open>a\<close> on.\<close>

definition upd_range :: "(u32 \<Rightarrow> u32) \<Rightarrow> u32 \<Rightarrow> nat \<Rightarrow> (u32 \<Rightarrow> u32) \<Rightarrow> u32 \<Rightarrow> u32" where
  "upd_range f a k g vb = (if unat (PGROUNDDOWN vb - a) < 4096 * k then f (g vb) else g vb)"

lemma upd_range_0 [simp]: "upd_range f a 0 g = g"
  by (simp add: upd_range_def fun_eq_iff)

lemma pgmap_page_sym: "PGROUNDDOWN a = PGROUNDDOWN vb \<Longrightarrow> pgmap m pd vb = pgmap m pd a"
  by (rule pgmap_page) simp

lemma upd_range_Suc:
  assumes "pg_aligned a" "unat a + 4096 * k < 4294967296"
    and "\<And>vb. PGROUNDDOWN a = PGROUNDDOWN vb \<Longrightarrow> g vb = g a"
  shows "upd_range f (a + 4096) k
      (\<lambda>vb. if PGROUNDDOWN a = PGROUNDDOWN vb then f (g a) else g vb) = upd_range f a (Suc k) g"
proof
  fix vb
  show "upd_range f (a + 4096) k
      (\<lambda>vb. if PGROUNDDOWN a = PGROUNDDOWN vb then f (g a) else g vb) vb = upd_range f a (Suc k) g vb"
    using in_range_Suc [OF assms(1,2), of vb] assms(3) [of vb] unfolding upd_range_def by auto
qed

text \<open>One round of the loop.\<close>

lemma protect_round:
  fixes prot :: u32
  assumes "wf_pd s pd xs" "free_pages s xs" "has_pt (mem s) pd a"
  defines "t \<equiv> s\<lparr>mem := store32 (mem s) (pte_addr (mem s) pd a)
    (mprotect_pte prot (pgmap (mem s) pd a))\<rparr>"
  shows "mprotect_loop (Suc n) pd a fin prot s =
      (if a + 4096 < fin then mprotect_loop n pd (a + 4096) fin prot t else Ret () t)"
    and "vm_frame pd s xs t xs"
    and "pgmap (mem t) pd = (\<lambda>vb. if PGROUNDDOWN a = PGROUNDDOWN vb
          then mprotect_pte prot (pgmap (mem s) pd a) else pgmap (mem s) pd vb)"
    and "pt_pages (mem t) pd = pt_pages (mem s) pd" "has_pt (mem t) pd = has_pt (mem s) pd"
    and "PGROUNDDOWN y \<notin> pt_pages (mem s) pd \<Longrightarrow> mem t y = mem s y"
proof -
  show "mem t y = mem s y" if "PGROUNDDOWN y \<notin> pt_pages (mem s) pd"
    using that assms(3) unfolding t_def by (auto intro!: set_pte_outside)
  show "vm_frame pd s xs t xs"
    unfolding t_def by (rule set_pte_frame [OF assms(1-3)])
  show "mprotect_loop (Suc n) pd a fin prot s =
      (if a + 4096 < fin then mprotect_loop n pd (a + 4096) fin prot t else Ret () t)"
    using pte_addr_nonzero [OF assms(1,3)] assms(3)
    by (simp add: walkpgdir_found t_def pgmap_def Let_def)
qed (simp_all add: t_def set_pte [OF assms(1,3)] fun_eq_iff)

lemma mprotect_loop_updates:
  assumes "wf_pd s pd xs" "free_pages s xs" "pg_aligned a"
    and "k = 0 \<or> unat a + 4096 * k < unat fin" "unat fin \<le> unat a + 4096 * Suc k"
    and "unat a + 4096 * Suc k < 4294967296" "k < n"
    and "\<And>vb. unat (PGROUNDDOWN vb - a) < 4096 * Suc k \<Longrightarrow> has_pt (mem s) pd vb"
  shows "\<exists>s'. mprotect_loop n pd a fin prot s = Ret () s' \<and> vm_frame pd s xs s' xs
    \<and> pgmap (mem s') pd = upd_range (mprotect_pte prot) a (Suc k) (pgmap (mem s) pd)
    \<and> pt_pages (mem s') pd = pt_pages (mem s) pd
    \<and> (\<forall>y. PGROUNDDOWN y \<notin> pt_pages (mem s) pd \<longrightarrow> mem s' y = mem s y)"
  using assms
proof (induction k arbitrary: n a s)
  case (0 n a s)
  obtain n' where n: "n = Suc n'" using 0 by (cases n) auto
  have has: "has_pt (mem s) pd a" using 0 by (simp add: pg_aligned_iff)
  have "unat (a + 4096) = unat a + 4096"
    using unat_plus_no_wrap [of a 4096] 0(6) by simp
  then have "\<not> a + 4096 < fin" using 0(5) by (simp add: word_less_nat_alt)
  moreover define t where "t = s\<lparr>mem := store32 (mem s) (pte_addr (mem s) pd a)
    (mprotect_pte prot (pgmap (mem s) pd a))\<rparr>"
  note pr = protect_round [OF 0(1,2) has, where prot = prot, folded t_def]
  ultimately have "mprotect_loop n pd a fin prot s = Ret () t"
    using pr(1) n by simp
  moreover have "pgmap (mem t) pd = upd_range (mprotect_pte prot) a (Suc 0) (pgmap (mem s) pd)"
  proof -
    have "upd_range (mprotect_pte prot) (a + 4096) 0 (pgmap (mem t) pd) =
        upd_range (mprotect_pte prot) a (Suc 0) (pgmap (mem s) pd)"
      unfolding pr(3) using unat_lt_32 [of a] 0(3)
      by (intro upd_range_Suc) (auto intro: pgmap_page_sym)
    then show ?thesis by simp
  qed
  ultimately show ?case using pr by blast
next
  case (Suc k n a s)
  obtain n' where n: "n = Suc n'" using Suc.prems by (cases n) auto
  have has: "has_pt (mem s) pd a" using Suc.prems by (simp add: pg_aligned_iff)
  have up: "unat (a + 4096) = unat a + 4096"
    using unat_plus_no_wrap [of a 4096] Suc.prems(6) by simp
  then have lt: "a + 4096 < fin" using Suc.prems(4) by (simp add: word_less_nat_alt)
  define t where "t = s\<lparr>mem := store32 (mem s) (pte_addr (mem s) pd a)
    (mprotect_pte prot (pgmap (mem s) pd a))\<rparr>"
  note pr = protect_round [OF Suc.prems(1,2) has, where prot = prot, folded t_def]
  have "has_pt (mem t) pd vb" if "unat (PGROUNDDOWN vb - (a + 4096)) < 4096 * Suc k" for vb
    using in_range_Suc [OF Suc.prems(3), of "Suc k" vb] that Suc.prems(6,8) pr(5) by simp
  then obtain s' where s': "mprotect_loop n' pd (a + 4096) fin prot t = Ret () s'"
      "vm_frame pd t xs s' xs"
      "pgmap (mem s') pd = upd_range (mprotect_pte prot) (a + 4096) (Suc k) (pgmap (mem t) pd)"
      "pt_pages (mem s') pd = pt_pages (mem t) pd"
      "\<forall>y. PGROUNDDOWN y \<notin> pt_pages (mem t) pd \<longrightarrow> mem s' y = mem t y"
    using Suc.IH [of t "a + 4096" n'] vm_frameD [OF pr(2)] Suc.prems up n
      pg_aligned_plus_page [OF Suc.prems(3)] by auto
  have "pgmap (mem s') pd = upd_range (mprotect_pte prot) a (Suc (Suc k)) (pgmap (mem s) pd)"
    unfolding s'(3) pr(3) using Suc.prems(3,6) 
    by (intro upd_range_Suc) (auto intro: pgmap_page_sym)
  moreover have "mprotect_loop n pd a fin prot s = Ret () s'"
    using pr(1) n lt s'(1) by simp
  ultimately show ?case
    using s'(4,5) pr(4,6) vm_frame_trans [OF pr(2) s'(2)] by simp
qed

section \<open>Properties\<close>

text \<open>What the processor lets user code do with a page.\<close>

definition user_read :: "u32 \<Rightarrow> bool" where
  "user_read pte \<longleftrightarrow> pte AND PTE_P \<noteq> 0 \<and> pte AND PTE_U \<noteq> 0"

definition user_write :: "u32 \<Rightarrow> bool" where
  "user_write pte \<longleftrightarrow> user_read pte \<and> pte AND PTE_W \<noteq> 0"

text \<open>
  C1: \<open>mprotect\<close> on a range whose page tables exist returns 0, applies \<open>mprotect_pte\<close> to the
  entry of every page that meets the range and to no other, changes no memory outside the page
  tables, and reloads \<open>cr3\<close>.
\<close>

theorem mprotect_correct:
  assumes "wf_pd s pd xs" "free_pages s xs" "cur s = Some i" "pd = pgdir (ptable s ! i)"
    and "0 < len" "unat addr + unat len \<le> 4294963200"
    and "\<And>vb. unat (PGROUNDDOWN vb - PGROUNDDOWN addr) < 4096 * npages addr len \<Longrightarrow>
          has_pt (mem s) pd vb"
  shows "runs (mprotect addr len prot s) (\<lambda>r s'. r = 0 \<and> cr3 s' = v2p pd
     \<and> pgmap (mem s') pd = upd_range (mprotect_pte prot) (PGROUNDDOWN addr) (npages addr len)
          (pgmap (mem s) pd)
     \<and> (\<forall>y. PGROUNDDOWN y \<notin> pt_pages (mem s) pd \<longrightarrow> mem s' y = mem s y))"
proof -
  obtain k where k: "npages addr len = Suc k" "unat (PGROUNDDOWN addr) + 4096 * k < unat addr + unat len"
      "unat addr + unat len \<le> unat (PGROUNDDOWN addr) + 4096 * Suc k"
    using npages_range [of len addr] assms(5,6) by auto
  have fin: "unat (addr + len) = unat addr + unat len"
    using assms(6) by (intro unat_plus_no_wrap) simp
  have "\<exists>s'. mprotect_loop 1048576 pd (PGROUNDDOWN addr) (addr + len) prot s = Ret () s'
    \<and> vm_frame pd s xs s' xs
    \<and> pgmap (mem s') pd = upd_range (mprotect_pte prot) (PGROUNDDOWN addr) (Suc k) (pgmap (mem s) pd)
    \<and> pt_pages (mem s') pd = pt_pages (mem s) pd
    \<and> (\<forall>y. PGROUNDDOWN y \<notin> pt_pages (mem s) pd \<longrightarrow> mem s' y = mem s y)"
    using assms(1,2,6,7) k fin by (intro mprotect_loop_updates) auto
  then obtain s' where s': "mprotect_loop 1048576 pd (PGROUNDDOWN addr) (addr + len) prot s = Ret () s'"
    "vm_frame pd s xs s' xs"
    "pgmap (mem s') pd = upd_range (mprotect_pte prot) (PGROUNDDOWN addr) (Suc k) (pgmap (mem s) pd)"
    "\<forall>y. PGROUNDDOWN y \<notin> pt_pages (mem s) pd \<longrightarrow> mem s' y = mem s y" by blast
  have "ptable s' = ptable s"
    by (subst vm_frameD(4) [OF s'(2)]) simp
  then show ?thesis
    using s' assms(3,4) by (simp add: mprotect_def with_cur_def lcr3_def k(1))
qed

theorem mprotect_correct_witness:
  "\<exists>s :: vmst. user_write (pgmap (mem s) 0x80100000 0x1234)
     \<and> runs (mprotect 0x1234 8 PROT_READ s) (\<lambda>r s'. r = 0
        \<and> pgmap (mem s') 0x80100000 0x1234 = 0x200005)"
proof -
  obtain s xs where s: "vm_frame 0x80100000 demo demo_pages s xs"
    "\<And>vb. pgmap (mem s) 0x80100000 vb = (if PGROUNDDOWN vb = 0x1000 then 0x200007 else 0)"
    by (rule demo_mapped) blast
  have np: "npages 0x1234 8 = 1" and pg: "PGROUNDDOWN 0x1234 = 0x1000"
    by (simp_all add: npages_def PGROUNDDOWN_def)
  have "pg_aligned 0x1000" by (simp add: pg_aligned_def)
  then have inr: "unat (PGROUNDDOWN vb - 0x1000) < 4096 \<longleftrightarrow> PGROUNDDOWN vb = 0x1000" for vb
    using in_page_iff [of "0x1000" "PGROUNDDOWN vb"] by (simp add: word_less_nat_alt)
  have "ptable s = ptable demo" "cur s = cur demo"
    by (subst vm_frameD(4) [OF s(1)], simp)+
  then have "cur s = Some 0" "0x80100000 = pgdir (ptable s ! 0)"
    by (simp_all add: demo_def demo_proc_def)
  moreover have "has_pt (mem s) 0x80100000 vb" if "unat (PGROUNDDOWN vb - 0x1000) < 4096" for vb
    using that inr [of vb] s(2) [of vb] by (intro present_has_pt) simp
  ultimately have "runs (mprotect 0x1234 8 PROT_READ s) (\<lambda>r s'. r = 0 \<and> cr3 s' = v2p 0x80100000
     \<and> pgmap (mem s') 0x80100000 = upd_range (mprotect_pte PROT_READ) (PGROUNDDOWN 0x1234) (npages 0x1234 8)
          (pgmap (mem s) 0x80100000)
     \<and> (\<forall>y. PGROUNDDOWN y \<notin> pt_pages (mem s) 0x80100000 \<longrightarrow> mem s' y = mem s y))"
    using vm_frameD(1,2) [OF s(1)] np pg by (intro mprotect_correct) auto
  moreover have "mprotect_pte PROT_READ 0x200007 = 0x200005" by (simp add: mprotect_pte_def)
  ultimately show ?thesis
    using s(2) [of "0x1234"] pg np
    by (intro exI [of _ s]) (auto simp: user_write_def user_read_def upd_range_def elim!: runs_mono)
qed

text \<open>
  C2: after \<open>mprotect\<close> user code can read a page exactly when the protection contains
  \<open>PROT_READ\<close>, and write it exactly when the protection is \<open>PROT_READ | PROT_WRITE\<close>; the
  physical page stays the same. With \<open>PROT_WRITE\<close> alone user code has no access at all.
\<close>

theorem mprotect_access:
  assumes "prot \<le> 3"
  shows "user_read (mprotect_pte prot pte) = (prot = PROT_READ \<or> prot = PROT_READ OR PROT_WRITE)
    \<and> user_write (mprotect_pte prot pte) = (prot = PROT_READ OR PROT_WRITE)
    \<and> PTE_ADDR (mprotect_pte prot pte) = PTE_ADDR pte"
  unfolding user_read_def user_write_def PTE_P_bit PTE_W_bit PTE_U_bit mprotect_pte_bit [OF assms]
  by (auto simp: mprotect_pte_addr)

theorem mprotect_access_witness:
  "\<not> user_read (mprotect_pte PROT_WRITE 0x5007) \<and> user_write (mprotect_pte 3 0x5001)"
  using mprotect_access [of PROT_WRITE "0x5007"] mprotect_access [of 3 "0x5001"] by simp

text \<open>
  C3: \<open>mprotect\<close> of an address whose directory entry is absent reads through a null pointer
  instead of reporting an error.
\<close>

theorem mprotect_unmapped:
  assumes "cur s = Some i" "\<not> has_pt (mem s) (pgdir (ptable s ! i)) addr"
  shows "mprotect addr len prot s = Fault ''mprotect''"
proof -
  have "PDX (PGROUNDDOWN addr) = PDX addr"
    using same_page_iff [of "PGROUNDDOWN addr" addr] by simp
  then have no: "\<not> has_pt (mem s) (pgdir (ptable s ! i)) (PGROUNDDOWN addr)"
    using assms(2) pd_cong(2) by blast
  obtain n where n: "(1048576 :: nat) = Suc n" by (rule that [of 1048575]) simp
  show ?thesis
    unfolding mprotect_def n using assms(1) no by (simp add: with_cur_def walkpgdir_none)
qed

theorem mprotect_unmapped_witness:
  "mprotect 0x1000 4096 PROT_READ demo = Fault ''mprotect''"
  by (rule mprotect_unmapped [of _ 0]) (simp_all add: demo_def demo_proc_def demo_no_pt)

end
