(* ===== verification/Vm_Alloc.thy ===== *)
theory Vm_Alloc
  imports Vm_Map
begin

text \<open>
  Growing the user's part of an address space (\<^verbatim>\<open>vm.c\<close>): with enough free pages, \<open>allocuvm\<close>
  maps fresh zeroed pages; when the last free page goes to the data and none is left for the
  page table, it reports success for a page that is not mapped.
\<close>

section \<open>The loop\<close>

lemma allocuvm_loop_maps:
  assumes "kmem_ok s" "wf_pd s pd xs" "free_pages s xs" "pg_aligned a"
    and "unat newsz \<le> unat a + 4096 * k" "\<forall>j<k. unat a + 4096 * j < unat newsz"
    and "unat a + 4096 * k < 4294967296" "2 * k \<le> length xs" "k < n"
    and "\<And>vb. unat (PGROUNDDOWN vb - a) < 4096 * k \<Longrightarrow> \<not> bit (pgmap (mem s) pd vb) 0"
  shows "\<exists>s' ys ps. allocuvm_loop n pd a oldsz newsz s = Ret newsz s' \<and> vm_frame pd s xs s' ys
    \<and> length ps = k \<and> distinct ps \<and> set ps \<subseteq> set xs - set ys \<and> set ps \<inter> pt_pages (mem s') pd = {}
    \<and> (\<forall>y. PGROUNDDOWN y \<in> set ps \<longrightarrow> mem s' y = 0)
    \<and> pgmap (mem s') pd = map_pages (\<lambda>_. PTE_P OR PTE_W OR PTE_U) (pgmap (mem s) pd) a ps"
  using assms
proof (induction k arbitrary: n a s xs)
  case (0 n a s xs)
  obtain n' where "n = Suc n'" using 0 by (cases n) auto
  moreover have "\<not> a < newsz" using 0 by (simp add: word_less_nat_alt)
  ultimately have "allocuvm_loop n pd a oldsz newsz s = Ret newsz s" by simp
  then show ?case using vm_frame_refl [OF 0(2,3)]
    by (intro exI [of _ s] exI [of _ xs] exI [of _ "[]"]) simp
next
  case (Suc k n a s xs)
  obtain n' where n: "n = Suc n'" using Suc.prems by (cases n) auto
  have lt: "a < newsz" using Suc.prems(6) [rule_format, of 0] by (simp add: word_less_nat_alt)
  have up: "unat (a + 4096) = unat a + 4096"
    using unat_plus_no_wrap [of a 4096] Suc.prems(7) by simp
  obtain x zs where xs: "xs = x # zs" using Suc.prems(8) by (cases xs) auto
  have x: "x \<notin> set zs" "pg_aligned x" "x \<noteq> 0"
    using Suc.prems(3) kpage_nonzero [of s x] by (auto simp: xs free_pages_def dest: kpage_aligned)
  define t where "t = s\<lparr>freelist := load32 (mem s) x, mem := memset (mem s) x 0 4096\<rparr>"
  have tf: "vm_frame pd s xs t zs" "pgmap (mem t) pd = pgmap (mem s) pd"
    "pt_pages (mem t) pd = pt_pages (mem s) pd"
    unfolding t_def xs
    by (rule take_page_frame [OF Suc.prems(1)]; use Suc.prems(2,3) xs x memset_page_outside in simp)+
  have "\<not> bit (pgmap (mem t) pd a) 0"
    using Suc.prems(4,10) tf(2) by (simp add: pg_aligned_iff)
  then obtain r u ys where m: "mappages pd a 4096 (v2p x) (PTE_W OR PTE_U) t = Ret r u"
    "vm_frame pd t zs u ys" "length zs \<le> Suc (length ys)"
    "r = 0 \<and> (\<forall>vb. pgmap (mem u) pd vb =
        (if PGROUNDDOWN vb = a then v2p x OR (PTE_W OR PTE_U) OR PTE_P else pgmap (mem t) pd vb))
     \<or> r = -1 \<and> zs = [] \<and> ys = [] \<and> pgmap (mem u) pd = pgmap (mem t) pd"
    using mappages_page [OF _ vm_frameD(2,1) [OF tf(1)] Suc.prems(4), where pa = "v2p x"
        and perm = "PTE_W OR PTE_U"] vm_frame_fields(4) [OF tf(1)] Suc.prems(1) by blast
  have g: "pgmap (mem u) pd = (\<lambda>vb. if PGROUNDDOWN vb = a then v2p x OR PTE_P OR PTE_W OR PTE_U
      else pgmap (mem s) pd vb)"
    using m(4) Suc.prems(8) xs tf(2) by (auto simp: fun_eq_iff)
  have f: "vm_frame pd s xs u ys" by (rule vm_frame_trans [OF tf(1) m(2)])
  have "\<not> bit (pgmap (mem u) pd vb) 0" if "unat (PGROUNDDOWN vb - (a + 4096)) < 4096 * k" for vb
    using that in_range_Suc [of a k vb] Suc.prems(4,7,10) by (auto simp: g pg_aligned_iff)
  moreover have "\<forall>j<k. unat (a + 4096) + 4096 * j < unat newsz"
  proof (intro allI impI)
    fix j assume "j < k"
    then show "unat (a + 4096) + 4096 * j < unat newsz"
      using Suc.prems(6) [rule_format, of "Suc j"] up by simp
  qed
  ultimately have "\<exists>s' ws ps. allocuvm_loop n' pd (a + 4096) oldsz newsz u = Ret newsz s'
    \<and> vm_frame pd u ys s' ws
    \<and> length ps = k \<and> distinct ps \<and> set ps \<subseteq> set ys - set ws \<and> set ps \<inter> pt_pages (mem s') pd = {}
    \<and> (\<forall>y. PGROUNDDOWN y \<in> set ps \<longrightarrow> mem s' y = 0)
    \<and> pgmap (mem s') pd = map_pages (\<lambda>_. PTE_P OR PTE_W OR PTE_U) (pgmap (mem u) pd) (a + 4096) ps"
    using Suc.prems(1,5,7,8,9) up n xs m(3) vm_frameD(1,2) [OF f] vm_frame_fields(4) [OF f]
      pg_aligned_plus_page [OF Suc.prems(4)] by (intro Suc.IH) auto
  then obtain s' ws ps where c: "allocuvm_loop n' pd (a + 4096) oldsz newsz u = Ret newsz s'"
    "vm_frame pd u ys s' ws" "length ps = k" "distinct ps" "set ps \<subseteq> set ys - set ws"
    "set ps \<inter> pt_pages (mem s') pd = {}" "\<forall>y. PGROUNDDOWN y \<in> set ps \<longrightarrow> mem s' y = 0"
    "pgmap (mem s') pd = map_pages (\<lambda>_. PTE_P OR PTE_W OR PTE_U) (pgmap (mem u) pd) (a + 4096) ps" by blast
  have sub: "set ys \<subseteq> set zs" by (rule vm_frameD(3) [OF m(2)])
  have xpt: "x \<notin> pt_pages (mem s) pd" using pt_pages_free [OF Suc.prems(2)] xs by auto
  have xu: "x \<notin> pt_pages (mem u) pd" "x \<notin> set ys"
    using vm_frameD(6) [OF m(2)] tf(3) xpt x(1) sub by auto
  have xs': "x \<notin> pt_pages (mem s') pd"
    using vm_frameD(6) [OF c(2)] xu by auto
  have "mem s' y = 0" if "PGROUNDDOWN y = x" for y
  proof -
    have "mem s' y = mem u y" using that xu by (intro vm_frame_outside [OF c(2)]) auto
    also have "\<dots> = mem t y" using that x(1) xpt tf(3) by (intro vm_frame_outside [OF m(2)]) auto
    also have "\<dots> = 0" using that x(2) by (simp add: t_def memset_page_inside)
    finally show ?thesis .
  qed
  moreover have "pgmap (mem s') pd = map_pages (\<lambda>_. PTE_P OR PTE_W OR PTE_U) (pgmap (mem s) pd) a (x # ps)"
    unfolding c(8) g using Suc.prems(4,7) c(3) by (intro map_pages_Cons) simp_all
  moreover have "allocuvm_loop n pd a oldsz newsz s = Ret newsz s'"
    using n lt kalloc_some(1) [OF Suc.prems(1), of x zs] Suc.prems(3) xs x(3) m(1) c(1)
    by (simp add: t_def Let_def)
  moreover have "set (x # ps) \<subseteq> set xs - set ws"
    using c(5) sub xs xu(2) vm_frameD(3) [OF c(2)] by auto
  moreover have "distinct (x # ps)" using c(4,5) xu(2) by auto
  ultimately show ?case
    using vm_frame_trans [OF f c(2)] c(3,6,7) xs'
    by (intro exI [of _ s'] exI [of _ ws] exI [of _ "x # ps"]) auto
qed

section \<open>Properties\<close>

text \<open>The number of pages that \<open>allocuvm\<close> has to add.\<close>

definition new_pages :: "u32 \<Rightarrow> u32 \<Rightarrow> nat" where
  "new_pages oldsz newsz = (unat (PGROUNDUP newsz) - unat (PGROUNDUP oldsz)) div 4096"

lemma unat_PGROUNDUP:
  "unat a < 4294963200 \<Longrightarrow> unat (PGROUNDUP a) = unat a + 4095 - (unat a + 4095) mod 4096"
  using unat_plus_no_wrap [of a 4095] by (simp add: PGROUNDUP_alt unat_PGROUNDDOWN)

lemma PGROUNDUP_bounds:
  assumes "unat a < 4294963200"
  shows "unat a \<le> unat (PGROUNDUP a)" "unat (PGROUNDUP a) < unat a + 4096" "pg_aligned (PGROUNDUP a)"
proof -
  have "(unat a + 4095) mod 4096 < 4096" by simp
  then show "unat a \<le> unat (PGROUNDUP a)" "unat (PGROUNDUP a) < unat a + 4096"
    unfolding unat_PGROUNDUP [OF assms] by linarith+
qed (simp add: PGROUNDUP_alt)

lemma new_pages_bounds:
  assumes "oldsz \<le> newsz" "newsz < KERNBASE"
  defines "a \<equiv> unat (PGROUNDUP oldsz)"
  shows "unat newsz \<le> a + 4096 * new_pages oldsz newsz"
    "\<forall>j<new_pages oldsz newsz. a + 4096 * j < unat newsz"
    "a + 4096 * new_pages oldsz newsz < 2147487744"
proof -
  have o: "unat oldsz \<le> unat newsz" "unat newsz < 2147483648"
    using assms(1,2) by (simp_all add: word_le_nat_alt word_less_nat_alt)
  define b where "b = unat (PGROUNDUP newsz)"
  have pa: "pg_aligned (PGROUNDUP oldsz)" "pg_aligned (PGROUNDUP newsz)" by (simp_all add: PGROUNDUP_alt)
  then obtain i j where ij: "a = 4096 * i" "b = 4096 * j"
    unfolding a_def b_def pg_aligned_def mod_eq_0_iff_dvd by (auto elim!: dvdE)
  have A: "unat oldsz \<le> a" "a < unat oldsz + 4096" and B: "unat newsz \<le> b" "b < unat newsz + 4096"
    unfolding a_def b_def using o by (intro PGROUNDUP_bounds; simp)+
  have "i \<le> j" using ij A(2) B(1) o(1) by linarith
  moreover have "new_pages oldsz newsz = j - i"
    using ij unfolding new_pages_def a_def [symmetric] b_def [symmetric] by (simp flip: diff_mult_distrib2)
  ultimately have np: "a + 4096 * new_pages oldsz newsz = b" using ij by (simp add: algebra_simps)
  then show "unat newsz \<le> a + 4096 * new_pages oldsz newsz" using B(1) by simp
  show "a + 4096 * new_pages oldsz newsz < 2147487744" using np B(2) o(2) by simp
  show "\<forall>j<new_pages oldsz newsz. a + 4096 * j < unat newsz"
  proof (intro allI impI)
    fix l assume "l < new_pages oldsz newsz"
    then have "a + 4096 * l + 4096 \<le> b" using np by simp
    then show "a + 4096 * l < unat newsz" using B(2) by simp
  qed
qed

text \<open>
  C6: with two free pages for every page to add, \<open>allocuvm\<close> returns the new size and maps, in
  order, distinct zeroed pages from the free list to the addresses from the old size up, with
  user read and write access; every other mapping stays, and memory changes only in the page
  tables and in pages that were free.
\<close>

theorem allocuvm_correct:
  assumes "kmem_ok s" "wf_pd s pd xs" "free_pages s xs" "oldsz \<le> newsz" "newsz < KERNBASE"
    and "2 * new_pages oldsz newsz \<le> length xs"
    and "\<And>vb. unat (PGROUNDDOWN vb - PGROUNDUP oldsz) < 4096 * new_pages oldsz newsz \<Longrightarrow>
          \<not> bit (pgmap (mem s) pd vb) 0"
  shows "runs (allocuvm pd oldsz newsz s) (\<lambda>r s'. r = newsz \<and> (\<exists>ys ps. vm_frame pd s xs s' ys
    \<and> length ps = new_pages oldsz newsz \<and> distinct ps \<and> set ps \<subseteq> set xs - set ys
    \<and> set ps \<inter> pt_pages (mem s') pd = {}
    \<and> (\<forall>y. PGROUNDDOWN y \<in> set ps \<longrightarrow> mem s' y = 0)
    \<and> pgmap (mem s') pd = map_pages (\<lambda>_. PTE_P OR PTE_W OR PTE_U) (pgmap (mem s) pd) (PGROUNDUP oldsz) ps))"
proof -
  note b = new_pages_bounds [OF assms(4,5)]
  have "unat (PGROUNDUP oldsz) + 4096 * new_pages oldsz newsz < 4294967296" using b(3) by simp
  moreover have "new_pages oldsz newsz < 1048577" using b(3) by simp
  moreover have "pg_aligned (PGROUNDUP oldsz)" by (simp add: PGROUNDUP_alt)
  ultimately have "\<exists>s' ys ps. allocuvm_loop 1048577 pd (PGROUNDUP oldsz) oldsz newsz s = Ret newsz s'
    \<and> vm_frame pd s xs s' ys
    \<and> length ps = new_pages oldsz newsz \<and> distinct ps \<and> set ps \<subseteq> set xs - set ys
    \<and> set ps \<inter> pt_pages (mem s') pd = {}
    \<and> (\<forall>y. PGROUNDDOWN y \<in> set ps \<longrightarrow> mem s' y = 0)
    \<and> pgmap (mem s') pd = map_pages (\<lambda>_. PTE_P OR PTE_W OR PTE_U) (pgmap (mem s) pd) (PGROUNDUP oldsz) ps"
    using assms(1-3,6,7) b(1,2) by (intro allocuvm_loop_maps) simp_all
  moreover have "\<not> KERNBASE \<le> newsz" "\<not> newsz < oldsz" using assms(4,5) by auto
  ultimately show ?thesis
    unfolding allocuvm_def runs_iff by simp
qed

theorem allocuvm_correct_witness:
  "runs (allocuvm 0x80100000 0x800 0x3000 demo) (\<lambda>r s'. r = 0x3000 \<and> (\<exists>ys ps.
    vm_frame 0x80100000 demo demo_pages s' ys
    \<and> length ps = 2 \<and> distinct ps \<and> set ps \<subseteq> set demo_pages - set ys
    \<and> set ps \<inter> pt_pages (mem s') 0x80100000 = {}
    \<and> (\<forall>y. PGROUNDDOWN y \<in> set ps \<longrightarrow> mem s' y = 0)
    \<and> pgmap (mem s') 0x80100000 = map_pages (\<lambda>_. PTE_P OR PTE_W OR PTE_U) (pgmap (mem demo) 0x80100000) 0x1000 ps))"
proof -
  have n: "new_pages 0x800 0x3000 = 2" and u: "PGROUNDUP 0x800 = 0x1000"
    by (simp_all add: new_pages_def PGROUNDUP_def)
  show ?thesis
    using allocuvm_correct [OF demo_ok demo_wf demo_free, of "0x800" "0x3000", unfolded n u]
    by (simp add: demo_pages_def demo_pgmap)
qed

text \<open>
  C7: \<open>allocuvm\<close> ignores the result of \<open>mappages\<close>. When one free page is left and the page
  table of the new page is missing, it returns the new size although nothing was mapped, and
  the page is lost.
\<close>

theorem allocuvm_unmapped_success:
  assumes "kmem_ok s" "wf_pd s pd [x]" "free_pages s [x]" "oldsz \<le> newsz" "newsz < KERNBASE"
    and "new_pages oldsz newsz = 1" "\<not> has_pt (mem s) pd (PGROUNDUP oldsz)"
  shows "runs (allocuvm pd oldsz newsz s) (\<lambda>r s'. r = newsz \<and> free_pages s' []
    \<and> pgmap (mem s') pd = pgmap (mem s) pd)"
proof -
  define a where "a = PGROUNDUP oldsz"
  note b = new_pages_bounds [OF assms(4,5), unfolded assms(6), folded a_def]
  have al: "pg_aligned a" by (simp add: a_def PGROUNDUP_alt)
  have x: "pg_aligned x" "x \<noteq> 0"
    using assms(3) kpage_nonzero [of s x] by (auto simp: free_pages_def dest: kpage_aligned)
  define t where "t = s\<lparr>freelist := load32 (mem s) x, mem := memset (mem s) x 0 4096\<rparr>"
  have tf: "vm_frame pd s [x] t []" "pgmap (mem t) pd = pgmap (mem s) pd"
      "has_pt (mem t) pd = has_pt (mem s) pd"
    unfolding t_def
    by (rule take_page_frame [OF assms(1)]; use assms(2,3) x memset_page_outside in simp)+
  have "kmem_ok t" "free_pages t []" "\<not> has_pt (mem t) pd a"
    using vm_frame_fields(4) [OF tf(1)] assms(1,7) vm_frameD(1) [OF tf(1)] tf(3) by (simp_all add: a_def)
  then have "walkpgdir pd a True t = Ret 0 t" by (intro walkpgdir_full)
  moreover obtain n where n: "(1048576 :: nat) = Suc n" by (rule that [of 1048575]) simp
  ultimately have m: "mappages pd a 4096 pa perm t = Ret (-1) t" for pa perm
    unfolding mappages_def n using al by (simp add: pg_aligned_iff)
  obtain l where l: "(1048577 :: nat) = Suc (Suc l)" by (rule that [of 1048575]) simp
  have "unat (a + 4096) = unat a + 4096"
    using b(3) by (subst unat_plus_no_wrap) simp_all
  then have cmp: "a < newsz" "\<not> a + 4096 < newsz"
    using b(1,2) by (simp_all add: word_less_nat_alt)
  have "\<not> KERNBASE \<le> newsz" "\<not> newsz < oldsz" using assms(4,5) by auto
  then have "allocuvm pd oldsz newsz s = Ret newsz t"
    using m cmp x(2) kalloc_some(1) [OF assms(1,3)]
    unfolding allocuvm_def a_def [symmetric] l
    by (simp add: t_def Let_def del: not_le not_less linorder_not_le linorder_not_less)
  then show ?thesis
    using vm_frameD(1) [OF tf(1)] tf(2) by simp
qed

theorem allocuvm_unmapped_success_witness:
  "\<exists>s :: vmst. runs (allocuvm 0x80100000 0 4096 s) (\<lambda>r s'. r = 4096
     \<and> pgmap (mem s') 0x80100000 0 = 0)"
proof -
  define s where "s = demo\<lparr>freelist := 0x80104000\<rparr>"
  have "free_pages demo demo_pages" by (rule demo_free)
  then have fr: "free_pages s [0x80104000]"
    by (simp add: free_pages_def demo_pages_def s_def kpage_def demo_def)
  have "wf_pd demo 0x80100000 [0x80104000]"
    by (rule wf_pd_mono [OF demo_wf]) (simp add: demo_pages_def)
  then have wf: "wf_pd s 0x80100000 [0x80104000]"
    by (rule wf_pd_cong) (simp_all add: s_def)
  have "kmem_ok s" using demo_ok by (simp add: s_def kmem_ok_def)
  moreover have "new_pages 0 4096 = 1" by (simp add: new_pages_def PGROUNDUP_def)
  moreover have "\<not> has_pt (mem s) 0x80100000 (PGROUNDUP 0)" by (simp add: s_def demo_def demo_no_pt)
  ultimately have "runs (allocuvm 0x80100000 0 4096 s) (\<lambda>r s'. r = 4096 \<and> free_pages s' []
    \<and> pgmap (mem s') 0x80100000 = pgmap (mem s) 0x80100000)"
    using wf fr by (intro allocuvm_unmapped_success) simp_all
  moreover have "pgmap (mem s) 0x80100000 0 = 0" using demo_pgmap by (simp add: s_def)
  ultimately show ?thesis by (intro exI [of _ s]) (auto elim!: runs_mono)
qed

end
