(* ===== verification/Vm_Kvm.thy ===== *)
theory Vm_Kvm
  imports Vm_Map
begin

text \<open>
  The kernel's part of an address space (\<^verbatim>\<open>vm.c\<close>): \<open>setupkvm\<close> builds a directory whose map is
  the table \<open>kmap\<close> and nothing else.
\<close>

section \<open>The map that the table describes\<close>

definition in_kmap :: "u32 \<times> u32 \<times> u32 \<times> u32 \<Rightarrow> u32 \<Rightarrow> bool" where
  "in_kmap k vb = (case k of (virt, ps, pe, perm) \<Rightarrow> unat (PGROUNDDOWN vb - virt) < unat (pe - ps))"

definition kmap_view :: "(u32 \<times> u32 \<times> u32 \<times> u32) list \<Rightarrow> (u32 \<Rightarrow> u32) \<Rightarrow> u32 \<Rightarrow> u32" where
  "kmap_view ks g vb =
     (case find (\<lambda>k. in_kmap k vb) ks of
        None \<Rightarrow> g vb
      | Some (virt, ps, pe, perm) \<Rightarrow> (ps + (PGROUNDDOWN vb - virt)) OR perm OR PTE_P)"

definition kernel_map :: "u32 \<Rightarrow> u32 \<Rightarrow> u32" where
  "kernel_map data = kmap_view (kmap data) (\<lambda>_. 0)"

definition kmap_entry_ok :: "u32 \<times> u32 \<times> u32 \<times> u32 \<Rightarrow> bool" where
  "kmap_entry_ok k = (case k of (virt, ps, pe, perm) \<Rightarrow>
     pg_aligned virt \<and> pg_aligned (pe - ps) \<and> pe - ps \<noteq> 0 \<and> unat virt + unat (pe - ps) \<le> 4294967296)"

fun kmap_disjoint :: "(u32 \<times> u32 \<times> u32 \<times> u32) list \<Rightarrow> bool" where
  "kmap_disjoint [] \<longleftrightarrow> True"
| "kmap_disjoint (k # ks) \<longleftrightarrow>
     (\<forall>vb. in_kmap k vb \<longrightarrow> (\<forall>k'\<in>set ks. \<not> in_kmap k' vb)) \<and> kmap_disjoint ks"

lemma npages_aligned:
  assumes "pg_aligned va" "pg_aligned n" "0 < n" "unat va + unat n \<le> 4294967296"
  shows "4096 * npages va n = unat n"
proof -
  obtain k where "npages va n = Suc k" "unat va + 4096 * k < unat va + unat n"
      "unat va + unat n \<le> unat va + 4096 * Suc k"
    using npages_range [OF assms(3,4)] assms(1) by (auto simp: pg_aligned_iff)
  moreover obtain q where "unat n = 4096 * q"
    using assms(2) by (auto simp: pg_aligned_def)
  ultimately show ?thesis by simp
qed

lemma setupkvm_loop_maps:
  assumes "kmem_ok s" "wf_pd s pd xs" "free_pages s xs" "pd \<noteq> 0"
    and "\<forall>k\<in>set ks. kmap_entry_ok k" "kmap_disjoint ks"
    and "\<forall>k\<in>set ks. \<forall>vb. in_kmap k vb \<longrightarrow> \<not> bit (pgmap (mem s) pd vb) 0"
  shows "\<exists>r s' ys. setupkvm_loop pd ks s = Ret r s' \<and> vm_frame pd s xs s' ys
    \<and> (r = pd \<and> pgmap (mem s') pd = kmap_view ks (pgmap (mem s) pd) \<or> r = 0 \<and> ys = [])"
  using assms
proof (induction ks arbitrary: s xs)
  case Nil
  then show ?case using vm_frame_refl by (fastforce simp: kmap_view_def)
next
  case (Cons k ks)
  obtain virt ps pe perm where k: "k = (virt, ps, pe, perm)" by (cases k)
  have e: "pg_aligned virt" "pg_aligned (pe - ps)" "0 < pe - ps"
      "unat virt + unat (pe - ps) \<le> 4294967296" and v: "PGROUNDDOWN virt = virt"
    using Cons.prems(5) by (auto simp: kmap_entry_ok_def k word_gt_0 pg_aligned_iff)
  note np = npages_aligned [OF e]
  have "\<not> bit (pgmap (mem s) pd vb) 0"
    if "unat (PGROUNDDOWN vb - PGROUNDDOWN virt) < 4096 * npages virt (pe - ps)" for vb
    using that Cons.prems(7) by (simp add: np v k in_kmap_def)
  from mappages_maps [OF Cons.prems(1-3) e(3,4) this, of ps perm]
  obtain r s' ys j where m: "mappages pd virt (pe - ps) ps perm s = Ret r s'" "vm_frame pd s xs s' ys"
    "pgmap (mem s') pd = map_range (pgmap (mem s) pd) virt j ps perm"
    "r = 0 \<and> j = npages virt (pe - ps) \<or> r = -1 \<and> ys = []"
    unfolding v by blast
  show ?case
  proof (cases "r = 0")
    case False
    then have "setupkvm_loop pd (k # ks) s = Ret 0 s'" "ys = []" using m(1,4) by (auto simp: k)
    then show ?thesis using m(2) by blast
  next
    case True
    then have g: "pgmap (mem s') pd vb = (if in_kmap k vb then (ps + (PGROUNDDOWN vb - virt)) OR perm OR PTE_P
        else pgmap (mem s) pd vb)" for vb
      using m(3,4) by (simp add: map_range_def in_kmap_def k np Let_def)
    have "\<forall>k\<in>set ks. \<forall>vb. in_kmap k vb \<longrightarrow> \<not> bit (pgmap (mem s') pd vb) 0"
      using Cons.prems(6,7) by (auto simp: g)
    then obtain r' s'' zs where c: "setupkvm_loop pd ks s' = Ret r' s''" "vm_frame pd s' ys s'' zs"
      "r' = pd \<and> pgmap (mem s'') pd = kmap_view ks (pgmap (mem s') pd) \<or> r' = 0 \<and> zs = []"
      using Cons.IH [of s' ys] Cons.prems(1,4-6) vm_frameD(1,2) [OF m(2)] vm_frame_fields(4) [OF m(2)]
      by auto
    have "kmap_view ks (pgmap (mem s') pd) vb = kmap_view (k # ks) (pgmap (mem s) pd) vb" for vb
    proof (cases "in_kmap k vb")
      case True
      then have "find (\<lambda>k. in_kmap k vb) ks = None"
        using Cons.prems(6) by (auto simp: find_None_iff)
      then show ?thesis using True by (simp add: kmap_view_def g k)
    qed (simp add: kmap_view_def g split: option.split)
    then show ?thesis
      using c m(1) True vm_frame_trans [OF m(2) c(2)] by (auto simp: k fun_eq_iff)
  qed
qed

section \<open>The table of the kernel\<close>

text \<open>The condition on the address of the kernel's data that the linker script guarantees.\<close>

definition data_ok :: "u32 \<Rightarrow> bool" where
  "data_ok data \<longleftrightarrow> pg_aligned data \<and> KERNLINK < data \<and> data < p2v PHYSTOP"

lemma in_range_iff:
  fixes p v :: u32
  assumes "unat v + n \<le> 4294967296"
  shows "unat (p - v) < n \<longleftrightarrow> unat v \<le> unat p \<and> unat p < unat v + n"
  using assms unat_lt_32 [of p] unat_lt_32 [of v]
  by (auto simp: unat_sub_if_size word_size)

lemma data_okD:
  assumes "data_ok data"
  shows "unat data = 2147483648 + unat (v2p data)" "1048576 < unat (v2p data)"
    "unat (v2p data) < 234881024" "pg_aligned (v2p data)" "pg_aligned data"
proof -
  have d: "2148532224 < unat data" "unat data < 2382364672" and "pg_aligned data"
    using assms by (simp_all add: data_ok_def word_less_nat_alt p2v_def)
  then have "unat (v2p data) = unat data - 2147483648"
    unfolding v2p_def by (subst unat_minus_le) (simp_all add: word_le_nat_alt)
  with d show "unat data = 2147483648 + unat (v2p data)" "1048576 < unat (v2p data)"
    "unat (v2p data) < 234881024" by simp_all
  show "pg_aligned (v2p data)" "pg_aligned data" using \<open>pg_aligned data\<close> by simp_all
qed

lemma kmap_sizes:
  assumes "data_ok data"
  shows "unat (v2p data - v2p KERNLINK) = unat (v2p data) - 1048576"
    "unat (PHYSTOP - v2p data) = 234881024 - unat (v2p data)"
    "unat (0 - DEVSPACE :: u32) = 33554432"
proof -
  note d = data_okD [OF assms]
  have "v2p KERNLINK = 1048576" by (simp add: v2p_def)
  with d show "unat (v2p data - v2p KERNLINK) = unat (v2p data) - 1048576"
    by (subst unat_minus_le) (simp_all add: word_le_nat_alt)
  from d show "unat (PHYSTOP - v2p data) = 234881024 - unat (v2p data)"
    by (subst unat_minus_le) (simp_all add: word_le_nat_alt)
qed simp

text \<open>Which addresses each line of the table covers.\<close>

lemma in_kmap_lines:
  assumes "data_ok data"
  shows "in_kmap (KERNBASE, 0, EXTMEM, PTE_W) vb \<longleftrightarrow>
      2147483648 \<le> unat (PGROUNDDOWN vb) \<and> unat (PGROUNDDOWN vb) < 2148532224"
    and "in_kmap (KERNLINK, v2p KERNLINK, v2p data, 0) vb \<longleftrightarrow>
      2148532224 \<le> unat (PGROUNDDOWN vb) \<and> unat (PGROUNDDOWN vb) < unat data"
    and "in_kmap (data, v2p data, PHYSTOP, PTE_W) vb \<longleftrightarrow>
      unat data \<le> unat (PGROUNDDOWN vb) \<and> unat (PGROUNDDOWN vb) < 2382364672"
    and "in_kmap (DEVSPACE, DEVSPACE, 0, PTE_W) vb \<longleftrightarrow> 4261412864 \<le> unat (PGROUNDDOWN vb)"
proof -
  note d = data_okD [OF assms] and z = kmap_sizes [OF assms]
  show "in_kmap (KERNBASE, 0, EXTMEM, PTE_W) vb \<longleftrightarrow>
      2147483648 \<le> unat (PGROUNDDOWN vb) \<and> unat (PGROUNDDOWN vb) < 2148532224"
    by (simp add: in_kmap_def in_range_iff)
  show "in_kmap (KERNLINK, v2p KERNLINK, v2p data, 0) vb \<longleftrightarrow>
      2148532224 \<le> unat (PGROUNDDOWN vb) \<and> unat (PGROUNDDOWN vb) < unat data"
    unfolding in_kmap_def prod.case z(1) using d by (subst in_range_iff) simp_all
  show "in_kmap (data, v2p data, PHYSTOP, PTE_W) vb \<longleftrightarrow>
      unat data \<le> unat (PGROUNDDOWN vb) \<and> unat (PGROUNDDOWN vb) < 2382364672"
    unfolding in_kmap_def prod.case z(2) using d by (subst in_range_iff) auto
  show "in_kmap (DEVSPACE, DEVSPACE, 0, PTE_W) vb \<longleftrightarrow> 4261412864 \<le> unat (PGROUNDDOWN vb)"
    unfolding in_kmap_def prod.case z(3) using unat_lt_32 [of "PGROUNDDOWN vb"]
    by (subst in_range_iff) simp_all
qed

lemma kmap_ok:
  assumes "data_ok data"
  shows "\<forall>k\<in>set (kmap data). kmap_entry_ok k" "kmap_disjoint (kmap data)"
proof -
  note d = data_okD [OF assms] and z = kmap_sizes [OF assms]
  have "pg_aligned (v2p data - v2p KERNLINK)" "pg_aligned (PHYSTOP - v2p data)"
    using d(4) by (intro pg_aligned_minus; simp add: v2p_def pg_aligned_def)+
  then have "kmap_entry_ok (KERNLINK, v2p KERNLINK, v2p data, 0)"
      "kmap_entry_ok (data, v2p data, PHYSTOP, PTE_W)"
    using d z(1,2) by (auto simp: kmap_entry_ok_def pg_aligned_def word_eq_unat)
  then show "\<forall>k\<in>set (kmap data). kmap_entry_ok k"
    by (simp add: kmap_def) (simp add: kmap_entry_ok_def pg_aligned_def)
  show "kmap_disjoint (kmap data)"
    using d(1-3) by (auto simp: kmap_def in_kmap_lines [OF assms])
qed

text \<open>No line gives user access, and no line lies below \<open>KERNBASE\<close>.\<close>

lemma kernel_map_user:
  assumes "data_ok data" "va < KERNBASE"
  shows "kernel_map data va = 0"
proof -
  have "unat (PGROUNDDOWN va) \<le> unat va" by (simp add: unat_PGROUNDDOWN)
  moreover have "unat va < 2147483648" using assms(2) by (simp add: word_less_nat_alt)
  ultimately have "unat (PGROUNDDOWN va) < 2147483648" by simp
  then show ?thesis
    using data_okD(1,2) [OF assms(1)]
    by (simp add: kernel_map_def kmap_view_def kmap_def in_kmap_lines [OF assms(1)])
qed

lemma kernel_map_no_user:
  assumes "data_ok data"
  shows "\<not> bit (kernel_map data va) 2"
proof -
  have entry: "\<not> bit ((ps + (PGROUNDDOWN va - virt)) OR perm OR PTE_P) 2"
    if "pg_aligned ps" "pg_aligned virt" "perm = PTE_W \<or> perm = 0" for ps virt perm :: u32
  proof -
    have "pg_aligned (ps - (virt - PGROUNDDOWN va))"
      using that by (intro pg_aligned_minus) simp_all
    then have "pg_aligned (ps + (PGROUNDDOWN va - virt))" by (simp add: algebra_simps)
    then have "\<not> bit (ps + (PGROUNDDOWN va - virt)) 2"
      using pg_aligned_bits [of "ps + (PGROUNDDOWN va - virt)" 2] by auto
    then show ?thesis using that(3) by (auto simp: bit_or_iff)
  qed
  show ?thesis
  proof (cases "find (\<lambda>k. in_kmap k va) (kmap data)")
    case (Some k)
    obtain virt ps pe perm where k: "k = (virt, ps, pe, perm)" by (cases k)
    have "k \<in> set (kmap data)" using Some by (auto simp: find_Some_iff)
    then have "pg_aligned ps" "pg_aligned virt" "perm = PTE_W \<or> perm = 0"
      using data_okD(4,5) [OF assms] by (auto simp: k kmap_def pg_aligned_def v2p_def)
    then show ?thesis
      using entry Some by (simp add: kernel_map_def kmap_view_def k)
  qed (simp add: kernel_map_def kmap_view_def)
qed

section \<open>A new directory\<close>

lemma zeroed_pd:
  assumes "pg_aligned x" "kpage s x" "x \<notin> set xs" "\<And>y. PGROUNDDOWN y = x \<Longrightarrow> mem s y = 0"
  shows "wf_pd s x xs" "pgmap (mem s) x = (\<lambda>_. 0)" "pt_pages (mem s) x = {x}"
proof -
  have no: "\<not> has_pt (mem s) x va" for va
  proof -
    have "load32 (mem s) (slot x (PDX va)) = 0"
      by (rule load32_zero) (use assms(1,4) in \<open>simp_all add: PDX_bound\<close>)
    then show ?thesis by (simp add: has_pt_def pde_at_def)
  qed
  show "wf_pd s x xs" by (rule wf_pdI) (use assms no in simp_all)
  show "pgmap (mem s) x = (\<lambda>_. 0)" "pt_pages (mem s) x = {x}"
    by (simp_all add: pgmap_def pt_pages_def no fun_eq_iff)
qed

text \<open>What the outside sees of an operation that makes a new directory \<open>pd\<close>, or 0.\<close>

definition new_dir :: "'a kmem_scheme \<Rightarrow> u32 list \<Rightarrow> u32 \<Rightarrow> 'a kmem_scheme \<Rightarrow> u32 list \<Rightarrow> bool" where
  "new_dir s xs pd s' ys \<longleftrightarrow>
     s' = s\<lparr>mem := mem s', freelist := freelist s'\<rparr> \<and> free_pages s' ys \<and> (\<exists>zs. xs = zs @ ys)
     \<and> (\<forall>y. PGROUNDDOWN y \<notin> set xs \<longrightarrow> mem s' y = mem s y)
     \<and> (pd \<noteq> 0 \<longrightarrow> wf_pd s' pd ys \<and> pt_pages (mem s') pd \<subseteq> set xs - set ys)"

lemma setupkvm_new_dir:
  assumes "kmem_ok s" "free_pages s xs" "data_ok (data_sym s)"
  obtains pd s' ys where "setupkvm s = Ret pd s'" "new_dir s xs pd s' ys"
    "pd = 0 \<and> ys = [] \<or> pd \<noteq> 0 \<and> pgmap (mem s') pd = kernel_map (data_sym s)"
proof (cases xs)
  case Nil
  with assms have "setupkvm s = Ret 0 s" by (simp add: setupkvm_def kalloc_none)
  then show thesis
    by (rule that [where ys = xs]) (use assms(2) Nil in \<open>auto simp: new_dir_def\<close>)
next
  case (Cons x zs)
  define t where "t = s\<lparr>freelist := load32 (mem s) x, mem := memset (mem s) x 0 4096\<rparr>"
  have x: "kpage s x" "x \<notin> set zs" "pg_aligned x" "x \<noteq> 0"
    using assms(2) Cons kpage_nonzero [of s x] by (auto simp: free_pages_def dest: kpage_aligned)
  have frame: "mem t y = mem s y" if "PGROUNDDOWN y \<noteq> x" for y
    using that x(3) by (simp add: t_def memset_page_outside)
  have "free_pages (s\<lparr>freelist := load32 (mem s) x\<rparr>) zs"
    using kalloc_some(2) [OF assms(1)] assms(2) Cons by simp
  moreover have "mem t y = mem s y" if "PGROUNDDOWN y \<in> set zs" for y
    using that x(2) by (intro frame) auto
  ultimately have ft: "free_pages t zs"
    by (elim free_pages_frame) (simp_all add: t_def)
  have kp: "kpage t = kpage s" by (rule kpage_cong) (simp add: t_def)
  have z: "wf_pd t x zs" "pgmap (mem t) x = (\<lambda>_. 0)" "pt_pages (mem t) x = {x}"
    using x kp by (intro zeroed_pd; simp add: t_def memset_page_inside)+
  have "kmem_ok t" using assms(1) by (simp add: kmem_ok_def t_def)
  then obtain r s' ys where l: "setupkvm_loop x (kmap (data_sym s)) t = Ret r s'" "vm_frame x t zs s' ys"
      "r = x \<and> pgmap (mem s') x = kmap_view (kmap (data_sym s)) (pgmap (mem t) x) \<or> r = 0 \<and> ys = []"
    using setupkvm_loop_maps [OF _ z(1) ft x(4) kmap_ok [OF assms(3)]] z(2) by auto
  have "setupkvm s = Ret r s'"
    using l(1) kalloc_some(1) [OF assms(1), of x zs] assms(2) Cons x(4)
    by (simp add: setupkvm_def t_def p2v_def Let_def)
  moreover have "new_dir s xs r s' ys"
  proof -
    note v = vm_frameD [OF l(2)]
    have "s' = s\<lparr>mem := mem s', freelist := freelist s'\<rparr>"
      by (subst v(4)) (simp add: t_def)
    moreover have "mem s' y = mem s y" if "PGROUNDDOWN y \<notin> set xs" for y
      using that vm_frame_outside [OF l(2)] frame [of y] Cons z(3) by auto
    moreover have "pt_pages (mem s') x \<subseteq> set xs - set ys"
      using v(3,6) z(3) x(2) Cons by auto
    moreover have "\<exists>ws. xs = ws @ ys" using v(7) Cons by (metis append_Cons)
    ultimately show ?thesis using v(1,2) l(3) by (auto simp: new_dir_def)
  qed
  moreover have "r = 0 \<and> ys = [] \<or> r \<noteq> 0 \<and> pgmap (mem s') r = kernel_map (data_sym s)"
    using l(3) x(4) z(2) by (auto simp: kernel_map_def)
  ultimately show thesis by (rule that)
qed

section \<open>Properties\<close>

text \<open>
  C5: \<open>setupkvm\<close> returns. Either it runs out of pages and returns 0, or the new directory maps
  exactly what the table \<open>kmap\<close> says: no address below \<open>KERNBASE\<close> is mapped, and no page of
  the kernel is accessible from user code. It writes only to pages that were free.
\<close>

theorem setupkvm_correct:
  assumes "kmem_ok s" "free_pages s xs" "data_ok (data_sym s)"
  shows "runs (setupkvm s) (\<lambda>pd s'. \<exists>ys. new_dir s xs pd s' ys
    \<and> (pd = 0 \<and> ys = [] \<or> pd \<noteq> 0 \<and> pgmap (mem s') pd = kernel_map (data_sym s)
        \<and> (\<forall>va<KERNBASE. pgmap (mem s') pd va = 0)
        \<and> (\<forall>va. pgmap (mem s') pd va AND PTE_U = 0)))"
proof -
  obtain pd s' ys where "setupkvm s = Ret pd s'" "new_dir s xs pd s' ys"
    "pd = 0 \<and> ys = [] \<or> pd \<noteq> 0 \<and> pgmap (mem s') pd = kernel_map (data_sym s)"
    by (rule setupkvm_new_dir [OF assms])
  moreover have "kernel_map (data_sym s) va AND PTE_U = 0" for va
    using kernel_map_no_user [OF assms(3)] PTE_U_bit by blast
  moreover have "kernel_map (data_sym s) va = 0" if "va < KERNBASE" for va
    using that by (rule kernel_map_user [OF assms(3)])
  ultimately show ?thesis
    unfolding runs_iff by fastforce
qed

theorem setupkvm_correct_witness:
  "runs (setupkvm demo) (\<lambda>pd s'. \<exists>ys. new_dir demo demo_pages pd s' ys
    \<and> (pd = 0 \<and> ys = [] \<or> pd \<noteq> 0 \<and> pgmap (mem s') pd = kernel_map (data_sym demo)
        \<and> (\<forall>va<KERNBASE. pgmap (mem s') pd va = 0)
        \<and> (\<forall>va. pgmap (mem s') pd va AND PTE_U = 0)))"
  by (rule setupkvm_correct [OF demo_ok demo_free])
    (simp add: demo_def data_ok_def pg_aligned_def p2v_def)

end
