(* ===== verification/Vm_Copyout.thy ===== *)
theory Vm_Copyout
  imports Vm_Map
begin

text \<open>
  Access to user memory (\<^verbatim>\<open>vm.c\<close>): what a process sees at its virtual addresses, and that
  \<open>copyout\<close> changes exactly the bytes it is asked to change.
\<close>

section \<open>The user's view\<close>

text \<open>The page that holds the data of a virtual address, and the byte at that address.\<close>

definition data_page :: "memory \<Rightarrow> u32 \<Rightarrow> u32 \<Rightarrow> u32" where
  "data_page m pd va = p2v (PTE_ADDR (pgmap m pd va))"

definition uview :: "memory \<Rightarrow> u32 \<Rightarrow> u32 \<Rightarrow> u8" where
  "uview m pd va = m (data_page m pd va + (va - PGROUNDDOWN va))"

text \<open>
  The addresses of \<open>S\<close> are mapped for the user, to pages that are no part of the directory,
  different virtual pages to different pages.
\<close>

definition user_ok :: "memory \<Rightarrow> u32 \<Rightarrow> u32 set \<Rightarrow> bool" where
  "user_ok m pd S \<longleftrightarrow>
     (\<forall>va\<in>S. bit (pgmap m pd va) 0 \<and> bit (pgmap m pd va) 2 \<and> data_page m pd va \<notin> pt_pages m pd
        \<and> data_page m pd va \<noteq> 0)
     \<and> (\<forall>va\<in>S. \<forall>vb\<in>S. data_page m pd va = data_page m pd vb \<longrightarrow> PGROUNDDOWN va = PGROUNDDOWN vb)"

lemma user_okD:
  assumes "user_ok m pd S" "va \<in> S"
  shows "bit (pgmap m pd va) 0" "bit (pgmap m pd va) 2" "data_page m pd va \<notin> pt_pages m pd"
    "data_page m pd va \<noteq> 0"
  using assms unfolding user_ok_def by blast+

lemma pg_aligned_data_page [simp]: "pg_aligned (data_page m pd va)"
  by (simp add: data_page_def)

lemma data_page_page: "PGROUNDDOWN va = PGROUNDDOWN vb \<Longrightarrow> data_page m pd va = data_page m pd vb"
  unfolding data_page_def using pgmap_page [of va vb m pd] by simp

lemma offset_lt: "va - PGROUNDDOWN va < 4096"
  using in_page_iff [of "PGROUNDDOWN va" va] by simp

lemma uview_page [simp]: "PGROUNDDOWN (data_page m pd va + (va - PGROUNDDOWN va)) = data_page m pd va"
  by (rule PGROUNDDOWN_offset) (simp_all add: offset_lt)

section \<open>Writing a buffer\<close>

lemma write_bytes_apply:
  "length bs \<le> 4294967296 \<Longrightarrow>
   write_bytes m a bs y = (if unat (y - a) < length bs then bs ! unat (y - a) else m y)"
proof (induction bs arbitrary: m a)
  case (Cons b bs)
  show ?case
  proof (cases "y = a")
    case True
    have "unat (- 1 :: u32) = 4294967295" by (simp add: unat_m1)
    then show ?thesis using True Cons by simp
  next
    case False
    have "unat (y - (a + 1)) = unat (y - a) - 1" "0 < unat (y - a)"
    proof -
      have "y - a \<noteq> 0" using False by simp
      then show "0 < unat (y - a)" by (simp add: unat_gt_0)
      then have "unat (y - a - 1) = unat (y - a) - 1"
        by (subst unat_minus_le) (simp_all add: word_le_nat_alt)
      then show "unat (y - (a + 1)) = unat (y - a) - 1" by (simp add: diff_diff_eq)
    qed
    then show ?thesis
      using Cons False by (auto simp: nth_Cons split: nat.splits)
  qed
qed simp

lemma write_in_page:
  assumes "pg_aligned p" "unat off + length bs \<le> 4096"
  shows "PGROUNDDOWN y \<noteq> p \<Longrightarrow> write_bytes m (p + off) bs y = m y"
    and "i < 4096 \<Longrightarrow> write_bytes m (p + off) bs (p + of_nat i) =
      (if unat off \<le> i \<and> i < unat off + length bs then bs ! (i - unat off) else m (p + of_nat i))"
proof -
  note w = write_bytes_apply [of bs m "p + off"]
  have l: "length bs \<le> 4294967296" using assms(2) by simp
  have pb: "unat p \<le> 4294963200" by (rule pg_aligned_bound [OF assms(1)])
  have po: "unat (p + off) = unat p + unat off" if "bs \<noteq> []"
    using pb assms(2) that by (intro unat_plus_no_wrap) (cases bs, auto)
  show "write_bytes m (p + off) bs y = m y" if ne: "PGROUNDDOWN y \<noteq> p"
  proof -
    have "\<not> unat (y - (p + off)) < length bs"
    proof
      assume lt: "unat (y - (p + off)) < length bs"
      then have "bs \<noteq> []" by auto
      have "unat (off + (y - (p + off))) = unat off + unat (y - (p + off))"
        using lt assms(2) by (intro unat_plus_no_wrap) simp
      then have "unat (y - p) < 4096" using lt assms(2) by (simp add: algebra_simps)
      then have "y - p < 4096" by (simp add: word_less_nat_alt)
      with ne in_page_iff [OF assms(1)] show False by simp
    qed
    then show ?thesis using w [OF l] by simp
  qed
  show "write_bytes m (p + off) bs (p + of_nat i) =
      (if unat off \<le> i \<and> i < unat off + length bs then bs ! (i - unat off) else m (p + of_nat i))"
    if i: "i < 4096"
  proof -
    have iu: "unat (of_nat i :: u32) = i" using i by (simp add: unat_of_nat_32)
    have d: "p + of_nat i - (p + off) = of_nat i - off" by simp
    show ?thesis
    proof (cases "unat off \<le> i")
      case True
      then have "unat (of_nat i - off) = i - unat off"
        by (subst unat_minus_le) (simp_all add: word_le_nat_alt iu)
      then show ?thesis using w [OF l, of "p + of_nat i"] True unfolding d by auto
    next
      case False
      then have "unat (of_nat i - off) = 4294967296 + i - unat off"
        using unat_minus_wrap [of off "of_nat i"] iu by simp
      moreover have "unat off \<le> 4096" using assms(2) by simp
      ultimately have "\<not> unat (of_nat i - off) < length bs"
        using assms(2) False by simp
      then show ?thesis using w [OF l, of "p + of_nat i"] False unfolding d by auto
    qed
  qed
qed

section \<open>The loop of \<open>copyout\<close>\<close>

text \<open>One page: the bytes of the page of \<open>va\<close> from \<open>va\<close> on are replaced.\<close>

lemma copyout_page:
  fixes bs :: "u8 list" and va :: u32
  assumes "wf_pd s pd xs" "user_ok (mem s) pd S" "va \<in> S"
    and "unat (va - PGROUNDDOWN va) + length bs \<le> 4096"
  defines "m' \<equiv> write_bytes (mem s) (data_page (mem s) pd va + (va - PGROUNDDOWN va)) bs"
  shows "pgmap m' pd = pgmap (mem s) pd" "pt_pages m' pd = pt_pages (mem s) pd"
    and "vb \<in> S \<Longrightarrow> uview m' pd vb =
      (if unat (vb - va) < length bs then bs ! unat (vb - va) else uview (mem s) pd vb)"
    and "PGROUNDDOWN y \<noteq> data_page (mem s) pd va \<Longrightarrow> m' y = mem s y"
proof -
  let ?D = "data_page (mem s) pd" and ?off = "va - PGROUNDDOWN va"
  show out: "m' y = mem s y" if "PGROUNDDOWN y \<noteq> ?D va" for y
    unfolding m'_def using that assms(4) by (intro write_in_page(1)) simp_all
  have Dva: "?D va \<notin> pt_pages (mem s) pd" using assms(2,3) by (simp add: user_ok_def)
  have pt: "m' y = mem s y" if "PGROUNDDOWN y \<in> pt_pages (mem s) pd" for y
    using that Dva by (intro out) auto
  have al: "pg_aligned pd" by (rule wf_pd_aligned [OF assms(1)])
  show pm: "pgmap m' pd = pgmap (mem s) pd" and "pt_pages m' pd = pt_pages (mem s) pd"
    by (rule pt_frame [OF al pt]; assumption)+
  then have D: "data_page m' pd = ?D" by (simp add: data_page_def fun_eq_iff)
  show "uview m' pd vb = (if unat (vb - va) < length bs then bs ! unat (vb - va) else uview (mem s) pd vb)"
    if vb: "vb \<in> S"
  proof (cases "PGROUNDDOWN vb = PGROUNDDOWN va")
    case True
    let ?i = "unat (vb - PGROUNDDOWN vb)"
    have i: "?i < 4096" using offset_lt [of vb] by (simp add: word_less_nat_alt)
    have "uview m' pd vb = write_bytes (mem s) (?D va + ?off) bs (?D va + of_nat ?i)"
      using data_page_page [OF True, of "mem s" pd] by (simp add: uview_def D) (simp add: m'_def)
    also have "\<dots> = (if unat ?off \<le> ?i \<and> ?i < unat ?off + length bs then bs ! (?i - unat ?off)
        else mem s (?D va + of_nat ?i))"
      by (rule write_in_page(2) [OF _ assms(4) i]) simp
    finally have u: "uview m' pd vb = (if unat ?off \<le> ?i \<and> ?i < unat ?off + length bs
        then bs ! (?i - unat ?off) else uview (mem s) pd vb)"
      using data_page_page [OF True, of "mem s" pd] by (simp add: uview_def)
    have diff: "vb - va = (vb - PGROUNDDOWN vb) - ?off" using True by simp
    show ?thesis
    proof (cases "unat ?off \<le> ?i")
      case le: True
      then have "unat (vb - va) = ?i - unat ?off"
        unfolding diff by (subst unat_minus_le) (simp_all add: word_le_nat_alt)
      then show ?thesis using u le by auto
    next
      case gt: False
      then have "unat (vb - va) = 4294967296 + ?i - unat ?off"
        unfolding diff by (rule unat_minus_wrap)
      then have "\<not> unat (vb - va) < length bs" using assms(4) gt by simp
      then show ?thesis using u gt by auto
    qed
  next
    case False
    then have ne: "?D vb \<noteq> ?D va" using assms(2,3) vb unfolding user_ok_def by blast
    have "\<not> unat (vb - va) < length bs"
    proof
      assume lt: "unat (vb - va) < length bs"
      have "unat (?off + (vb - va)) = unat ?off + unat (vb - va)"
        using lt assms(4) by (intro unat_plus_no_wrap) simp
      then have "vb - PGROUNDDOWN va < 4096"
        using lt assms(4) by (simp add: word_less_nat_alt)
      then show False using False in_page_iff [of "PGROUNDDOWN va" vb] by simp
    qed
    then show ?thesis using ne by (simp add: uview_def D out)
  qed
qed

lemma uva2ka_user:
  assumes "wf_pd s pd xs" "bit (pgmap (mem s) pd va) 0" "bit (pgmap (mem s) pd va) 2"
  shows "uva2ka pd (PGROUNDDOWN va) s = Ret (data_page (mem s) pd va) s"
proof -
  have g: "pgmap (mem s) pd (PGROUNDDOWN va) = pgmap (mem s) pd va" by simp
  then have has: "has_pt (mem s) pd (PGROUNDDOWN va)"
    using assms(2) by (intro present_has_pt) simp
  then have "load32 (mem s) (pte_addr (mem s) pd (PGROUNDDOWN va)) = pgmap (mem s) pd va"
    using g by (metis pgmap_def)
  then show ?thesis
    using has pte_addr_nonzero [OF assms(1) has] assms(2,3) PTE_P_bit [of "pgmap (mem s) pd va"]
      PTE_U_bit [of "pgmap (mem s) pd va"]
    by (simp add: uva2ka_def walkpgdir_found data_page_def)
qed

text \<open>Reading a buffer in two pieces.\<close>

lemma buffer_split:
  fixes va vb :: u32
  assumes "n \<le> length buf" "length buf \<le> 4294967296" "0 < n" "n < 4294967296"
  shows "(if unat (vb - (va + of_nat n)) < length (drop n buf) then drop n buf ! unat (vb - (va + of_nat n))
          else if unat (vb - va) < length (take n buf) then take n buf ! unat (vb - va) else z)
    = (if unat (vb - va) < length buf then buf ! unat (vb - va) else z)"
proof -
  have d: "vb - (va + of_nat n) = (vb - va) - of_nat n" by (simp add: diff_diff_eq)
  have nn: "unat (of_nat n :: u32) = n" using assms(4) by (rule unat_of_nat_32)
  show ?thesis
  proof (cases "n \<le> unat (vb - va)")
    case True
    then have "unat (vb - (va + of_nat n)) = unat (vb - va) - n"
      unfolding d by (subst unat_minus_le) (simp_all add: word_le_nat_alt nn)
    then show ?thesis using True assms(1) by auto
  next
    case False
    then have "unat (vb - (va + of_nat n)) = 4294967296 + unat (vb - va) - n"
      unfolding d using unat_minus_wrap [of "of_nat n" "vb - va"] nn by simp
    then show ?thesis using False assms(1,2) by auto
  qed
qed

lemma copyout_loop_writes:
  assumes "wf_pd s pd xs" "user_ok (mem s) pd S" "\<forall>i<length buf. va + of_nat i \<in> S"
    and "unat va + length buf \<le> 4294967296" "length buf < k"
  shows "\<exists>s'. copyout_loop k pd va buf s = Ret 0 s' \<and> s' = s\<lparr>mem := mem s'\<rparr>
    \<and> pgmap (mem s') pd = pgmap (mem s) pd \<and> pt_pages (mem s') pd = pt_pages (mem s) pd
    \<and> (\<forall>vb\<in>S. uview (mem s') pd vb =
          (if unat (vb - va) < length buf then buf ! unat (vb - va) else uview (mem s) pd vb))
    \<and> (\<forall>y. PGROUNDDOWN y \<notin> data_page (mem s) pd ` S \<longrightarrow> mem s' y = mem s y)"
  using assms
proof (induction k arbitrary: va buf s)
  case (Suc k va buf s)
  show ?case
  proof (cases "buf = []")
    case True
    then show ?thesis by (intro exI [of _ s]) simp
  next
    case False
    let ?off = "va - PGROUNDDOWN va"
    define n where "n = min (4096 - unat ?off) (length buf)"
    have off: "unat ?off < 4096" using offset_lt [of va] by (simp add: word_less_nat_alt)
    have n: "0 < n" "n \<le> length buf" "n < 4294967296" "unat ?off + n \<le> 4096"
      using False off by (auto simp: n_def)
    have vaS: "va \<in> S" using Suc.prems(3) [rule_format, of 0] False by simp
    define t where "t = s\<lparr>mem := write_bytes (mem s) (data_page (mem s) pd va + ?off) (take n buf)\<rparr>"
    have "unat ?off + length (take n buf) \<le> 4096" using n by simp
    note cp = copyout_page [OF Suc.prems(1,2) vaS this]
    have pm: "pgmap (mem t) pd = pgmap (mem s) pd" "pt_pages (mem t) pd = pt_pages (mem s) pd"
      and uv: "\<And>vb. vb \<in> S \<Longrightarrow> uview (mem t) pd vb = (if unat (vb - va) < length (take n buf)
          then take n buf ! unat (vb - va) else uview (mem s) pd vb)"
      and out: "\<And>y. PGROUNDDOWN y \<noteq> data_page (mem s) pd va \<Longrightarrow> mem t y = mem s y"
      using cp by (simp_all add: t_def)
    have D: "data_page (mem t) pd = data_page (mem s) pd" by (simp add: data_page_def pm fun_eq_iff)
    have step: "copyout_loop (Suc k) pd va buf s = copyout_loop k pd (PGROUNDDOWN va + 4096) (drop n buf) t"
      using user_okD [OF Suc.prems(2) vaS] False uva2ka_user [OF Suc.prems(1), of va]
      by (simp add: t_def n_def Let_def)
    show ?thesis
    proof (cases "n = length buf")
      case True
      obtain k' where "k = Suc k'" using Suc.prems(5) False by (cases k) auto
      then have "copyout_loop (Suc k) pd va buf s = Ret 0 t" using step True by simp
      moreover have "mem t y = mem s y" if "PGROUNDDOWN y \<notin> data_page (mem s) pd ` S" for y
        using that vaS by (intro out) auto
      ultimately show ?thesis
        using pm uv True by (intro exI [of _ t]) (simp add: t_def)
    next
      case False
      then have n': "n = 4096 - unat ?off" "n < length buf" using n(2) by (auto simp: n_def)
      have "of_nat n = 4096 - ?off"
        using off by (simp add: n'(1) of_nat_diff)
      then have va': "PGROUNDDOWN va + 4096 = va + of_nat n" by simp
      have un: "unat (va + of_nat n) = unat va + n"
        using Suc.prems(4) n'(2) by (intro unat_plus_of_nat) simp
      have "\<forall>i<length (drop n buf). (va + of_nat n) + of_nat i \<in> S"
      proof (intro allI impI)
        fix i assume "i < length (drop n buf)"
        then have "va + of_nat (n + i) \<in> S" by (intro Suc.prems(3) [rule_format]) simp
        then show "(va + of_nat n) + of_nat i \<in> S" by (simp add: add.assoc)
      qed
      moreover have "wf_pd t pd xs"
        by (rule wf_pd_cong [OF Suc.prems(1)])
          (use user_okD(3) [OF Suc.prems(2) vaS] in \<open>auto simp: t_def intro!: cp(4)\<close>)
      moreover have "user_ok (mem t) pd S"
        using Suc.prems(2) unfolding user_ok_def D pm .
      moreover have "unat (va + of_nat n) + length (drop n buf) \<le> 4294967296"
        "length (drop n buf) < k" using Suc.prems(4,5) un n by auto
      ultimately obtain s' where s': "copyout_loop k pd (va + of_nat n) (drop n buf) t = Ret 0 s'"
        "s' = t\<lparr>mem := mem s'\<rparr>" "pgmap (mem s') pd = pgmap (mem t) pd"
        "pt_pages (mem s') pd = pt_pages (mem t) pd"
        "\<forall>vb\<in>S. uview (mem s') pd vb = (if unat (vb - (va + of_nat n)) < length (drop n buf)
            then drop n buf ! unat (vb - (va + of_nat n)) else uview (mem t) pd vb)"
        "\<forall>y. PGROUNDDOWN y \<notin> data_page (mem t) pd ` S \<longrightarrow> mem s' y = mem t y"
        using Suc.IH [where s = t and va = "va + of_nat n" and buf = "drop n buf"] by blast
      have "s' = s\<lparr>mem := mem s'\<rparr>" by (subst s'(2)) (simp add: t_def)
      moreover have "uview (mem s') pd vb =
          (if unat (vb - va) < length buf then buf ! unat (vb - va) else uview (mem s) pd vb)"
        if "vb \<in> S" for vb
        unfolding s'(5) [rule_format, OF that] uv [OF that]
        by (rule buffer_split [OF n(2) _ n(1,3)]) (use Suc.prems(4) in simp)
      moreover have "mem s' y = mem s y" if "PGROUNDDOWN y \<notin> data_page (mem s) pd ` S" for y
        using that vaS s'(6) D out [of y] by auto
      ultimately show ?thesis
        using s'(1,3,4) pm step va' by (intro exI [of _ s']) simp
    qed
  qed
qed simp

section \<open>Properties\<close>

text \<open>
  C8: \<open>copyout\<close> to addresses that are mapped for the user returns 0; afterwards the process sees
  the buffer at those addresses and everything else as before, its mappings are unchanged, and
  no memory outside its data pages has changed.
\<close>

theorem copyout_correct:
  assumes "wf_pd s pd xs" "user_ok (mem s) pd S" "\<forall>i<length buf. va + of_nat i \<in> S"
    and "unat va + length buf \<le> 4294967296"
  shows "runs (copyout pd va buf s) (\<lambda>r s'. r = 0 \<and> pgmap (mem s') pd = pgmap (mem s) pd
    \<and> (\<forall>vb\<in>S. uview (mem s') pd vb =
          (if unat (vb - va) < length buf then buf ! unat (vb - va) else uview (mem s) pd vb))
    \<and> (\<forall>y. PGROUNDDOWN y \<notin> data_page (mem s) pd ` S \<longrightarrow> mem s' y = mem s y))"
  using copyout_loop_writes [OF assms, of "Suc (length buf)"]
  unfolding copyout_def runs_iff by blast

theorem copyout_correct_witness:
  "\<exists>s :: vmst. runs (copyout 0x80100000 0x1FFE [7, 8] s) (\<lambda>r s'. r = 0
     \<and> uview (mem s') 0x80100000 0x1FFF = 8)"
proof -
  obtain s xs where s: "vm_frame 0x80100000 demo demo_pages s xs"
    "\<And>vb. pgmap (mem s) 0x80100000 vb = (if PGROUNDDOWN vb = 0x1000 then 0x200007 else 0)"
    by (rule demo_mapped) blast
  let ?S = "{vb. PGROUNDDOWN vb = 0x1000}"
  have pg: "PGROUNDDOWN 0x1FFE = 0x1000" "PGROUNDDOWN 0x1FFF = 0x1000" by (simp_all add: PGROUNDDOWN_def)
  have D: "data_page (mem s) 0x80100000 vb = 0x80200000" if "PGROUNDDOWN vb = 0x1000" for vb
    using that s(2) [of vb] by (simp add: data_page_def PTE_ADDR_def p2v_def)
  have "pt_pages (mem s) 0x80100000 \<subseteq> pt_pages (mem demo) 0x80100000 \<union> set demo_pages"
    using vm_frameD(6) [OF s(1)] by blast
  moreover have "pt_pages (mem demo) 0x80100000 = {0x80100000}"
    by (simp add: pt_pages_def demo_def demo_no_pt)
  ultimately have "0x80200000 \<notin> pt_pages (mem s) 0x80100000"
    by (auto simp: demo_pages_def)
  moreover have "bit (0x200007 :: u32) 0" "bit (0x200007 :: u32) 2" by simp_all
  ultimately have "user_ok (mem s) 0x80100000 ?S"
    unfolding user_ok_def using D s(2) by simp
  moreover have "\<forall>i<length [7, 8 :: u8]. 0x1FFE + of_nat i \<in> ?S"
    using pg by (auto simp: less_Suc_eq)
  ultimately have "runs (copyout 0x80100000 0x1FFE [7, 8] s) (\<lambda>r s'. r = 0
    \<and> pgmap (mem s') 0x80100000 = pgmap (mem s) 0x80100000
    \<and> (\<forall>vb\<in>?S. uview (mem s') 0x80100000 vb = (if unat (vb - 0x1FFE) < length [7, 8 :: u8]
          then [7, 8] ! unat (vb - 0x1FFE) else uview (mem s) 0x80100000 vb))
    \<and> (\<forall>y. PGROUNDDOWN y \<notin> data_page (mem s) 0x80100000 ` ?S \<longrightarrow> mem s' y = mem s y))"
    by (intro copyout_correct [OF vm_frameD(2) [OF s(1)]]) simp_all
  then show ?thesis
    using pg(2) by (intro exI [of _ s]) (auto elim!: runs_mono)
qed

end
