(* ===== verification/Vm_Copy.thy ===== *)
theory Vm_Copy
  imports Vm_Kvm Vm_Copyout
begin

text \<open>
  Copying an address space for \<open>fork\<close> (\<^verbatim>\<open>vm.c\<close>): \<open>copyuvm\<close> gives the child the same bytes and
  the same permissions at the same addresses, in pages of its own.
\<close>

section \<open>Copying pages\<close>

lemma memmove_page:
  assumes "pg_aligned p" "pg_aligned q" "unat q < 4294963200"
  shows "PGROUNDDOWN y \<noteq> p \<Longrightarrow> memmove m p q 4096 y = m y"
    and "off < 4096 \<Longrightarrow> memmove m p q 4096 (p + off) = m (q + off)"
proof -
  have "unat q + unat (4096 :: u32) < 4294967296" "unat p + unat (4096 :: u32) \<le> 4294967296"
    using assms(3) pg_aligned_bound [OF assms(1)] by simp_all
  note mm = memmove_apply [OF this, of m]
  show "memmove m p q 4096 y = m y" if "PGROUNDDOWN y \<noteq> p"
    using that in_page_iff [OF assms(1)] by (simp add: mm)
  show "memmove m p q 4096 (p + off) = m (q + off)" if "off < 4096"
    using that by (simp add: mm)
qed

lemma kpage_bound: "kpage s p \<Longrightarrow> unat p < 4294963200"
  using kpage_range [of p] by (simp add: kpage_def word_less_nat_alt)

text \<open>What the parent must provide: pages that the copy leaves alone.\<close>

definition parent_page :: "'a kmem_scheme \<Rightarrow> u32 \<Rightarrow> u32 \<Rightarrow> u32 list \<Rightarrow> u32 \<Rightarrow> bool" where
  "parent_page s pd d xs vb \<longleftrightarrow>
     bit (pgmap (mem s) pd vb) 0 \<and> kpage s (data_page (mem s) pd vb)
     \<and> data_page (mem s) pd vb \<notin> set xs \<and> data_page (mem s) pd vb \<notin> pt_pages (mem s) d"

lemma parent_page_frame:
  assumes "vm_frame d s xs s' ys" "wf_pd s pd xs" "pt_pages (mem s) pd \<inter> pt_pages (mem s) d = {}"
    and "parent_page s pd d xs vb"
  shows "parent_page s' pd d ys vb" "data_page (mem s') pd vb = data_page (mem s) pd vb"
    "off < 4096 \<Longrightarrow> mem s' (data_page (mem s) pd vb + off) = mem s (data_page (mem s) pd vb + off)"
proof -
  have pm: "pgmap (mem s') pd = pgmap (mem s) pd" by (rule vm_frame_other(2) [OF assms(1-3)])
  then show D: "data_page (mem s') pd vb = data_page (mem s) pd vb" by (simp add: data_page_def)
  show "parent_page s' pd d ys vb"
    using assms(4) vm_frameD(3,6) [OF assms(1)] vm_frame_fields(5) [OF assms(1)]
    unfolding parent_page_def D pm by auto
  show "mem s' (data_page (mem s) pd vb + off) = mem s (data_page (mem s) pd vb + off)" if "off < 4096"
    using that assms(4) unfolding parent_page_def
    by (intro vm_frame_outside [OF assms(1)]) (simp_all add: PGROUNDDOWN_offset)
qed

text \<open>One round of the loop, up to the call of \<open>mappages\<close> and after it.\<close>

lemma copy_round:
  assumes "kmem_ok s" "wf_pd s d (x # xs)" "free_pages s (x # xs)" "wf_pd s pd (x # xs)"
    and "pt_pages (mem s) pd \<inter> pt_pages (mem s) d = {}" "pg_aligned i"
    and "parent_page s pd d (x # xs) i" "\<not> bit (pgmap (mem s) d i) 0" "i < lim"
  obtains r :: int and s' ys where "vm_frame d s (x # xs) s' ys" "length xs \<le> Suc (length ys)" "x \<notin> set ys"
    "x \<notin> pt_pages (mem s') d" "\<forall>off<4096. mem s' (x + off) = mem s (data_page (mem s) pd i + off)"
    "copyuvm_loop (Suc n) pd d i lim s =
      (if r < 0 then Ret None s' else copyuvm_loop n pd d (i + 4096) lim s')"
    "r = 0 \<and> (\<forall>vb. pgmap (mem s') d vb = (if PGROUNDDOWN vb = i
         then v2p x OR PTE_FLAGS (pgmap (mem s) pd vb) OR PTE_P else pgmap (mem s) d vb))
     \<or> r = -1 \<and> xs = [] \<and> ys = [] \<and> pgmap (mem s') d = pgmap (mem s) d"
proof -
  let ?D = "data_page (mem s) pd i"
  let ?fl = "PTE_FLAGS (pgmap (mem s) pd i)"
  have p: "bit (pgmap (mem s) pd i) 0" "kpage s ?D" "?D \<noteq> x" "?D \<notin> set xs" "?D \<notin> pt_pages (mem s) d"
    using assms(7) by (auto simp: parent_page_def)
  have x: "x \<notin> set xs" "pg_aligned x" "x \<noteq> 0"
    using assms(3) kpage_nonzero [of s x] by (auto simp: free_pages_def dest: kpage_aligned)
  have xd: "x \<notin> pt_pages (mem s) d" using pt_pages_free [OF assms(2)] by auto
  define t where "t = s\<lparr>freelist := load32 (mem s) x, mem := memmove (mem s) x ?D 4096\<rparr>"
  note mp = memmove_page [OF x(2) pg_aligned_data_page [of "mem s" pd i] kpage_bound [OF p(2)], where m = "mem s"]
  have tf: "vm_frame d s (x # xs) t xs" "pgmap (mem t) d = pgmap (mem s) d"
    "pt_pages (mem t) d = pt_pages (mem s) d"
    unfolding t_def by (rule take_page_frame [OF assms(1-3)]; use mp(1) in simp)+
  have nb: "\<not> bit (pgmap (mem t) d i) 0" using assms(8) tf(2) by simp
  have kt: "kmem_ok t" using vm_frame_fields(4) [OF tf(1)] assms(1) by simp
  obtain r s' ys where m: "mappages d i 4096 (v2p x) ?fl t = Ret r s'" "vm_frame d t xs s' ys"
    "length xs \<le> Suc (length ys)"
    "r = 0 \<and> (\<forall>vb. pgmap (mem s') d vb =
        (if PGROUNDDOWN vb = i then v2p x OR ?fl OR PTE_P else pgmap (mem t) d vb))
     \<or> r = -1 \<and> xs = [] \<and> ys = [] \<and> pgmap (mem s') d = pgmap (mem t) d"
    by (rule mappages_page [OF kt vm_frameD(2,1) [OF tf(1)] assms(6) nb, where pa = "v2p x" and perm = ?fl])
  have has: "has_pt (mem s) pd i" using p(1) by (rule present_has_pt)
  then have pte: "load32 (mem s) (pte_addr (mem s) pd i) = pgmap (mem s) pd i" by (simp add: pgmap_def)
  have step: "copyuvm_loop (Suc n) pd d i lim s =
      (if r < 0 then Ret None s' else copyuvm_loop n pd d (i + 4096) lim s')"
    using assms(9) walkpgdir_found [OF has] pte_addr_nonzero [OF assms(4) has] pte p(1)
      PTE_P_bit [of "pgmap (mem s) pd i"] kalloc_some(1) [OF assms(1,3)] x(3) m(1)
    by (simp add: t_def data_page_def Let_def)
  have xys: "x \<notin> set ys" using x(1) vm_frameD(3) [OF m(2)] by auto
  have xpt: "x \<notin> pt_pages (mem s') d"
    using vm_frameD(6) [OF m(2)] tf(3) xd x(1) by auto
  have bytes: "\<forall>off<4096. mem s' (x + off) = mem s (?D + off)"
  proof (intro allI impI)
    fix off :: u32 assume that: "off < 4096"
    have "mem s' (x + off) = mem t (x + off)"
      using that x xd tf(3) by (intro vm_frame_outside [OF m(2)]) (simp_all add: PGROUNDDOWN_offset)
    then show "mem s' (x + off) = mem s (?D + off)" using mp(2) [OF that] by (simp add: t_def)
  qed
  have "pgmap (mem s) pd vb = pgmap (mem s) pd i" if "PGROUNDDOWN vb = i" for vb
    using that assms(6) by (intro pgmap_page) (simp add: pg_aligned_iff)
  then have disj: "r = 0 \<and> (\<forall>vb. pgmap (mem s') d vb = (if PGROUNDDOWN vb = i
         then v2p x OR PTE_FLAGS (pgmap (mem s) pd vb) OR PTE_P else pgmap (mem s) d vb))
     \<or> r = -1 \<and> xs = [] \<and> ys = [] \<and> pgmap (mem s') d = pgmap (mem s) d"
    using m(4) tf(2) by presburger
  show thesis
    by (rule that [where r = r]) (fact vm_frame_trans [OF tf(1) m(2)] m(3) xys xpt bytes step disj)+
qed

lemma range_page:
  assumes "pg_aligned i" "j < k" "unat i + 4096 * k < 4294967296 + 4096"
  shows "unat (PGROUNDDOWN (i + 4096 * of_nat j) - i) < 4096 * k"
proof -
  have u: "unat (4096 * of_nat j :: u32) = 4096 * j"
    using unat_of_nat_32 [of "4096 * j"] assms(2,3) by simp
  moreover have "unat (i + 4096 * of_nat j) = unat i + 4096 * j"
    using unat_plus_of_nat [of i "4096 * j"] assms(2,3) by simp
  ultimately have "pg_aligned (i + 4096 * of_nat j)"
    using assms(1) by (simp add: pg_aligned_def)
  then show ?thesis using u assms(2) by (simp add: pg_aligned_iff)
qed

text \<open>The loop: \<open>ps\<close> are the pages of the child, in order.\<close>

definition copied :: "'a kmem_scheme \<Rightarrow> u32 \<Rightarrow> u32 \<Rightarrow> u32 list \<Rightarrow> 'b kmem_scheme \<Rightarrow> bool" where
  "copied s pd i ps s' \<longleftrightarrow> (\<forall>l<length ps. \<forall>off<4096.
     mem s' (ps ! l + off) = mem s (data_page (mem s) pd (i + 4096 * of_nat l) + off))"

lemma copyuvm_loop_copies:
  assumes "kmem_ok s" "wf_pd s d xs" "free_pages s xs" "wf_pd s pd xs"
    and "pt_pages (mem s) pd \<inter> pt_pages (mem s) d = {}" "pg_aligned i"
    and "unat lim \<le> unat i + 4096 * k" "\<forall>j<k. unat i + 4096 * j < unat lim"
    and "unat i + 4096 * k < 4294967296" "k < n"
    and "\<And>vb. unat (PGROUNDDOWN vb - i) < 4096 * k \<Longrightarrow>
          parent_page s pd d xs vb \<and> \<not> bit (pgmap (mem s) d vb) 0"
  shows "\<exists>r s' ys ps. copyuvm_loop n pd d i lim s = Ret r s' \<and> vm_frame d s xs s' ys
    \<and> distinct ps \<and> set ps \<subseteq> set xs - set ys \<and> set ps \<inter> pt_pages (mem s') d = {}
    \<and> pgmap (mem s') d = map_pages (\<lambda>vb. PTE_FLAGS (pgmap (mem s) pd vb) OR PTE_P) (pgmap (mem s) d) i ps
    \<and> copied s pd i ps s'
    \<and> (r = Some () \<and> length ps = k \<or> r = None \<and> length ps < k \<and> ys = [])"
  using assms
proof (induction k arbitrary: n i s xs)
  case (0 n i s xs)
  obtain n' where "n = Suc n'" using 0 by (cases n) auto
  moreover have "\<not> i < lim" using 0 by (simp add: word_less_nat_alt)
  ultimately have "copyuvm_loop n pd d i lim s = Ret (Some ()) s" by simp
  then show ?case using vm_frame_refl [OF 0(2,3)]
    by (intro exI [of _ "Some ()"] exI [of _ s] exI [of _ xs] exI [of _ "[]"]) (simp add: copied_def)
next
  case (Suc k n i s xs)
  obtain n' where n: "n = Suc n'" using Suc.prems by (cases n) auto
  have lt: "i < lim" using Suc.prems(8) [rule_format, of 0] by (simp add: word_less_nat_alt)
  have pi: "parent_page s pd d xs i" "\<not> bit (pgmap (mem s) d i) 0"
    using Suc.prems(6) Suc.prems(11) [of i] by (simp_all add: pg_aligned_iff)
  show ?case
  proof (cases xs)
    case Nil
    have has: "has_pt (mem s) pd i" using pi(1) by (auto simp: parent_page_def intro: present_has_pt)
    then have "load32 (mem s) (pte_addr (mem s) pd i) AND PTE_P \<noteq> 0"
      using pi(1) PTE_P_bit [of "pgmap (mem s) pd i"] by (simp add: parent_page_def pgmap_def)
    then have "copyuvm_loop n pd d i lim s = Ret None s"
      using n lt walkpgdir_found [OF has] pte_addr_nonzero [OF Suc.prems(4) has]
        kalloc_none [OF Suc.prems(1)] Suc.prems(3) Nil by (simp add: Let_def)
    then show ?thesis
      using vm_frame_refl [OF Suc.prems(2,3)] Nil
      by (intro exI [of _ None] exI [of _ s] exI [of _ "[]"] exI [of _ "[]"]) (simp add: copied_def)
  next
    case (Cons x zs)
    obtain r :: int and u ys where "vm_frame d s (x # zs) u ys" "length zs \<le> Suc (length ys)"
      and c: "x \<notin> set ys" "x \<notin> pt_pages (mem u) d"
      "\<forall>off<4096. mem u (x + off) = mem s (data_page (mem s) pd i + off)"
      "copyuvm_loop (Suc n') pd d i lim s =
        (if r < 0 then Ret None u else copyuvm_loop n' pd d (i + 4096) lim u)"
      "r = 0 \<and> (\<forall>vb. pgmap (mem u) d vb = (if PGROUNDDOWN vb = i
           then v2p x OR PTE_FLAGS (pgmap (mem s) pd vb) OR PTE_P else pgmap (mem s) d vb))
       \<or> r = -1 \<and> zs = [] \<and> ys = [] \<and> pgmap (mem u) d = pgmap (mem s) d"
      by (rule copy_round [OF Suc.prems(1) Suc.prems(2-4) [unfolded Cons] Suc.prems(5,6)
            pi(1) [unfolded Cons] pi(2) lt, where n = n'])
    then have f: "vm_frame d s xs u ys" using Cons by simp
    show ?thesis
    proof (cases "r = 0")
      case False
      then have "copyuvm_loop n pd d i lim s = Ret None u" "ys = []" "pgmap (mem u) d = pgmap (mem s) d"
        using c(4,5) n by auto
      then show ?thesis using f
        by (intro exI [of _ None] exI [of _ u] exI [of _ "[]"] exI [of _ "[]"]) (simp add: copied_def)
    next
      case True
      have g: "pgmap (mem u) d = (\<lambda>vb. if PGROUNDDOWN vb = i
           then v2p x OR (PTE_FLAGS (pgmap (mem s) pd vb) OR PTE_P) else pgmap (mem s) d vb)"
        using c(5) True by (auto simp: fun_eq_iff or.assoc)
      note other = vm_frame_other [OF f Suc.prems(4,5)]
      have up: "unat (i + 4096) = unat i + 4096"
        using unat_plus_no_wrap [of i 4096] Suc.prems(9) by simp
      have pp: "parent_page u pd d ys vb \<and> \<not> bit (pgmap (mem u) d vb) 0"
        if "unat (PGROUNDDOWN vb - (i + 4096)) < 4096 * k" for vb
      proof -
        have "unat (PGROUNDDOWN vb - i) < 4096 * Suc k" "PGROUNDDOWN vb \<noteq> i"
          using in_range_Suc [OF Suc.prems(6), of k vb] Suc.prems(6,9) that by (auto simp: pg_aligned_iff)
        then show ?thesis
          using Suc.prems(11) [of vb] parent_page_frame(1) [OF f Suc.prems(4,5)] by (simp add: g)
      qed
      moreover have "\<forall>j<k. unat (i + 4096) + 4096 * j < unat lim"
        using Suc.prems(8) up by (metis Suc_mono add.assoc mult_Suc_right)
      ultimately obtain r' s' ws ps where e: "copyuvm_loop n' pd d (i + 4096) lim u = Ret r' s'"
        "vm_frame d u ys s' ws" "distinct ps" "set ps \<subseteq> set ys - set ws" "set ps \<inter> pt_pages (mem s') d = {}"
        "pgmap (mem s') d = map_pages (\<lambda>vb. PTE_FLAGS (pgmap (mem u) pd vb) OR PTE_P) (pgmap (mem u) d)
            (i + 4096) ps" "copied u pd (i + 4096) ps s'"
        "r' = Some () \<and> length ps = k \<or> r' = None \<and> length ps < k \<and> ws = []"
        using Suc.IH [of u ys "i + 4096" n'] Suc.prems(1,7,9,10) up n vm_frameD(1,2) [OF f]
          vm_frame_fields(4) [OF f] other(1,6) pg_aligned_plus_page [OF Suc.prems(6)] by auto
      have lps: "length ps \<le> k" using e(8) by auto
      have xs': "x \<notin> set ps" "x \<notin> pt_pages (mem s') d"
        using c(1,2) e(4) vm_frameD(6) [OF e(2)] by auto
      have "copied s pd i (x # ps) s'"
        unfolding copied_def
      proof (intro allI impI)
        fix l and off :: u32 assume l: "l < length (x # ps)" and off: "off < 4096"
        show "mem s' ((x # ps) ! l + off) = mem s (data_page (mem s) pd (i + 4096 * of_nat l) + off)"
        proof (cases l)
          case 0
          have x: "pg_aligned x" using Suc.prems(3) Cons by (auto simp: free_pages_def dest: kpage_aligned)
          have "mem s' (x + off) = mem u (x + off)"
            using c(1,2) off x by (intro vm_frame_outside [OF e(2)]) (simp_all add: PGROUNDDOWN_offset)
          then show ?thesis using c(3) off 0 by simp
        next
          case (Suc j)
          let ?v = "i + 4096 * of_nat (Suc j)"
          have "unat ?v = unat i + 4096 * Suc j"
            using unat_plus_of_nat [of i "4096 * Suc j"] Suc.prems(9) l lps Suc by simp
          then have "parent_page s pd d xs ?v"
            using l lps Suc range_page [OF Suc.prems(6), of "Suc j" "Suc k"] Suc.prems(9)
            by (intro Suc.prems(11) [THEN conjunct1]) simp
          note pf = parent_page_frame(2,3) [OF f Suc.prems(4,5) this]
          have "mem s' (ps ! j + off) = mem u (data_page (mem u) pd ?v + off)"
            using e(7) l off Suc by (simp add: copied_def algebra_simps)
          then show ?thesis using pf off Suc by simp
        qed
      qed
      moreover have "pgmap (mem s') d = map_pages (\<lambda>vb. PTE_FLAGS (pgmap (mem s) pd vb) OR PTE_P)
          (pgmap (mem s) d) i (x # ps)"
        unfolding e(6) g other(2) using Suc.prems(6,9) lps by (intro map_pages_Cons) simp_all
      moreover have "copyuvm_loop n pd d i lim s = Ret r' s'" using c(4) True e(1) n by simp
      moreover have "set (x # ps) \<subseteq> set xs - set ws"
        using e(4) vm_frameD(3) [OF f] vm_frameD(3) [OF e(2)] c(1) Cons by auto
      ultimately show ?thesis
        using vm_frame_trans [OF f e(2)] e(3,5,8) xs'
        by (intro exI [of _ r'] exI [of _ s'] exI [of _ ws] exI [of _ "x # ps"]) auto
    qed
  qed
qed

end
