(* ===== verification/Bytes.thy ===== *)
theory Bytes
  imports Prelude
begin

text \<open>
  Little-endian numbers in buffers: the accesses that the sources make by casting the data of
  a disk block to an array of \<open>ushort\<close> or \<open>uint\<close> or to a structure.
\<close>

section \<open>Definitions\<close>

definition get8 :: "u8 list \<Rightarrow> nat \<Rightarrow> u8" where
  "get8 bs i = (if i < length bs then bs ! i else 0)"

definition get16 :: "u8 list \<Rightarrow> nat \<Rightarrow> u16" where
  "get16 bs i = (ucast (get8 bs i) OR push_bit 8 (ucast (get8 bs (i + 1))))"

definition get32 :: "u8 list \<Rightarrow> nat \<Rightarrow> u32" where
  "get32 bs i = (ucast (get8 bs i) OR push_bit 8 (ucast (get8 bs (i + 1)))
     OR push_bit 16 (ucast (get8 bs (i + 2))) OR push_bit 24 (ucast (get8 bs (i + 3))))"

definition bytes_of16 :: "u16 \<Rightarrow> u8 list" where
  "bytes_of16 v = [ucast v, ucast (drop_bit 8 v)]"

definition bytes_of32 :: "u32 \<Rightarrow> u8 list" where
  "bytes_of32 v = [ucast v, ucast (drop_bit 8 v), ucast (drop_bit 16 v), ucast (drop_bit 24 v)]"

text \<open>Overwriting the bytes from offset \<open>i\<close> on, within the buffer.\<close>

definition put_bytes :: "u8 list \<Rightarrow> nat \<Rightarrow> u8 list \<Rightarrow> u8 list" where
  "put_bytes bs i vs = map (\<lambda>j. if i \<le> j \<and> j < i + length vs then vs ! (j - i) else bs ! j) [0..<length bs]"

definition put16 :: "u8 list \<Rightarrow> nat \<Rightarrow> u16 \<Rightarrow> u8 list" where
  "put16 bs i v = put_bytes bs i (bytes_of16 v)"

definition put32 :: "u8 list \<Rightarrow> nat \<Rightarrow> u32 \<Rightarrow> u8 list" where
  "put32 bs i v = put_bytes bs i (bytes_of32 v)"

text \<open>A part of a buffer.\<close>

definition slice :: "u8 list \<Rightarrow> nat \<Rightarrow> nat \<Rightarrow> u8 list" where
  "slice bs i n = take n (drop i bs)"

section \<open>Reading what was written\<close>

lemma length_put_bytes [simp]: "length (put_bytes bs i vs) = length bs"
  by (simp add: put_bytes_def)

lemma length_put16 [simp]: "length (put16 bs i v) = length bs"
  and length_put32 [simp]: "length (put32 bs i w) = length bs"
  by (simp_all add: put16_def put32_def)

lemma nth_put_bytes:
  "j < length bs \<Longrightarrow> put_bytes bs i vs ! j = (if i \<le> j \<and> j < i + length vs then vs ! (j - i) else bs ! j)"
  by (simp add: put_bytes_def)

lemma get8_put_bytes:
  "get8 (put_bytes bs i vs) j =
     (if i \<le> j \<and> j < i + length vs \<and> j < length bs then vs ! (j - i) else get8 bs j)"
  by (auto simp: get8_def nth_put_bytes)

lemma get16_bytes: "(ucast (ucast (v :: u16) :: u8) :: u16) OR push_bit 8 (ucast (ucast (drop_bit 8 v) :: u8)) = v"
proof (rule bit_word_eqI)
  fix n assume "n < LENGTH(16)"
  then consider "n < 8" | "8 \<le> n" "n < 16" by fastforce
  then show "bit ((ucast (ucast v :: u8) :: u16) OR push_bit 8 (ucast (ucast (drop_bit 8 v) :: u8))) n = bit v n"
    by cases (auto simp: bit_simps)
qed

lemma get16_put16_same [simp]: "i + 2 \<le> length bs \<Longrightarrow> get16 (put16 bs i v) i = v"
  by (simp add: get16_def put16_def get8_put_bytes bytes_of16_def get16_bytes)

lemma get32_put32_same [simp]: "i + 4 \<le> length bs \<Longrightarrow> get32 (put32 bs i v) i = v"
proof -
  assume i: "i + 4 \<le> length bs"
  have "get8 (put32 bs i v) (i + j) = bytes_of32 v ! j" if "j < 4" for j
    using that i by (simp add: put32_def get8_put_bytes bytes_of32_def)
  from this [of 0] this [of 1] this [of 2] this [of 3] show ?thesis
    by (simp add: get32_def bytes_of32_def bytes32)
qed

lemma get16_put_bytes_other:
  "j + 2 \<le> i \<or> i + length vs \<le> j \<Longrightarrow> get16 (put_bytes bs i vs) j = get16 bs j"
  by (auto simp: get16_def get8_put_bytes)

lemma get32_put_bytes_other:
  "j + 4 \<le> i \<or> i + length vs \<le> j \<Longrightarrow> get32 (put_bytes bs i vs) j = get32 bs j"
  by (auto simp: get32_def get8_put_bytes)

lemma get16_put16_other: "j + 2 \<le> i \<or> i + 2 \<le> j \<Longrightarrow> get16 (put16 bs i v) j = get16 bs j"
  unfolding put16_def by (rule get16_put_bytes_other) (simp add: bytes_of16_def)

lemma get32_put32_other: "j + 4 \<le> i \<or> i + 4 \<le> j \<Longrightarrow> get32 (put32 bs i v) j = get32 bs j"
  unfolding put32_def by (rule get32_put_bytes_other) (auto simp: bytes_of32_def)

lemma get16_put32_other: "j + 2 \<le> i \<or> i + 4 \<le> j \<Longrightarrow> get16 (put32 bs i v) j = get16 bs j"
  unfolding put32_def by (rule get16_put_bytes_other) (auto simp: bytes_of32_def)

lemma get32_put16_other: "j + 4 \<le> i \<or> i + 2 \<le> j \<Longrightarrow> get32 (put16 bs i v) j = get32 bs j"
  unfolding put16_def by (rule get32_put_bytes_other) (simp add: bytes_of16_def)

lemma length_slice: "i + n \<le> length bs \<Longrightarrow> length (slice bs i n) = n"
  by (simp add: slice_def)

lemma slice_put_bytes_same: "i + length vs \<le> length bs \<Longrightarrow> slice (put_bytes bs i vs) i (length vs) = vs"
  by (rule nth_equalityI) (simp_all add: slice_def nth_put_bytes)

lemma get8_slice: "j < n \<Longrightarrow> get8 (slice bs i n) j = get8 bs (i + j)"
  by (auto simp: get8_def slice_def)

lemma put_bytes_Nil [simp]: "put_bytes bs i [] = bs"
  by (rule nth_equalityI) (auto simp: nth_put_bytes)

lemmas get_put = get16_put16_other get32_put32_other get16_put32_other get32_put16_other

end
