(* ===== verification/Bio.thy ===== *)
theory Bio
  imports Vm Bytes
begin

text \<open>
  The buffer cache (\<^verbatim>\<open>bio.c\<close>, \<^verbatim>\<open>buf.h\<close>) over the memory disk (\<^verbatim>\<open>memide.c\<close>): the code with its
  doubly linked list of buffers, the proof that the list is kept in order of use, and what
  \<open>bread\<close>, \<open>bwrite\<close> and \<open>brelse\<close> promise to their callers.
\<close>

section \<open>Data\<close>

abbreviation (input) NBUF :: nat where "NBUF \<equiv> 30"
abbreviation (input) BSIZE :: nat where "BSIZE \<equiv> 512"
abbreviation (input) ROOTDEV :: u32 where "ROOTDEV \<equiv> 1"

text \<open>
  A buffer with its flags \<open>B_BUSY\<close>, \<open>B_VALID\<close> and \<open>B_DIRTY\<close>. A link is the index of a buffer;
  index \<open>NBUF\<close> is \<open>bcache.head\<close>.
\<close>

record buf =
  b_busy :: bool
  b_valid :: bool
  b_dirty :: bool
  b_dev :: u32
  b_sector :: u32
  b_prev :: nat
  b_next :: nat
  b_data :: "u8 list"

text \<open>
  The cache, the disk as a function from sectors to their contents, and the history of the
  writes to the disk, latest last, which the code does not read.
\<close>

record bst = vmst +
  bufs :: "buf list"
  disk :: "u32 \<Rightarrow> u8 list"
  disksize :: u32
  wtrace :: "(u32 \<times> u8 list) list"

definition upd_buf :: "nat \<Rightarrow> (buf \<Rightarrow> buf) \<Rightarrow> 'a bst_scheme \<Rightarrow> 'a bst_scheme" where
  "upd_buf b f s = s\<lparr>bufs := (bufs s)[b := f (bufs s ! b)]\<rparr>"

section \<open>The disk\<close>

definition disk_write :: "u32 \<Rightarrow> u8 list \<Rightarrow> 'a bst_scheme \<Rightarrow> 'a bst_scheme" where
  "disk_write sec d s = s\<lparr>disk := (disk s)(sec := d), wtrace := wtrace s @ [(sec, d)]\<rparr>"

definition iderw :: "nat \<Rightarrow> 'a bst_scheme \<Rightarrow> ('a bst_scheme, unit) res" where
  "iderw b s =
     (if \<not> b_busy (bufs s ! b) then Panic ''iderw: buf not busy''
      else if b_valid (bufs s ! b) \<and> \<not> b_dirty (bufs s ! b) then Panic ''iderw: nothing to do''
      else if b_dev (bufs s ! b) \<noteq> 1 then Panic ''iderw: request not for disk 1''
      else if b_sector (bufs s ! b) \<ge> disksize s then Panic ''iderw: sector out of range''
      else
        let s = (if b_dirty (bufs s ! b)
                 then let s = upd_buf b (\<lambda>x. x\<lparr>b_dirty := False\<rparr>) s in
                   disk_write (b_sector (bufs s ! b)) (b_data (bufs s ! b)) s
                 else upd_buf b (\<lambda>x. x\<lparr>b_data := disk s (b_sector x)\<rparr>) s) in
        Ret () (upd_buf b (\<lambda>x. x\<lparr>b_valid := True\<rparr>) s))"

section \<open>The cache\<close>

primrec binit_loop :: "nat \<Rightarrow> nat \<Rightarrow> 'a bst_scheme \<Rightarrow> 'a bst_scheme" where
  "binit_loop 0 b s = s"
| "binit_loop (Suc n) b s =
     (let s = upd_buf b (\<lambda>x. x\<lparr>b_next := b_next (bufs s ! NBUF)\<rparr>) s;
          s = upd_buf b (\<lambda>x. x\<lparr>b_prev := NBUF\<rparr>) s;
          s = upd_buf b (\<lambda>x. x\<lparr>b_dev := -1\<rparr>) s;
          s = upd_buf (b_next (bufs s ! NBUF)) (\<lambda>x. x\<lparr>b_prev := b\<rparr>) s;
          s = upd_buf NBUF (\<lambda>x. x\<lparr>b_next := b\<rparr>) s in
      binit_loop n (Suc b) s)"

definition binit :: "'a bst_scheme \<Rightarrow> 'a bst_scheme" where
  "binit s =
     (let s = upd_buf NBUF (\<lambda>x. x\<lparr>b_prev := NBUF\<rparr>) s;
          s = upd_buf NBUF (\<lambda>x. x\<lparr>b_next := NBUF\<rparr>) s in
      binit_loop NBUF 0 s)"

text \<open>
  A loop over the list from \<open>b\<close> to \<open>head\<close> along the links \<open>nx\<close>, up to the first buffer with
  property \<open>P\<close>. The outer \<open>None\<close> means that the loop did not end within the fuel.
\<close>

primrec scan :: "(buf \<Rightarrow> nat) \<Rightarrow> (buf \<Rightarrow> bool) \<Rightarrow> buf list \<Rightarrow> nat \<Rightarrow> nat \<Rightarrow> nat option option" where
  "scan nx P bs 0 b = None"
| "scan nx P bs (Suc n) b =
     (if b = NBUF then Some None
      else if P (bs ! b) then Some (Some b)
      else scan nx P bs n (nx (bs ! b)))"

text \<open>
  When the sector is cached and busy, the process sleeps and starts again at \<open>loop\<close> when it is
  woken up.
\<close>

definition bget :: "u32 \<Rightarrow> u32 \<Rightarrow> 'a bst_scheme \<Rightarrow> ('a bst_scheme, nat) res" where
  "bget dev sector s =
     bindR (acquire L_bcache s) (\<lambda>_ s.
     case scan b_next (\<lambda>b. b_dev b = dev \<and> b_sector b = sector) (bufs s) 31 (b_next (bufs s ! NBUF)) of
       None \<Rightarrow> NoFuel
     | Some (Some b) \<Rightarrow>
         if \<not> b_busy (bufs s ! b) then
           (let s = upd_buf b (\<lambda>x. x\<lparr>b_busy := True\<rparr>) s in
            bindR (release L_bcache s) (\<lambda>_ s. Ret b s))
         else bindR (sleep (Ch_buf b) L_bcache s) (\<lambda>_ s. NoFuel)
     | Some None \<Rightarrow>
         (case scan b_prev (\<lambda>b. \<not> b_busy b \<and> \<not> b_dirty b) (bufs s) 31 (b_prev (bufs s ! NBUF)) of
            None \<Rightarrow> NoFuel
          | Some (Some b) \<Rightarrow>
              let s = upd_buf b (\<lambda>x. x\<lparr>b_dev := dev, b_sector := sector,
                        b_busy := True, b_valid := False, b_dirty := False\<rparr>) s in
              bindR (release L_bcache s) (\<lambda>_ s. Ret b s)
          | Some None \<Rightarrow> Panic ''bget: no buffers''))"

definition bread :: "u32 \<Rightarrow> u32 \<Rightarrow> 'a bst_scheme \<Rightarrow> ('a bst_scheme, nat) res" where
  "bread dev sector s =
     bindR (bget dev sector s) (\<lambda>b s.
     bindR (if \<not> b_valid (bufs s ! b) then iderw b s else Ret () s) (\<lambda>_ s. Ret b s))"

definition bwrite :: "nat \<Rightarrow> 'a bst_scheme \<Rightarrow> ('a bst_scheme, unit) res" where
  "bwrite b s =
     (if \<not> b_busy (bufs s ! b) then Panic ''bwrite''
      else iderw b (upd_buf b (\<lambda>x. x\<lparr>b_dirty := True\<rparr>) s))"

definition brelse :: "nat \<Rightarrow> 'a bst_scheme \<Rightarrow> ('a bst_scheme, unit) res" where
  "brelse b s =
     (if \<not> b_busy (bufs s ! b) then Panic ''brelse''
      else
        bindR (acquire L_bcache s) (\<lambda>_ s.
        let s = upd_buf (b_next (bufs s ! b)) (\<lambda>x. x\<lparr>b_prev := b_prev (bufs s ! b)\<rparr>) s;
            s = upd_buf (b_prev (bufs s ! b)) (\<lambda>x. x\<lparr>b_next := b_next (bufs s ! b)\<rparr>) s;
            s = upd_buf b (\<lambda>x. x\<lparr>b_next := b_next (bufs s ! NBUF)\<rparr>) s;
            s = upd_buf b (\<lambda>x. x\<lparr>b_prev := NBUF\<rparr>) s;
            s = upd_buf (b_next (bufs s ! NBUF)) (\<lambda>x. x\<lparr>b_prev := b\<rparr>) s;
            s = upd_buf NBUF (\<lambda>x. x\<lparr>b_next := b\<rparr>) s;
            s = upd_buf b (\<lambda>x. x\<lparr>b_busy := False\<rparr>) s in
        bindR (wakeup (Ch_buf b) s) (\<lambda>_ s.
        release L_bcache s)))"

section \<open>The list of buffers\<close>

text \<open>The links \<open>f\<close> lead from \<open>u\<close> through the elements of a list, in order, to \<open>v\<close>.\<close>

primrec chain :: "(nat \<Rightarrow> nat) \<Rightarrow> nat \<Rightarrow> nat list \<Rightarrow> nat \<Rightarrow> bool" where
  "chain f u [] v \<longleftrightarrow> f u = v"
| "chain f u (x # xs) v \<longleftrightarrow> f u = x \<and> chain f x xs v"

lemma chain_append [simp]: "chain f u (ys @ x # zs) v \<longleftrightarrow> chain f u ys x \<and> chain f x zs v"
  by (induction ys arbitrary: u) auto

lemma chain_other: "a \<notin> set (u # xs) \<Longrightarrow> chain (f(a := z)) u xs v = chain f u xs v"
  by (induction xs arbitrary: u) auto

lemma chain_redirect:
  "chain f u xs v \<Longrightarrow> distinct (u # xs) \<Longrightarrow> chain (f(last (u # xs) := z)) u xs z"
proof (induction xs arbitrary: u)
  case (Cons x xs)
  then have "chain (f(last (x # xs) := z)) x xs z" by (intro Cons.IH) auto
  moreover have "last (x # xs) \<noteq> u" using Cons.prems last_in_set [of "x # xs"] by auto
  ultimately show ?case using Cons.prems by (cases "xs = []") (simp_all add: fun_upd_def)
qed simp

lemma chain_first: "chain f u xs v \<Longrightarrow> f u = hd (xs @ [v])"
  by (cases xs) auto

text \<open>Taking an element out of a list, and putting one in front or at the end.\<close>

lemma chain_remove:
  assumes "chain f h (ys @ b # zs) h" "distinct (h # ys @ b # zs)"
  shows "chain (f(last (h # ys) := f b)) h (ys @ zs) h"
proof -
  have ys: "chain (f(last (h # ys) := f b)) h ys (f b)"
    using assms by (intro chain_redirect [where v = b]) auto
  show ?thesis
  proof (cases zs)
    case Nil
    then show ?thesis using ys assms by simp
  next
    case (Cons z zs')
    have "last (h # ys) \<in> set (h # ys)" by (rule last_in_set) simp
    then have "last (h # ys) \<notin> set zs" using assms(2) by auto
    then show ?thesis using ys assms(1) Cons by (simp add: chain_other)
  qed
qed

lemma chain_insert_front:
  "chain f h xs h \<Longrightarrow> b \<notin> set xs \<Longrightarrow> b \<noteq> h \<Longrightarrow> h \<notin> set xs \<Longrightarrow> chain (f(b := f h, h := b)) h (b # xs) h"
  by (cases xs) (auto simp: chain_other)

lemma chain_insert_back:
  assumes "chain f h xs h" "distinct (h # xs)" "b \<notin> set (h # xs)"
  shows "chain (f(b := h, last (h # xs) := b)) h (xs @ [b]) h"
proof -
  have "chain (f(b := h)) h xs h" by (subst chain_other) (use assms(1,3) in auto)
  then have "chain (f(b := h, last (h # xs) := b)) h xs b" by (rule chain_redirect) (rule assms(2))
  moreover have "last (h # xs) \<noteq> b" using assms(3) last_in_set [of "h # xs"] by auto
  ultimately show ?thesis by simp
qed

text \<open>
  \<open>mru bs xs\<close>: the buffers are linked in the order \<open>xs\<close>, the most recently used first, and
  every buffer is in the list once.
\<close>

definition mru :: "buf list \<Rightarrow> nat list \<Rightarrow> bool" where
  "mru bs xs \<longleftrightarrow> length bs = Suc NBUF \<and> distinct xs \<and> set xs = {..<NBUF}
     \<and> chain (\<lambda>i. b_next (bs ! i)) NBUF xs NBUF
     \<and> chain (\<lambda>i. b_prev (bs ! i)) NBUF (rev xs) NBUF"

lemma mru_length: "mru bs xs \<Longrightarrow> length bs = 31"
  by (simp add: mru_def)

lemma mru_length_list: "mru bs xs \<Longrightarrow> length xs = 30"
  unfolding mru_def using distinct_card [of xs] by simp

lemma b_links_upd:
  assumes "i < length bs"
  shows "(\<lambda>j. b_next (bs[i := (bs ! i)\<lparr>b_next := v\<rparr>] ! j)) = (\<lambda>j. b_next (bs ! j))(i := v)"
    "(\<lambda>j. b_next (bs[i := (bs ! i)\<lparr>b_prev := v\<rparr>] ! j)) = (\<lambda>j. b_next (bs ! j))"
    "(\<lambda>j. b_prev (bs[i := (bs ! i)\<lparr>b_prev := v\<rparr>] ! j)) = (\<lambda>j. b_prev (bs ! j))(i := v)"
    "(\<lambda>j. b_prev (bs[i := (bs ! i)\<lparr>b_next := v\<rparr>] ! j)) = (\<lambda>j. b_prev (bs ! j))"
  using assms by (auto simp: fun_eq_iff nth_list_update)

text \<open>A buffer without its links, and an update that does not touch the links.\<close>

definition core :: "buf \<Rightarrow> buf" where
  "core x = x\<lparr>b_prev := 0, b_next := 0\<rparr>"

lemma core_simps [simp]:
  "core (x\<lparr>b_prev := v\<rparr>) = core x" "core (x\<lparr>b_next := v\<rparr>) = core x"
  "b_busy (core x) = b_busy x" "b_valid (core x) = b_valid x" "b_dirty (core x) = b_dirty x"
  "b_dev (core x) = b_dev x" "b_sector (core x) = b_sector x" "b_data (core x) = b_data x"
  by (simp_all add: core_def)

lemma core_eqD:
  assumes "core x = core y"
  shows "b_busy x = b_busy y" "b_valid x = b_valid y" "b_dirty x = b_dirty y"
    "b_dev x = b_dev y" "b_sector x = b_sector y" "b_data x = b_data y"
  using assms by (metis core_simps(3-8))+

lemma mru_upd:
  "mru bs xs \<Longrightarrow> b_next x = b_next (bs ! i) \<Longrightarrow> b_prev x = b_prev (bs ! i) \<Longrightarrow> mru (bs[i := x]) xs"
proof -
  assume a: "mru bs xs" "b_next x = b_next (bs ! i)" "b_prev x = b_prev (bs ! i)"
  have "b_next (bs[i := x] ! j) = b_next (bs ! j) \<and> b_prev (bs[i := x] ! j) = b_prev (bs ! j)" for j
    using a(2,3) by (cases "i < length bs"; cases "i = j") (auto simp: list_update_beyond)
  then show ?thesis using a(1) by (simp add: mru_def)
qed

lemma scan_chain:
  "chain (\<lambda>i. nx (bs ! i)) u xs NBUF \<Longrightarrow> NBUF \<notin> set xs \<Longrightarrow> length xs < n
   \<Longrightarrow> scan nx P bs n (nx (bs ! u)) = Some (find (\<lambda>i. P (bs ! i)) xs)"
proof (induction xs arbitrary: u n)
  case Nil
  then show ?case by (cases n) auto
next
  case (Cons x xs)
  then show ?case by (cases n) auto
qed

lemma scan_mru:
  assumes "mru bs xs"
  shows "scan b_next P bs 31 (b_next (bs ! 30)) = Some (find (\<lambda>i. P (bs ! i)) xs)"
    "scan b_prev P bs 31 (b_prev (bs ! 30)) = Some (find (\<lambda>i. P (bs ! i)) (rev xs))"
proof -
  have xs: "30 \<notin> set xs" "length xs < 31" using assms mru_length_list [OF assms] by (simp_all add: mru_def)
  show "scan b_next P bs 31 (b_next (bs ! 30)) = Some (find (\<lambda>i. P (bs ! i)) xs)"
    by (rule scan_chain) (use assms xs in \<open>simp_all add: mru_def\<close>)
  show "scan b_prev P bs 31 (b_prev (bs ! 30)) = Some (find (\<lambda>i. P (bs ! i)) (rev xs))"
    by (rule scan_chain) (use assms xs in \<open>simp_all add: mru_def\<close>)
qed

text \<open>What \<open>brelse\<close> does to the list: the buffer moves to its front.\<close>

definition relink :: "nat \<Rightarrow> buf list \<Rightarrow> buf list" where
  "relink b bs =
     (let bs = bs[b := (bs ! b)\<lparr>b_next := b_next (bs ! NBUF)\<rparr>];
          bs = bs[b := (bs ! b)\<lparr>b_prev := NBUF\<rparr>];
          bs = bs[b_next (bs ! NBUF) := (bs ! b_next (bs ! NBUF))\<lparr>b_prev := b\<rparr>] in
      bs[NBUF := (bs ! NBUF)\<lparr>b_next := b\<rparr>])"

definition unlink :: "nat \<Rightarrow> buf list \<Rightarrow> buf list" where
  "unlink b bs =
     (let bs = bs[b_next (bs ! b) := (bs ! b_next (bs ! b))\<lparr>b_prev := b_prev (bs ! b)\<rparr>] in
      bs[b_prev (bs ! b) := (bs ! b_prev (bs ! b))\<lparr>b_next := b_next (bs ! b)\<rparr>])"

text \<open>A list of some of the buffers.\<close>

definition linked :: "buf list \<Rightarrow> nat list \<Rightarrow> bool" where
  "linked bs xs \<longleftrightarrow> length bs = Suc NBUF \<and> distinct xs \<and> set xs \<subseteq> {..<NBUF}
     \<and> chain (\<lambda>i. b_next (bs ! i)) NBUF xs NBUF
     \<and> chain (\<lambda>i. b_prev (bs ! i)) NBUF (rev xs) NBUF"

lemma hd_last: "hd (xs @ [h]) = last (h # rev xs)"
  by (cases xs) auto

lemma linked_relink:
  assumes "linked bs xs" "b < 30" "b \<notin> set xs"
  shows "linked (relink b bs) (b # xs)"
proof -
  let ?n = "\<lambda>i. b_next (bs ! i)" and ?p = "\<lambda>i. b_prev (bs ! i)"
  have l: "length bs = 31" "distinct xs" "set xs \<subseteq> {..<30}" "chain ?n 30 xs 30" "chain ?p 30 (rev xs) 30"
    using assms(1) by (simp_all add: linked_def)
  then have h: "30 \<notin> set xs" by auto
  have f: "?n 30 = last (30 # rev xs)" using chain_first [OF l(4)] by (simp only: hd_last)
  have "last (30 # rev xs) \<in> set (30 # rev xs)" by (rule last_in_set) simp
  then have lt: "?n 30 < 31" "?n 30 \<noteq> b" using assms(2,3) l(3) f by auto
  have n: "(\<lambda>i. b_next (relink b bs ! i)) = ?n(b := ?n 30, 30 := b)"
    using l(1) lt assms(2) by (intro ext) (simp add: relink_def Let_def nth_list_update)
  have p: "(\<lambda>i. b_prev (relink b bs ! i)) = ?p(b := 30, last (30 # rev xs) := b)"
    using l(1) lt assms(2) unfolding f [symmetric]
    by (intro ext) (simp add: relink_def Let_def nth_list_update)
  have "chain (?p(b := 30, last (30 # rev xs) := b)) 30 (rev xs @ [b]) 30"
    by (rule chain_insert_back) (use l h assms(2,3) in auto)
  moreover have "chain (?n(b := ?n 30, 30 := b)) 30 (b # xs) 30"
    by (rule chain_insert_front) (use l h assms(2,3) in auto)
  ultimately show ?thesis using l assms(2,3) by (simp add: linked_def n p) (simp add: relink_def Let_def)
qed


lemma linked_unlink:
  assumes "linked bs (ys @ b # zs)"
  shows "linked (unlink b bs) (ys @ zs)" "b_prev (bs ! b) < 31" "b_next (bs ! b) < 31"
proof -
  let ?n = "\<lambda>i. b_next (bs ! i)" and ?p = "\<lambda>i. b_prev (bs ! i)"
  have l: "length bs = 31" "distinct (ys @ b # zs)" "set (ys @ b # zs) \<subseteq> {..<30}"
      "chain ?n 30 (ys @ b # zs) 30" "chain ?p 30 (rev zs @ b # rev ys) 30"
    using assms by (simp_all add: linked_def)
  then have h: "30 \<notin> set (ys @ b # zs)" by auto
  have nb: "?n b = last (30 # rev zs)" using l(4) by (auto dest!: chain_first simp: hd_last simp del: last.simps)
  have pb: "?p b = last (30 # ys)"
    using l(5) hd_last [of "rev ys" 30] by (auto dest!: chain_first simp del: last.simps)
  have "last (30 # rev zs) \<in> set (30 # rev zs)" "last (30 # ys) \<in> set (30 # ys)"
    by (rule last_in_set, simp)+
  then show lt: "?p b < 31" "?n b < 31" using l(3) nb pb by fastforce+
  have ne: "?p b \<noteq> b" "?n b \<noteq> b"
    using \<open>last (30 # ys) \<in> _\<close> \<open>last (30 # rev zs) \<in> _\<close> nb pb l(2) h by auto
  have n: "(\<lambda>i. b_next (unlink b bs ! i)) = ?n(last (30 # ys) := ?n b)"
    using l(1) lt ne unfolding pb [symmetric]
    by (intro ext) (simp add: unlink_def Let_def nth_list_update)
  have p: "(\<lambda>i. b_prev (unlink b bs ! i)) = ?p(last (30 # rev zs) := ?p b)"
    using l(1) lt ne unfolding nb [symmetric]
    by (intro ext) (simp add: unlink_def Let_def nth_list_update)
  have "chain (?n(last (30 # ys) := ?n b)) 30 (ys @ zs) 30"
    by (rule chain_remove [OF l(4)]) (use l h in auto)
  moreover have "chain (?p(last (30 # rev zs) := ?p b)) 30 (rev zs @ rev ys) 30"
    by (rule chain_remove [OF l(5)]) (use l h in auto)
  ultimately show "linked (unlink b bs) (ys @ zs)" using l by (simp add: linked_def n p) (simp add: unlink_def Let_def)
qed

lemma mru_linked: "mru bs xs \<longleftrightarrow> linked bs xs \<and> set xs = {..<30}"
  by (auto simp: mru_def linked_def)

lemma mru_move_front:
  assumes "mru bs xs" "b < 30"
  shows "mru (relink b (unlink b bs)) (b # remove1 b xs)"
proof -
  have "b \<in> set xs" "distinct xs" using assms by (simp_all add: mru_def)
  then obtain ys zs where xs: "xs = ys @ b # zs" and b: "b \<notin> set ys" "b \<notin> set zs"
    by (metis distinct.simps(2) distinct_append not_distinct_conv_prefix split_list_first distinct_append)
  have r: "remove1 b xs = ys @ zs" using b xs by (simp add: remove1_append)
  have "linked (unlink b bs) (ys @ zs)"
    by (rule linked_unlink) (use assms(1) xs in \<open>simp add: mru_linked\<close>)
  from linked_relink [OF this assms(2)] b have "linked (relink b (unlink b bs)) (b # ys @ zs)" by simp
  moreover have "set (b # ys @ zs) = {..<30}" using assms(1) xs by (auto simp: mru_def)
  ultimately show ?thesis by (simp add: mru_linked r)
qed

lemma cores_upd: "core x = core (bs ! i) \<Longrightarrow> map core (bs[i := x]) = map core bs"
proof (cases "i < length bs")
  case True
  assume "core x = core (bs ! i)"
  then have "map core (bs[i := x]) = (map core bs)[i := map core bs ! i]" using True by (simp add: map_update)
  then show ?thesis by simp
qed (simp add: list_update_beyond)

lemma cores_nth: "map core bs = map core bs' \<Longrightarrow> i < length bs \<Longrightarrow> core (bs ! i) = core (bs' ! i)"
  by (metis length_map nth_map)

lemma cores_relink [simp]: "map core (relink b bs) = map core bs"
  and cores_unlink [simp]: "map core (unlink b bs) = map core bs"
  by (simp_all add: relink_def unlink_def Let_def cores_upd del: list_update_overwrite)

section \<open>Building the list\<close>

lemma relink_simps:
  "length (relink b bs) = length bs" "length (unlink b bs) = length bs"
  by (simp_all add: relink_def unlink_def Let_def)

lemma b_dev_first:
  "x\<lparr>b_next := n, b_dev := d\<rparr> = x\<lparr>b_dev := d, b_next := n\<rparr>"
  "x\<lparr>b_prev := n, b_dev := d\<rparr> = x\<lparr>b_dev := d, b_prev := n\<rparr>" for x :: buf
  by (cases x; simp)+

lemma binit_loop_Suc:
  "binit_loop (Suc n) b s =
     binit_loop n (Suc b) (s\<lparr>bufs := relink b ((bufs s)[b := (bufs s ! b)\<lparr>b_dev := -1\<rparr>])\<rparr>)"
  if "b < 30" "length (bufs s) = 31"
proof -
  let ?bs = "bufs s"
  have "(?bs[b := (?bs ! b)\<lparr>b_dev := -1\<rparr>]) ! 30 = ?bs ! 30" using that by simp
  then show ?thesis
    using that by (simp add: Let_def upd_buf_def relink_def nth_list_update b_dev_first)
qed

lemma core_dev: "core (x\<lparr>b_dev := v\<rparr>) = (core x)\<lparr>b_dev := v\<rparr>"
  by (simp add: core_def b_dev_first)

lemma binit_loop_linked:
  assumes "linked (bufs s) (rev [0..<b])" "b + n = 30"
  shows "\<exists>bs. binit_loop n b s = s\<lparr>bufs := bs\<rparr> \<and> linked bs (rev [0..<30])
     \<and> (\<forall>i<30. core (bs ! i) = (if b \<le> i then (core (bufs s ! i))\<lparr>b_dev := -1\<rparr> else core (bufs s ! i)))"
  using assms
proof (induction n arbitrary: b s)
  case 0
  then show ?case by (intro exI [of _ "bufs s"]) simp
next
  case (Suc n)
  let ?bs = "relink b ((bufs s)[b := (bufs s ! b)\<lparr>b_dev := -1\<rparr>])"
  have len: "length (bufs s) = 31" using Suc.prems(1) by (simp add: linked_def)
  have c: "map core ?bs = map core ((bufs s)[b := (bufs s ! b)\<lparr>b_dev := -1\<rparr>])" by simp
  have core: "core (?bs ! i) = (if i = b then (core (bufs s ! i))\<lparr>b_dev := -1\<rparr> else core (bufs s ! i))" if "i < 30" for i
    using that Suc.prems(2) len by (subst cores_nth [OF c]) (auto simp: relink_simps core_dev)
  have l: "linked ?bs (b # rev [0..<b])"
  proof (rule linked_relink)
    have links: "b_next ((bufs s)[b := (bufs s ! b)\<lparr>b_dev := -1\<rparr>] ! j) = b_next (bufs s ! j)"
      "b_prev ((bufs s)[b := (bufs s ! b)\<lparr>b_dev := -1\<rparr>] ! j) = b_prev (bufs s ! j)" for j
      using Suc.prems(2) len by (simp_all add: nth_list_update)
    show "linked ((bufs s)[b := (bufs s ! b)\<lparr>b_dev := -1\<rparr>]) (rev [0..<b])"
      using Suc.prems(1) by (simp add: linked_def links)
  qed (use Suc.prems(2) in auto)
  have "\<exists>bs. binit_loop n (Suc b) (s\<lparr>bufs := ?bs\<rparr>) = (s\<lparr>bufs := ?bs\<rparr>)\<lparr>bufs := bs\<rparr> \<and> linked bs (rev [0..<30])
     \<and> (\<forall>i<30. core (bs ! i) = (if Suc b \<le> i then (core (bufs (s\<lparr>bufs := ?bs\<rparr>) ! i))\<lparr>b_dev := -1\<rparr>
          else core (bufs (s\<lparr>bufs := ?bs\<rparr>) ! i)))"
    by (rule Suc.IH) (use l Suc.prems(2) in \<open>simp_all del: upt_conv_Cons\<close>)
  then obtain bs where bs: "binit_loop n (Suc b) (s\<lparr>bufs := ?bs\<rparr>) = s\<lparr>bufs := bs\<rparr>" "linked bs (rev [0..<30])"
    "\<forall>i<30. core (bs ! i) = (if Suc b \<le> i then (core (?bs ! i))\<lparr>b_dev := -1\<rparr> else core (?bs ! i))" by auto
  moreover have "binit_loop (Suc n) b s = binit_loop n (Suc b) (s\<lparr>bufs := ?bs\<rparr>)"
    using Suc.prems(2) len by (intro binit_loop_Suc) simp_all
  moreover have "core (bs ! i) = (if b \<le> i then (core (bufs s ! i))\<lparr>b_dev := -1\<rparr> else core (bufs s ! i))" if "i < 30" for i
    using bs(3) core [OF that] that by (cases "i = b") auto
  ultimately show ?case by auto
qed

lemma binit_mru:
  assumes "length (bufs s) = 31"
  shows "\<exists>bs. binit s = s\<lparr>bufs := bs\<rparr> \<and> mru bs (rev [0..<30])
    \<and> (\<forall>i<30. core (bs ! i) = (core (bufs s ! i))\<lparr>b_dev := -1\<rparr>)"
proof -
  let ?bs = "(bufs s)[30 := (bufs s ! 30)\<lparr>b_prev := 30, b_next := 30\<rparr>]"
  have "linked ?bs []" using assms by (simp add: linked_def)
  then have "\<exists>bs. binit_loop 30 0 (s\<lparr>bufs := ?bs\<rparr>) = (s\<lparr>bufs := ?bs\<rparr>)\<lparr>bufs := bs\<rparr> \<and> linked bs (rev [0..<30])
     \<and> (\<forall>i<30. core (bs ! i) = (if 0 \<le> i then (core (bufs (s\<lparr>bufs := ?bs\<rparr>) ! i))\<lparr>b_dev := -1\<rparr>
          else core (bufs (s\<lparr>bufs := ?bs\<rparr>) ! i)))"
    by (intro binit_loop_linked) simp_all
  moreover have "binit s = binit_loop 30 0 (s\<lparr>bufs := ?bs\<rparr>)"
    using assms by (simp add: binit_def upd_buf_def Let_def)
  ultimately show ?thesis by (simp add: mru_linked atLeast0LessThan)
qed

end
