(* ===== verification/Bio_Cache.thy ===== *)
theory Bio_Cache
  imports Bio
begin

text \<open>
  What the buffer cache promises: its invariant, the blocks that a program sees through it, and
  the contract of \<open>bread\<close>, \<open>bwrite\<close> and \<open>brelse\<close> in terms of blocks, as an interface that the
  log and the file system rely on.
\<close>

section \<open>What the cache promises\<close>

text \<open>
  The contents of the cache with respect to a disk: no sector is cached twice, every buffer
  holds a block, a buffer that is held or dirty belongs to the disk and a dirty one is valid,
  and a valid buffer that nobody holds and that is not dirty agrees with the disk.
\<close>

definition cinv :: "buf list \<Rightarrow> (u32 \<Rightarrow> u8 list) \<Rightarrow> u32 \<Rightarrow> bool" where
  "cinv bs d n \<longleftrightarrow>
     (\<forall>i<30. \<forall>j<30. b_dev (bs ! i) = ROOTDEV \<longrightarrow> b_dev (bs ! j) = ROOTDEV \<longrightarrow>
        b_sector (bs ! i) = b_sector (bs ! j) \<longrightarrow> i = j)
     \<and> (\<forall>i<30. length (b_data (bs ! i)) = BSIZE)
     \<and> (\<forall>i<30. b_busy (bs ! i) \<or> b_dirty (bs ! i) \<longrightarrow> b_dev (bs ! i) = ROOTDEV)
     \<and> (\<forall>i<30. b_dirty (bs ! i) \<longrightarrow> b_valid (bs ! i))
     \<and> (\<forall>i<30. b_dev (bs ! i) = ROOTDEV \<longrightarrow> b_valid (bs ! i) \<longrightarrow> \<not> b_busy (bs ! i) \<longrightarrow>
          \<not> b_dirty (bs ! i) \<longrightarrow> b_data (bs ! i) = d (b_sector (bs ! i)))
     \<and> (\<forall>sec<n. length (d sec) = BSIZE)"

lemma cinvD:
  assumes "cinv bs d n"
  shows "i < 30 \<Longrightarrow> length (b_data (bs ! i)) = BSIZE"
    "i < 30 \<Longrightarrow> b_busy (bs ! i) \<Longrightarrow> b_dev (bs ! i) = ROOTDEV"
    "i < 30 \<Longrightarrow> b_dirty (bs ! i) \<Longrightarrow> b_dev (bs ! i) = ROOTDEV"
    "i < 30 \<Longrightarrow> b_dirty (bs ! i) \<Longrightarrow> b_valid (bs ! i)"
    "i < 30 \<Longrightarrow> b_dev (bs ! i) = ROOTDEV \<Longrightarrow> b_valid (bs ! i) \<Longrightarrow> \<not> b_busy (bs ! i) \<Longrightarrow>
      \<not> b_dirty (bs ! i) \<Longrightarrow> b_data (bs ! i) = d (b_sector (bs ! i))"
    "sec < n \<Longrightarrow> length (d sec) = BSIZE"
proof -
  note c2 = assms [unfolded cinv_def, THEN conjunct2]
  note c3 = c2 [THEN conjunct2]
  note c4 = c3 [THEN conjunct2]
  note c5 = c4 [THEN conjunct2]
  show "i < 30 \<Longrightarrow> length (b_data (bs ! i)) = BSIZE"
    by (rule c2 [THEN conjunct1, rule_format])
  show "i < 30 \<Longrightarrow> b_busy (bs ! i) \<Longrightarrow> b_dev (bs ! i) = ROOTDEV"
    "i < 30 \<Longrightarrow> b_dirty (bs ! i) \<Longrightarrow> b_dev (bs ! i) = ROOTDEV"
    using c3 [THEN conjunct1] by blast+
  show "i < 30 \<Longrightarrow> b_dirty (bs ! i) \<Longrightarrow> b_valid (bs ! i)"
    by (rule c4 [THEN conjunct1, rule_format])
  show "i < 30 \<Longrightarrow> b_dev (bs ! i) = ROOTDEV \<Longrightarrow> b_valid (bs ! i) \<Longrightarrow> \<not> b_busy (bs ! i) \<Longrightarrow>
      \<not> b_dirty (bs ! i) \<Longrightarrow> b_data (bs ! i) = d (b_sector (bs ! i))"
    by (rule c5 [THEN conjunct1, rule_format])
  show "sec < n \<Longrightarrow> length (d sec) = BSIZE"
    by (rule c5 [THEN conjunct2, rule_format])
qed

lemma cinv_unique:
  "cinv bs d n \<Longrightarrow> i < 30 \<Longrightarrow> j < 30 \<Longrightarrow> b_dev (bs ! i) = ROOTDEV \<Longrightarrow> b_dev (bs ! j) = ROOTDEV \<Longrightarrow>
   b_sector (bs ! i) = b_sector (bs ! j) \<Longrightarrow> i = j"
  by (rule cinv_def [THEN iffD1, THEN conjunct1, rule_format])

definition binv :: "'a bst_scheme \<Rightarrow> bool" where
  "binv s \<longleftrightarrow> (\<exists>xs. mru (bufs s) xs) \<and> cinv (bufs s) (disk s) (disksize s)"

text \<open>
  The abstract state of the cache: the contents of the disk as a program sees them through the
  cache, and the sectors whose buffers are held and dirty.
\<close>

definition cached :: "buf list \<Rightarrow> u32 \<Rightarrow> nat option" where
  "cached bs sec = find (\<lambda>i. b_dev (bs ! i) = ROOTDEV \<and> b_sector (bs ! i) = sec) [0..<30]"

definition content :: "buf list \<Rightarrow> (u32 \<Rightarrow> u8 list) \<Rightarrow> u32 \<Rightarrow> u8 list" where
  "content bs d sec =
     (case cached bs sec of
        Some i \<Rightarrow> if b_valid (bs ! i) then b_data (bs ! i) else d sec
      | None \<Rightarrow> d sec)"

abbreviation block :: "'a bst_scheme \<Rightarrow> u32 \<Rightarrow> u8 list" where
  "block s \<equiv> content (bufs s) (disk s)"

definition busy_secs :: "buf list \<Rightarrow> u32 set" where
  "busy_secs bs = {sec. \<exists>i. cached bs sec = Some i \<and> b_busy (bs ! i)}"

definition dirty_secs :: "buf list \<Rightarrow> u32 set" where
  "dirty_secs bs = {sec. \<exists>i. cached bs sec = Some i \<and> b_dirty (bs ! i)}"

text \<open>Links do not matter to the contents.\<close>

lemma cong_cores:
  assumes "map core bs = map core bs'" "length bs = 31"
  shows "cinv bs = cinv bs'" "content bs = content bs'" "busy_secs bs = busy_secs bs'"
    "dirty_secs bs = dirty_secs bs'" "cached bs = cached bs'"
proof -
  have c: "core (bs ! i) = core (bs' ! i)" if "i < 30" for i
    using cores_nth [OF assms(1)] that assms(2) by simp
  note d = c [THEN core_eqD(1)] c [THEN core_eqD(2)] c [THEN core_eqD(3)] c [THEN core_eqD(4)]
    c [THEN core_eqD(5)] c [THEN core_eqD(6)]
  show "cinv bs = cinv bs'" by (intro ext) (simp add: cinv_def d)
  have find: "find P xs = find Q xs" if "\<And>i. i \<in> set xs \<Longrightarrow> P i = Q i" for P Q and xs :: "nat list"
    using that by (induction xs) auto
  show ca: "cached bs = cached bs'" by (rule ext) (auto simp: cached_def d intro!: find)
  have "i < 30" if "cached bs' sec = Some i" for sec i
    using that by (auto simp: cached_def find_Some_iff)
  then show "content bs = content bs'" "busy_secs bs = busy_secs bs'" "dirty_secs bs = dirty_secs bs'"
    by (auto simp: fun_eq_iff content_def busy_secs_def dirty_secs_def ca d split: option.split)
qed

text \<open>Which buffer caches a sector.\<close>

lemma cached_iff:
  assumes "cinv bs d n"
  shows "cached bs sec = Some i \<longleftrightarrow> i < 30 \<and> b_dev (bs ! i) = ROOTDEV \<and> b_sector (bs ! i) = sec"
proof
  assume "cached bs sec = Some i"
  then show "i < 30 \<and> b_dev (bs ! i) = ROOTDEV \<and> b_sector (bs ! i) = sec"
    by (auto simp: cached_def find_Some_iff)
next
  assume i: "i < 30 \<and> b_dev (bs ! i) = ROOTDEV \<and> b_sector (bs ! i) = sec"
  then have "cached bs sec \<noteq> None" by (auto simp: cached_def find_None_iff)
  then obtain j where j: "cached bs sec = Some j" by blast
  then have "j < 30 \<and> b_dev (bs ! j) = ROOTDEV \<and> b_sector (bs ! j) = sec"
    by (auto simp: cached_def find_Some_iff)
  then have "j = i" using assms i unfolding cinv_def by metis
  then show "cached bs sec = Some i" using j by simp
qed

lemma cached_None:
  "cached bs sec = None \<longleftrightarrow> (\<forall>i<30. b_dev (bs ! i) = ROOTDEV \<longrightarrow> b_sector (bs ! i) \<noteq> sec)"
  by (auto simp: cached_def find_None_iff)

lemma content_cached:
  "cinv bs d n \<Longrightarrow> i < 30 \<Longrightarrow> b_dev (bs ! i) = ROOTDEV \<Longrightarrow> b_valid (bs ! i)
   \<Longrightarrow> content bs d (b_sector (bs ! i)) = b_data (bs ! i)"
  using cached_iff [of bs d n "b_sector (bs ! i)" i] by (simp add: content_def)


text \<open>Replacing one buffer.\<close>

lemma cinv_upd:
  assumes "cinv bs d n" "length bs = 31" "b < 30" "b_dev x = ROOTDEV" "length (b_data x) = 512"
    and "\<And>i. i < 30 \<Longrightarrow> i \<noteq> b \<Longrightarrow> b_dev (bs ! i) = ROOTDEV \<Longrightarrow> b_sector (bs ! i) \<noteq> b_sector x"
    and "b_dirty x \<Longrightarrow> b_valid x"
    and "b_valid x \<Longrightarrow> \<not> b_busy x \<Longrightarrow> \<not> b_dirty x \<Longrightarrow> b_data x = d (b_sector x)"
  shows "cinv (bs[b := x]) d n"
proof -
  let ?cs = "bs[b := x]"
  have x: "?cs ! b = x" "\<And>i. i \<noteq> b \<Longrightarrow> ?cs ! i = bs ! i" using assms(2,3) by simp_all
  have "i = j" if "i < 30" "j < 30" "b_dev (?cs ! i) = 1" "b_dev (?cs ! j) = 1"
    "b_sector (?cs ! i) = b_sector (?cs ! j)" for i j
  proof (cases "i = b \<or> j = b")
    case True
    then show ?thesis using that assms(6) [of i] assms(6) [of j] x by metis
  next
    case False
    then show ?thesis using that x cinv_unique [OF assms(1), of i j] by simp
  qed
  moreover have "length (b_data (?cs ! i)) = 512"
      "b_busy (?cs ! i) \<or> b_dirty (?cs ! i) \<longrightarrow> b_dev (?cs ! i) = 1"
      "b_dirty (?cs ! i) \<longrightarrow> b_valid (?cs ! i)"
      "b_dev (?cs ! i) = 1 \<longrightarrow> b_valid (?cs ! i) \<longrightarrow> \<not> b_busy (?cs ! i) \<longrightarrow>
          \<not> b_dirty (?cs ! i) \<longrightarrow> b_data (?cs ! i) = d (b_sector (?cs ! i))" if "i < 30" for i
    using that assms(3,4,5,7,8) x cinvD(1-5) [OF assms(1), of i] by (cases "i = b"; simp; blast)+
  ultimately show ?thesis using cinvD(6) [OF assms(1)]
    unfolding cinv_def by (intro conjI allI impI) (assumption | blast)+
qed

lemma cached_upd:
  assumes "cinv bs d n" "length bs = 31" "b < 30" "b_dev x = ROOTDEV" "b_sector x = b_sector (bs ! b)"
    "b_dev (bs ! b) = ROOTDEV"
  shows "cached (bs[b := x]) = cached bs"
proof -
  have "(bs[b := x] ! i = x \<and> i = b) \<or> (bs[b := x] ! i = bs ! i \<and> i \<noteq> b)" for i
    using assms(2,3) by (cases "i = b") auto
  then have "b_dev (bs[b := x] ! i) = ROOTDEV \<and> b_sector (bs[b := x] ! i) = sec
     \<longleftrightarrow> b_dev (bs ! i) = ROOTDEV \<and> b_sector (bs ! i) = sec" for i sec
    using assms(4-6) by metis
  then show ?thesis by (intro ext) (simp add: cached_def)
qed

text \<open>The blocks after a change of a cached block, and after a block is read into the cache.\<close>

lemma content_upd:
  assumes "cinv bs d n" "length bs = 31" "b < 30" "b_dev x = ROOTDEV" "b_sector x = b_sector (bs ! b)"
    "b_dev (bs ! b) = ROOTDEV" "b_valid x"
  shows "content (bs[b := x]) d = (content bs d)(b_sector x := b_data x)"
proof (rule ext)
  fix sec
  have b: "cached bs (b_sector x) = Some b" using assms by (subst cached_iff) auto
  show "content (bs[b := x]) d sec = ((content bs d)(b_sector x := b_data x)) sec"
  proof (cases "sec = b_sector x")
    case True
    then show ?thesis using b assms by (simp add: content_def cached_upd [OF assms(1-6)])
  next
    case False
    then have "cached bs sec \<noteq> Some b" using assms(5) cached_iff [OF assms(1)] by auto
    then show ?thesis using False
      by (auto simp: content_def cached_upd [OF assms(1-6)] nth_list_update split: option.split)
  qed
qed

lemma secs_upd:
  assumes "cinv bs d n" "length bs = 31" "b < 30" "b_dev x = ROOTDEV" "b_sector x = b_sector (bs ! b)"
    "b_dev (bs ! b) = ROOTDEV"
  shows "busy_secs (bs[b := x]) = (if b_busy x then insert (b_sector x) (busy_secs bs) else busy_secs bs - {b_sector x})"
    "dirty_secs (bs[b := x]) = (if b_dirty x then insert (b_sector x) (dirty_secs bs) else dirty_secs bs - {b_sector x})"
proof -
  have c: "cached (bs[b := x]) = cached bs" by (rule cached_upd [OF assms])
  have b: "cached bs sec = Some b \<longleftrightarrow> sec = b_sector x" for sec
    using assms(3,5,6) cached_iff [OF assms(1), of sec b] by auto
  have i: "cached bs sec = Some i \<Longrightarrow> sec \<noteq> b_sector x \<Longrightarrow> bs[b := x] ! i = bs ! i" for sec i
    using b [of sec] by (cases "i = b") auto
  have x: "bs[b := x] ! b = x" using assms(2,3) by simp
  have "sec \<in> busy_secs (bs[b := x]) \<longleftrightarrow> (if sec = b_sector x then b_busy x else sec \<in> busy_secs bs)" for sec
    using b [of sec] i [of sec] x by (cases "sec = b_sector x") (auto simp: busy_secs_def c)
  then show "busy_secs (bs[b := x]) = (if b_busy x then insert (b_sector x) (busy_secs bs) else busy_secs bs - {b_sector x})"
    by (intro set_eqI, simp only:) simp
  have "sec \<in> dirty_secs (bs[b := x]) \<longleftrightarrow> (if sec = b_sector x then b_dirty x else sec \<in> dirty_secs bs)" for sec
    using b [of sec] i [of sec] x by (cases "sec = b_sector x") (auto simp: dirty_secs_def c)
  then show "dirty_secs (bs[b := x]) = (if b_dirty x then insert (b_sector x) (dirty_secs bs) else dirty_secs bs - {b_sector x})"
    by (intro set_eqI, simp only:) simp
qed

section \<open>The operations on blocks\<close>

lemma find_SomeD: "find P xs = Some b \<Longrightarrow> b \<in> set xs \<and> P b"
  by (induction xs) (auto split: if_splits)

lemma find_unique:
  assumes "b \<in> set xs" "P b" "\<And>i. i \<in> set xs \<Longrightarrow> P i \<Longrightarrow> i = b"
  shows "find P xs = Some b"
proof -
  have "find P xs \<noteq> None" using assms(1,2) by (auto simp: find_None_iff)
  then obtain j where j: "find P xs = Some j" by blast
  from find_SomeD [OF j] have "j = b" by (intro assms(3)) simp_all
  then show ?thesis using j by simp
qed

lemma find_mru_cached:
  assumes "mru bs xs" "cinv bs d n"
  shows "find (\<lambda>i. b_dev (bs ! i) = ROOTDEV \<and> b_sector (bs ! i) = sec) xs = cached bs sec"
proof (cases "cached bs sec")
  case None
  then have "find (\<lambda>i. b_dev (bs ! i) = 1 \<and> b_sector (bs ! i) = sec) xs = None"
    using assms(1) by (auto simp: find_None_iff cached_None mru_def)
  then show ?thesis using None by simp
next
  case (Some b)
  then have b: "b < 30" "b_dev (bs ! b) = 1" "b_sector (bs ! b) = sec"
    using cached_iff [OF assms(2)] by simp_all
  show ?thesis unfolding Some
  proof (rule find_unique)
    show "b \<in> set xs" using assms(1) b(1) by (simp add: mru_def)
    show "i = b" if "i \<in> set xs" "b_dev (bs ! i) = 1 \<and> b_sector (bs ! i) = sec" for i
      using that assms(1) b by (intro cinv_unique [OF assms(2)]) (auto simp: mru_def)
  qed (use b in simp)
qed

text \<open>The two ways in which the disk driver synchronises a buffer.\<close>

lemma iderw_read:
  assumes "b < length (bufs s)" "b_busy (bufs s ! b)" "\<not> b_valid (bufs s ! b)" "\<not> b_dirty (bufs s ! b)"
    "b_dev (bufs s ! b) = ROOTDEV" "b_sector (bufs s ! b) < disksize s"
  shows "iderw b s = Ret () (s\<lparr>bufs := (bufs s)[b := (bufs s ! b)\<lparr>
     b_data := disk s (b_sector (bufs s ! b)), b_valid := True\<rparr>]\<rparr>)"
  using assms by (simp add: iderw_def upd_buf_def)

lemma iderw_write:
  assumes "b < length (bufs s)" "b_busy (bufs s ! b)" "b_dirty (bufs s ! b)"
    "b_dev (bufs s ! b) = ROOTDEV" "b_sector (bufs s ! b) < disksize s"
  shows "iderw b s = Ret () (disk_write (b_sector (bufs s ! b)) (b_data (bufs s ! b))
     (s\<lparr>bufs := (bufs s)[b := (bufs s ! b)\<lparr>b_dirty := False, b_valid := True\<rparr>]\<rparr>))"
  using assms by (simp add: iderw_def upd_buf_def disk_write_def)

text \<open>\<open>bget\<close> finds the buffer of the sector, or recycles the one that has been unused longest.\<close>

lemma bget_cached:
  assumes "held s = []" "binv s" "cached (bufs s) sec = Some b" "\<not> b_busy (bufs s ! b)"
  shows "bget ROOTDEV sec s = Ret b (s\<lparr>bufs := (bufs s)[b := (bufs s ! b)\<lparr>b_busy := True\<rparr>]\<rparr>)"
proof -
  obtain xs where m: "mru (bufs s) xs" and c: "cinv (bufs s) (disk s) (disksize s)"
    using assms(2) by (auto simp: binv_def)
  show ?thesis
    using assms(1,3,4) scan_mru(1) [OF m] find_mru_cached [OF m c]
    by (simp add: bget_def upd_buf_def Let_def)
qed

lemma bget_new:
  assumes "held s = []" "binv s" "cached (bufs s) sec = None"
    and "\<exists>i<30. \<not> b_busy (bufs s ! i) \<and> \<not> b_dirty (bufs s ! i)"
  shows "\<exists>b<30. \<not> b_busy (bufs s ! b) \<and> \<not> b_dirty (bufs s ! b) \<and>
    bget ROOTDEV sec s = Ret b (s\<lparr>bufs := (bufs s)[b := (bufs s ! b)\<lparr>b_dev := ROOTDEV, b_sector := sec,
      b_busy := True, b_valid := False, b_dirty := False\<rparr>]\<rparr>)"
proof -
  obtain xs where m: "mru (bufs s) xs" and c: "cinv (bufs s) (disk s) (disksize s)"
    using assms(2) by (auto simp: binv_def)
  let ?P = "\<lambda>i. \<not> b_busy (bufs s ! i) \<and> \<not> b_dirty (bufs s ! i)"
  have "find ?P (rev xs) \<noteq> None" using assms(4) m by (auto simp: find_None_iff mru_def)
  then obtain b where b: "find ?P (rev xs) = Some b" by blast
  then have "b \<in> set (rev xs)" "?P b" by (auto dest: find_SomeD)
  moreover have "b < 30" using calculation(1) m by (simp add: mru_def)
  moreover have "bget ROOTDEV sec s = Ret b (s\<lparr>bufs := (bufs s)[b := (bufs s ! b)\<lparr>b_dev := ROOTDEV, b_sector := sec,
      b_busy := True, b_valid := False, b_dirty := False\<rparr>]\<rparr>)"
    using assms(1,3) b scan_mru [OF m] find_mru_cached [OF m c]
    by (simp add: bget_def upd_buf_def Let_def)
  ultimately show ?thesis by blast
qed

text \<open>The buffer that \<open>bread\<close> returns: held, valid, and with the contents of the block.\<close>

definition fetched :: "nat \<Rightarrow> u32 \<Rightarrow> 'a bst_scheme \<Rightarrow> buf" where
  "fetched b sec s = (bufs s ! b)\<lparr>b_busy := True, b_valid := True, b_dev := ROOTDEV, b_sector := sec,
     b_data := block s sec\<rparr>"

lemma bread_fetches:
  assumes "held s = []" "binv s" "sec < disksize s" "sec \<notin> busy_secs (bufs s)"
    and "cached (bufs s) sec = None \<Longrightarrow> \<exists>i<30. \<not> b_busy (bufs s ! i) \<and> \<not> b_dirty (bufs s ! i)"
  shows "\<exists>b<30. bread ROOTDEV sec s = Ret b (s\<lparr>bufs := (bufs s)[b := fetched b sec s]\<rparr>)
    \<and> \<not> b_busy (bufs s ! b)
    \<and> (cached (bufs s) sec = Some b \<or> cached (bufs s) sec = None \<and> \<not> b_dirty (bufs s ! b))"
proof -
  have len: "length (bufs s) = 31" using assms(2) mru_length by (auto simp: binv_def)
  have c: "cinv (bufs s) (disk s) (disksize s)" using assms(2) by (simp add: binv_def)
  show ?thesis
  proof (cases "cached (bufs s) sec")
    case (Some b)
    then have b: "b < 30" "b_dev (bufs s ! b) = 1" "b_sector (bufs s ! b) = sec" "\<not> b_busy (bufs s ! b)"
      using cached_iff [OF c, of sec b] assms(4) by (auto simp: busy_secs_def)
    have "bread ROOTDEV sec s = Ret b (s\<lparr>bufs := (bufs s)[b := fetched b sec s]\<rparr>)"
    proof (cases "b_valid (bufs s ! b)")
      case True
      then have "fetched b sec s = (bufs s ! b)\<lparr>b_busy := True\<rparr>"
        using Some b by (cases "bufs s ! b") (simp add: fetched_def content_def)
      then show ?thesis using bget_cached [OF assms(1,2) Some b(4)] b len True by (simp add: bread_def)
    next
      case False
      then have f: "fetched b sec s = (bufs s ! b)\<lparr>b_busy := True, b_data := disk s sec, b_valid := True\<rparr>"
        using Some b by (cases "bufs s ! b") (simp add: fetched_def content_def)
      have "\<not> b_dirty (bufs s ! b)" using cinvD(4) [OF c b(1)] False by blast
      then show ?thesis using bget_cached [OF assms(1,2) Some b(4)] b len assms(3) False
        by (simp add: bread_def f iderw_read)
    qed
    then show ?thesis using b Some by blast
  next
    case None
    obtain b where b: "b < 30" "\<not> b_busy (bufs s ! b)" "\<not> b_dirty (bufs s ! b)"
      and g: "bget ROOTDEV sec s = Ret b (s\<lparr>bufs := (bufs s)[b := (bufs s ! b)\<lparr>b_dev := ROOTDEV, b_sector := sec,
        b_busy := True, b_valid := False, b_dirty := False\<rparr>]\<rparr>)"
      using bget_new [OF assms(1,2) None assms(5) [OF None]] by blast
    have "fetched b sec s = (bufs s ! b)\<lparr>b_dev := ROOTDEV, b_sector := sec, b_busy := True,
        b_dirty := False, b_data := disk s sec, b_valid := True\<rparr>"
      using b None by (cases "bufs s ! b") (simp add: fetched_def content_def)
    then have "bread ROOTDEV sec s = Ret b (s\<lparr>bufs := (bufs s)[b := fetched b sec s]\<rparr>)"
      using g b len assms(3) by (simp add: bread_def iderw_read)
    then show ?thesis using b None by blast
  qed
qed

section \<open>The contract\<close>

text \<open>
  What a program can observe of the cache: the blocks, the contents of the disk with the
  history of its writes, and the sets of held and of dirty sectors; and the effect of the
  operations on it.
\<close>

record bview =
  v_block :: "u32 \<Rightarrow> u8 list"
  v_disk :: "u32 \<Rightarrow> u8 list"
  v_trace :: "(u32 \<times> u8 list) list"
  v_busy :: "u32 set"
  v_dirty :: "u32 set"

definition view_of :: "'a bst_scheme \<Rightarrow> bview" where
  "view_of s = \<lparr>v_block = block s, v_disk = disk s, v_trace = wtrace s,
     v_busy = busy_secs (bufs s), v_dirty = dirty_secs (bufs s)\<rparr>"

definition v_read :: "u32 \<Rightarrow> bview \<Rightarrow> bview" where
  "v_read sec v = v\<lparr>v_busy := insert sec (v_busy v)\<rparr>"

definition v_modify :: "u32 \<Rightarrow> u8 list \<Rightarrow> bview \<Rightarrow> bview" where
  "v_modify sec d v = v\<lparr>v_block := (v_block v)(sec := d)\<rparr>"

definition v_pin :: "u32 \<Rightarrow> bview \<Rightarrow> bview" where
  "v_pin sec v = v\<lparr>v_dirty := insert sec (v_dirty v)\<rparr>"

definition v_write :: "u32 \<Rightarrow> bview \<Rightarrow> bview" where
  "v_write sec v = v\<lparr>v_disk := (v_disk v)(sec := v_block v sec),
     v_trace := v_trace v @ [(sec, v_block v sec)], v_dirty := v_dirty v - {sec}\<rparr>"

definition v_release :: "u32 \<Rightarrow> bview \<Rightarrow> bview" where
  "v_release sec v = v\<lparr>v_busy := v_busy v - {sec}\<rparr>"

text \<open>A buffer that the running process holds for a sector, and changing its data.\<close>

definition holds :: "'a bst_scheme \<Rightarrow> nat \<Rightarrow> u32 \<Rightarrow> bool" where
  "holds s b sec \<longleftrightarrow> b < 30 \<and> b_dev (bufs s ! b) = ROOTDEV \<and> b_sector (bufs s ! b) = sec
     \<and> b_busy (bufs s ! b) \<and> b_valid (bufs s ! b)"

definition put_data :: "nat \<Rightarrow> u8 list \<Rightarrow> 'a bst_scheme \<Rightarrow> 'a bst_scheme" where
  "put_data b d s = upd_buf b (\<lambda>x. x\<lparr>b_data := d\<rparr>) s"

text \<open>
  What the operations leave alone: everything but the cache, the disk, and the states of
  processes that they wake up.
\<close>

definition woken :: "proc list \<Rightarrow> proc list \<Rightarrow> bool" where
  "woken ps qs \<longleftrightarrow> list_all2 (\<lambda>p q. q = p \<or> state p = SLEEPING \<and> q = p\<lparr>state := RUNNABLE\<rparr>) ps qs"

lemma woken_refl [simp]: "woken ps ps"
  by (simp add: woken_def list_all2_refl)

lemma woken_trans: "woken ps qs \<Longrightarrow> woken qs rs \<Longrightarrow> woken ps rs"
  unfolding woken_def by (erule (1) list_all2_trans [rotated]) auto

lemma woken_wakeup1: "woken (ptable s) (ptable (wakeup1 ch s))"
  by (simp add: woken_def wakeup1_def list_all2_conv_all_nth)

definition bframe :: "'a bst_scheme \<Rightarrow> 'a bst_scheme \<Rightarrow> bool" where
  "bframe s s' \<longleftrightarrow> s' = s\<lparr>bufs := bufs s', disk := disk s', wtrace := wtrace s', ptable := ptable s'\<rparr>
     \<and> woken (ptable s) (ptable s')"

lemma bframe_refl [simp]: "bframe s s"
  by (simp add: bframe_def)

lemma bframe_trans:
  assumes "bframe s t" "bframe t u"
  shows "bframe s u"
proof -
  from assms(2) have u: "u = t\<lparr>bufs := bufs u, disk := disk u, wtrace := wtrace u, ptable := ptable u\<rparr>"
    and t: "t = s\<lparr>bufs := bufs t, disk := disk t, wtrace := wtrace t, ptable := ptable t\<rparr>"
    using assms(1) by (simp_all add: bframe_def)
  have "u = s\<lparr>bufs := bufs u, disk := disk u, wtrace := wtrace u, ptable := ptable u\<rparr>"
    by (subst u, subst t) simp
  then show ?thesis using assms woken_trans [of "ptable s" "ptable t" "ptable u"] by (simp add: bframe_def)
qed

lemma bframeD:
  assumes "bframe s s'"
  shows "held s' = held s" "disksize s' = disksize s" "cur s' = cur s"
proof -
  have e: "s' = s\<lparr>bufs := bufs s', disk := disk s', wtrace := wtrace s', ptable := ptable s'\<rparr>"
    using assms by (simp add: bframe_def)
  show "held s' = held s" "disksize s' = disksize s" "cur s' = cur s" by (subst e, simp)+
qed

section \<open>The code meets the contract\<close>

text \<open>Replacing a cached buffer by one for the same sector.\<close>

lemma upd_cached:
  assumes "binv s" "b < 30" "b_dev (bufs s ! b) = ROOTDEV" "b_dev x = ROOTDEV"
    "b_sector x = b_sector (bufs s ! b)" "b_valid x" "length (b_data x) = 512"
    "b_next x = b_next (bufs s ! b)" "b_prev x = b_prev (bufs s ! b)"
    "\<not> b_busy x \<Longrightarrow> \<not> b_dirty x \<Longrightarrow> b_data x = disk s (b_sector x)"
  defines "t \<equiv> s\<lparr>bufs := (bufs s)[b := x]\<rparr>" and "sec \<equiv> b_sector (bufs s ! b)"
  shows "binv t"
    "view_of t = \<lparr>v_block = (block s)(sec := b_data x), v_disk = disk s, v_trace = wtrace s,
       v_busy = (if b_busy x then insert sec (busy_secs (bufs s)) else busy_secs (bufs s) - {sec}),
       v_dirty = (if b_dirty x then insert sec (dirty_secs (bufs s)) else dirty_secs (bufs s) - {sec})\<rparr>"
proof -
  obtain xs where m: "mru (bufs s) xs" and c: "cinv (bufs s) (disk s) (disksize s)"
    using assms(1) by (auto simp: binv_def)
  have len: "length (bufs s) = 31" by (rule mru_length [OF m])
  have u: "b_sector (bufs s ! i) \<noteq> b_sector x" if "i < 30" "i \<noteq> b" "b_dev (bufs s ! i) = ROOTDEV" for i
    using cinv_unique [OF c that(1) assms(2) that(3) assms(3)] assms(5) that(2) by auto
  have "cinv ((bufs s)[b := x]) (disk s) (disksize s)"
    by (rule cinv_upd [OF c len assms(2,4,7) u]) (use assms(6,10) in auto)
  moreover have "mru ((bufs s)[b := x]) xs" by (rule mru_upd [OF m assms(8,9)])
  ultimately show "binv t" by (auto simp: binv_def t_def)
  show "view_of t = \<lparr>v_block = (block s)(sec := b_data x), v_disk = disk s, v_trace = wtrace s,
       v_busy = (if b_busy x then insert sec (busy_secs (bufs s)) else busy_secs (bufs s) - {sec}),
       v_dirty = (if b_dirty x then insert sec (dirty_secs (bufs s)) else dirty_secs (bufs s) - {sec})\<rparr>"
    using content_upd [OF c len assms(2,4,5,3,6)] secs_upd [OF c len assms(2,4,5,3)] assms(5)
    by (simp add: view_of_def t_def sec_def)
qed

lemma holds_data:
  assumes "binv s" "holds s b sec"
  shows "b_data (bufs s ! b) = block s sec" "sec \<in> busy_secs (bufs s)" "length (block s sec) = 512"
    "b < length (bufs s)"
proof -
  have c: "cinv (bufs s) (disk s) (disksize s)" using assms(1) by (simp add: binv_def)
  show e: "b_data (bufs s ! b) = block s sec"
    using content_cached [OF c, of b] assms(2) by (simp add: holds_def)
  show "sec \<in> busy_secs (bufs s)"
    using cached_iff [OF c, of sec b] assms(2) by (simp add: holds_def busy_secs_def)
  show "length (block s sec) = 512" using cinvD(1) [OF c, of b] assms(2) e by (simp add: holds_def)
  show "b < length (bufs s)" using assms mru_length by (auto simp: binv_def holds_def)
qed

lemma holds_other:
  assumes "holds s i sc" "i < 31" "b_dev x = ROOTDEV" "i = b \<Longrightarrow> b_sector x = sc \<and> b_busy x \<and> b_valid x"
    "length (bufs s) = 31"
  shows "holds (s\<lparr>bufs := (bufs s)[b := x]\<rparr>) i sc"
  using assms by (cases "i = b") (auto simp: holds_def)

lemma put_data_law:
  assumes "binv s" "holds s b sec" "length d = 512"
  shows "binv (put_data b d s)" "view_of (put_data b d s) = v_modify sec d (view_of s)"
    "bframe s (put_data b d s)" "holds s i sc \<Longrightarrow> holds (put_data b d s) i sc"
proof -
  have h: "b < 30" "b_dev (bufs s ! b) = 1" "b_sector (bufs s ! b) = sec" "b_busy (bufs s ! b)" "b_valid (bufs s ! b)"
    using assms(2) by (simp_all add: holds_def)
  let ?x = "(bufs s ! b)\<lparr>b_data := d\<rparr>"
  have e: "put_data b d s = s\<lparr>bufs := (bufs s)[b := ?x]\<rparr>" by (simp add: put_data_def upd_buf_def)
  have "sec \<in> busy_secs (bufs s)" by (rule holds_data [OF assms(1,2)])
  moreover have "sec \<in> dirty_secs (bufs s) \<longleftrightarrow> b_dirty (bufs s ! b)"
    using cached_iff [of "bufs s" "disk s" "disksize s" sec b] h assms(1)
    by (simp add: dirty_secs_def binv_def)
  ultimately show "view_of (put_data b d s) = v_modify sec d (view_of s)"
    using upd_cached(2) [OF assms(1) h(1,2), of ?x] h assms(3)
    by (auto simp: e view_of_def v_modify_def insert_absorb)
  show "binv (put_data b d s)"
    using upd_cached(1) [OF assms(1) h(1,2), of ?x] h assms(3) by (simp add: e)
  show "bframe s (put_data b d s)" by (simp add: bframe_def e)
  show "holds s i sc \<Longrightarrow> holds (put_data b d s) i sc"
    unfolding e using h holds_data(4) [OF assms(1)] assms(1) mru_length
    by (intro holds_other) (auto simp: holds_def binv_def)
qed

lemma dirty_iff:
  "binv s \<Longrightarrow> holds s b sec \<Longrightarrow> sec \<in> dirty_secs (bufs s) \<longleftrightarrow> b_dirty (bufs s ! b)"
  using cached_iff [of "bufs s" "disk s" "disksize s" sec b]
  by (simp add: dirty_secs_def binv_def holds_def)

lemma pin_law:
  assumes "binv s" "holds s b sec"
  defines "t \<equiv> upd_buf b (\<lambda>x. x\<lparr>b_dirty := True\<rparr>) s"
  shows "binv t" "view_of t = v_pin sec (view_of s)" "bframe s t" "holds s i sc \<Longrightarrow> holds t i sc"
proof -
  have h: "b < 30" "b_dev (bufs s ! b) = 1" "b_sector (bufs s ! b) = sec" "b_busy (bufs s ! b)" "b_valid (bufs s ! b)"
    using assms(2) by (simp_all add: holds_def)
  let ?x = "(bufs s ! b)\<lparr>b_dirty := True\<rparr>"
  have e: "t = s\<lparr>bufs := (bufs s)[b := ?x]\<rparr>" by (simp add: t_def upd_buf_def)
  note d = holds_data [OF assms(1,2)]
  have l: "length (b_data (bufs s ! b)) = 512" using d by simp
  show "view_of t = v_pin sec (view_of s)"
    using upd_cached(2) [OF assms(1) h(1,2), of ?x] h l d
    by (simp add: e view_of_def v_pin_def insert_absorb)
  show "binv t" using upd_cached(1) [OF assms(1) h(1,2), of ?x] h l by (simp add: e)
  show "bframe s t" by (simp add: bframe_def e)
  show "holds s i sc \<Longrightarrow> holds t i sc"
    unfolding e using h assms(1) mru_length
    by (intro holds_other) (auto simp: holds_def binv_def)
qed

text \<open>Writing the data of a held buffer to the disk.\<close>

lemma cinv_disk:
  assumes "cinv bs d n" "b < 30" "b_dev (bs ! b) = ROOTDEV" "length v = 512"
    "\<not> b_busy (bs ! b) \<Longrightarrow> \<not> b_dirty (bs ! b) \<Longrightarrow> b_data (bs ! b) = v"
  shows "cinv bs (d(b_sector (bs ! b) := v)) n"
proof -
  let ?d = "d(b_sector (bs ! b) := v)"
  have "b_data (bs ! i) = ?d (b_sector (bs ! i))"
    if "i < 30" "b_dev (bs ! i) = ROOTDEV" "b_valid (bs ! i)" "\<not> b_busy (bs ! i)" "\<not> b_dirty (bs ! i)" for i
  proof (cases "b_sector (bs ! i) = b_sector (bs ! b)")
    case True
    then have "i = b" using that assms(2,3) by (intro cinv_unique [OF assms(1)])
    then show ?thesis using assms(5) that by simp
  next
    case False
    then show ?thesis using cinvD(5) [OF assms(1) that(1)] that by simp
  qed
  moreover have "length (?d sec) = 512" if "sec < n" for sec using cinvD(6) [OF assms(1) that] assms(4) by simp
  ultimately show ?thesis using cinvD(1-4) [OF assms(1)] cinv_unique [OF assms(1)]
    unfolding cinv_def by (intro conjI allI impI) (assumption | blast)+
qed

lemma bwrite_law:
  assumes "binv s" "holds s b sec" "sec < disksize s"
  shows "\<exists>t. bwrite b s = Ret () t \<and> binv t \<and> view_of t = v_write sec (view_of s) \<and> bframe s t
    \<and> (\<forall>i sc. holds s i sc \<longrightarrow> holds t i sc)"
proof -
  have h: "b < 30" "b_dev (bufs s ! b) = 1" "b_sector (bufs s ! b) = sec" "b_busy (bufs s ! b)" "b_valid (bufs s ! b)"
    using assms(2) by (simp_all add: holds_def)
  note d = holds_data [OF assms(1,2)]
  let ?x = "(bufs s ! b)\<lparr>b_dirty := False, b_valid := True\<rparr>"
  let ?u = "s\<lparr>bufs := (bufs s)[b := ?x]\<rparr>"
  have l: "length (b_data (bufs s ! b)) = 512" using d by simp
  have len: "length (bufs s) = 31" using assms(1) mru_length by (auto simp: binv_def)
  let ?t = "disk_write sec (block s sec) ?u"
  have w: "bwrite b s = Ret () ?t"
    using h d(1,4) assms(3) by (simp add: bwrite_def iderw_write upd_buf_def)
  have u: "binv ?u" "view_of ?u = \<lparr>v_block = block s, v_disk = disk s, v_trace = wtrace s,
       v_busy = busy_secs (bufs s), v_dirty = dirty_secs (bufs s) - {sec}\<rparr>"
    using upd_cached [OF assms(1) h(1,2), of ?x] h l d by (simp_all add: insert_absorb)
  have cu: "cinv (bufs ?u) (disk s) (disksize s)" "\<exists>xs. mru (bufs ?u) xs"
    using u(1) by (simp_all add: binv_def)
  have bt: "binv ?t" using cinv_disk [OF cu(1) h(1), of "block s sec"] cu(2) h d len
    by (simp add: binv_def disk_write_def)
  have "content (bufs ?u) ((disk s)(sec := block s sec)) = content (bufs ?u) (disk s)"
  proof (rule ext)
    fix sc
    have "cached (bufs ?u) sec = Some b" using cached_iff [OF cu(1), of sec b] h len by simp
    then show "content (bufs ?u) ((disk s)(sec := block s sec)) sc = content (bufs ?u) (disk s) sc"
      using h len by (cases "sc = sec") (simp_all add: content_def split: option.split)
  qed
  then have "view_of ?t = v_write sec (view_of s)"
    using u(2) by (simp add: view_of_def v_write_def disk_write_def)
  moreover have "bframe s ?t" by (simp add: bframe_def disk_write_def)
  moreover have "holds s i sc \<longrightarrow> holds ?t i sc" for i sc
    using h holds_other [of s i sc ?x b] len by (auto simp: holds_def disk_write_def)
  ultimately show ?thesis using w bt by blast
qed


text \<open>Releasing a buffer moves it to the front of the list and changes no block.\<close>

lemma brelse_eq:
  assumes "held s = []" "b_busy (bufs s ! b)" "b < 30" "length (bufs s) = 31"
  shows "brelse b s = Ret () (wakeup1 (Ch_buf b) (s\<lparr>bufs :=
     (relink b (unlink b (bufs s)))[b := (relink b (unlink b (bufs s)) ! b)\<lparr>b_busy := False\<rparr>]\<rparr>))"
proof -
  let ?u = "unlink b (bufs s)"
  have "brelse b s = bindR (wakeup (Ch_buf b) (s\<lparr>held := [L_bcache], bufs :=
     (relink b ?u)[b := (relink b ?u ! b)\<lparr>b_busy := False\<rparr>]\<rparr>)) (\<lambda>_. release L_bcache)"
    using assms by (simp add: brelse_def upd_buf_def Let_def relink_def unlink_def)
  then show ?thesis using assms(1) by (simp add: wakeup_def wakeup1_def)
qed

lemma brelse_law:
  assumes "held s = []" "binv s" "holds s b sec"
    and "sec \<in> dirty_secs (bufs s) \<or> block s sec = disk s sec"
  shows "\<exists>t. brelse b s = Ret () t \<and> binv t \<and> view_of t = v_release sec (view_of s) \<and> bframe s t
    \<and> (\<forall>i sc. i \<noteq> b \<longrightarrow> holds s i sc \<longrightarrow> holds t i sc)"
proof -
  have h: "b < 30" "b_dev (bufs s ! b) = 1" "b_sector (bufs s ! b) = sec" "b_busy (bufs s ! b)" "b_valid (bufs s ! b)"
    using assms(3) by (simp_all add: holds_def)
  note d = holds_data [OF assms(2,3)]
  obtain xs where m: "mru (bufs s) xs" and c: "cinv (bufs s) (disk s) (disksize s)"
    using assms(2) by (auto simp: binv_def)
  have len: "length (bufs s) = 31" by (rule mru_length [OF m])
  let ?r = "relink b (unlink b (bufs s))"
  let ?w = "s\<lparr>bufs := ?r\<rparr>"
  have cr: "map core ?r = map core (bufs s)" "length ?r = 31" by (simp_all add: relink_simps len)
  note cong = cong_cores [OF cr]
  have bw: "binv ?w" using mru_move_front [OF m h(1)] c by (auto simp: binv_def cong)
  have rb: "core (?r ! b) = core (bufs s ! b)" using cores_nth [OF cr(1)] cr(2) h(1) by simp
  note rb = rb [THEN core_eqD(1)] rb [THEN core_eqD(2)] rb [THEN core_eqD(3)] rb [THEN core_eqD(4)]
    rb [THEN core_eqD(5)] rb [THEN core_eqD(6)]
  let ?x = "(?r ! b)\<lparr>b_busy := False\<rparr>"
  let ?u = "?w\<lparr>bufs := (bufs ?w)[b := ?x]\<rparr>"
  have clean: "b_data ?x = disk ?w (b_sector ?x)" if "\<not> b_dirty ?x"
    using that assms(4) dirty_iff [OF assms(2,3)] h(3) d(1) by (simp add: rb)
  have side: "b_dev (bufs ?w ! b) = 1" "b_dev ?x = 1" "b_sector ?x = b_sector (bufs ?w ! b)" "b_valid ?x"
      "length (b_data ?x) = 512" "b_next ?x = b_next (bufs ?w ! b)" "b_prev ?x = b_prev (bufs ?w ! b)"
    using h d by (simp_all add: rb)
  have u: "binv ?u" by (rule upd_cached(1) [OF bw h(1) side clean])
  have "view_of ?u = \<lparr>v_block = (block ?w)(sec := b_data ?x), v_disk = disk s, v_trace = wtrace s,
      v_busy = busy_secs ?r - {sec},
      v_dirty = (if b_dirty ?x then insert sec (dirty_secs ?r) else dirty_secs ?r - {sec})\<rparr>"
    using upd_cached(2) [OF bw h(1) side clean] h(3) by (simp add: rb)
  then have uv: "view_of ?u = v_release sec (view_of s)"
    using d(1) dirty_iff [OF assms(2,3)] by (auto simp: rb cong view_of_def v_release_def)
  let ?t = "wakeup1 (Ch_buf b) ?u"
  have t: "bufs ?t = bufs ?u" "disk ?t = disk s" "disksize ?t = disksize s" "wtrace ?t = wtrace s"
    by (simp_all add: wakeup1_def)
  have "brelse b s = Ret () ?t" using brelse_eq [OF assms(1) h(4,1) len] by simp
  moreover have "binv ?t" using u unfolding binv_def t by simp
  moreover have "view_of ?t = v_release sec (view_of s)" using uv unfolding view_of_def t by simp
  moreover have "bframe s ?t" using woken_wakeup1 [of ?u "Ch_buf b"] by (simp add: bframe_def wakeup1_def)
  moreover have "holds ?t i sc" if "i \<noteq> b" "holds s i sc" for i sc
  proof -
    have "core (?r ! i) = core (bufs s ! i)" using that(2) cores_nth [OF cr(1)] cr(2) by (simp add: holds_def)
    from core_eqD [OF this] show ?thesis using that unfolding holds_def t(1) by simp
  qed
  ultimately show ?thesis by blast
qed

text \<open>
  Reading a block succeeds if nobody holds it and it is in the cache for the log, or fewer than
  \<open>NBUF\<close> sectors are held or dirty.
\<close>

definition pinned :: "bview \<Rightarrow> u32 set" where
  "pinned v = v_busy v \<union> v_dirty v"

lemma room_for_block:
  assumes "cinv bs d n" "card (busy_secs bs \<union> dirty_secs bs) < 30"
  shows "\<exists>i<30. \<not> b_busy (bs ! i) \<and> \<not> b_dirty (bs ! i)"
proof (rule ccontr)
  assume "\<not> ?thesis"
  then have all: "b_busy (bs ! i) \<or> b_dirty (bs ! i)" if "i < 30" for i using that by blast
  then have dev: "b_dev (bs ! i) = ROOTDEV" if "i < 30" for i using that cinvD(2,3) [OF assms(1)] by blast
  have inj: "inj_on (\<lambda>i. b_sector (bs ! i)) {..<30}"
    by (rule inj_onI, rule cinv_unique [OF assms(1)]) (simp_all add: dev)
  have "b_sector (bs ! i) \<in> busy_secs bs \<union> dirty_secs bs" if "i < 30" for i
    using cached_iff [OF assms(1), of "b_sector (bs ! i)" i] dev [OF that] all [OF that] that
    by (auto simp: busy_secs_def dirty_secs_def)
  then have "card ((\<lambda>i. b_sector (bs ! i)) ` {..<30}) \<le> card (busy_secs bs \<union> dirty_secs bs)"
    by (intro card_mono) auto
  then show False using card_image [OF inj] assms(2) by simp
qed

lemma cached_evict:
  assumes "cinv bs d n" "length bs = 31" "b < 30" "cached bs sec = None"
    "b_dev x = ROOTDEV" "b_sector x = sec" "cinv (bs[b := x]) d n"
  shows "cached (bs[b := x]) sc =
    (if sc = sec then Some b else if cached bs sc = Some b then None else cached bs sc)"
proof (cases "sc = sec")
  case True
  then show ?thesis using cached_iff [OF assms(7), of sec b] assms(2,3,5,6) by simp
next
  case False
  have i: "cached (bs[b := x]) sc = Some i \<longleftrightarrow> i \<noteq> b \<and> cached bs sc = Some i" for i
    using cached_iff [OF assms(7), of sc i] cached_iff [OF assms(1), of sc i] False assms(2,3,6)
    by (cases "i = b") simp_all
  show ?thesis
  proof (cases "cached bs sc")
    case None
    then have "cached (bs[b := x]) sc \<noteq> Some a" for a using i [of a] by simp
    then have "cached (bs[b := x]) sc = None" by blast
    then show ?thesis using None False by simp
  next
    case (Some j)
    then show ?thesis using i [of j] i [of "the (cached (bs[b := x]) sc)"] False
      by (cases "cached (bs[b := x]) sc") auto
  qed
qed

lemma evict:
  assumes "cinv bs d n" "length bs = 31" "b < 30" "cached bs sec = None"
    "\<not> b_busy (bs ! b)" "\<not> b_dirty (bs ! b)"
    "b_dev x = ROOTDEV" "b_sector x = sec" "b_busy x" "b_valid x" "\<not> b_dirty x"
    "b_data x = d sec" "length (d sec) = 512"
  shows "cinv (bs[b := x]) d n" "content (bs[b := x]) d = content bs d"
    "busy_secs (bs[b := x]) = insert sec (busy_secs bs)" "dirty_secs (bs[b := x]) = dirty_secs bs"
proof -
  show ci: "cinv (bs[b := x]) d n"
    using assms by (intro cinv_upd) (auto simp: cached_None)
  note ca = cached_evict [OF assms(1-4,7,8) ci]
  have x: "bs[b := x] ! i = (if i = b then x else bs ! i)" for i using assms(2,3) by simp
  have old: "content bs d sc = d sc" if "cached bs sc = Some b" for sc
    using that cinvD(5) [OF assms(1,3)] cached_iff [OF assms(1), of sc b] assms(5,6) by (auto simp: content_def)
  have none: "content bs d sec = d sec" using assms(4) by (simp add: content_def)
  show "content (bs[b := x]) d = content bs d"
  proof (rule ext)
    fix sc
    consider "sc = sec" | "sc \<noteq> sec" "cached bs sc = Some b" | "sc \<noteq> sec" "cached bs sc \<noteq> Some b" by blast
    then show "content (bs[b := x]) d sc = content bs d sc"
    proof cases
      case 1
      then show ?thesis using none assms(10,12) ca [of sec] x by (simp add: content_def)
    next
      case 2
      then show ?thesis using old ca [of sc] by (simp add: content_def)
    next
      case 3
      then show ?thesis using ca [of sc] x by (auto simp: content_def split: option.split)
    qed
  qed
  show "busy_secs (bs[b := x]) = insert sec (busy_secs bs)"
    using assms(4,5,9) by (auto simp: busy_secs_def ca x split: if_splits)
  show "dirty_secs (bs[b := x]) = dirty_secs bs"
    using assms(4,6,11) by (auto simp: dirty_secs_def ca x split: if_splits)
qed

lemma bread_law:
  assumes "held s = []" "binv s" "sec < disksize s" "sec \<notin> v_busy (view_of s)"
    and "sec \<in> v_dirty (view_of s) \<or> card (pinned (view_of s)) < 30"
  shows "\<exists>b t. bread ROOTDEV sec s = Ret b t \<and> binv t \<and> view_of t = v_read sec (view_of s) \<and> bframe s t
    \<and> holds t b sec \<and> (\<forall>i sc. holds s i sc \<longrightarrow> i \<noteq> b \<and> holds t i sc)"
proof -
  obtain xs where m: "mru (bufs s) xs" and c: "cinv (bufs s) (disk s) (disksize s)"
    using assms(2) by (auto simp: binv_def)
  have len: "length (bufs s) = 31" by (rule mru_length [OF m])
  have room: "\<exists>i<30. \<not> b_busy (bufs s ! i) \<and> \<not> b_dirty (bufs s ! i)" if "cached (bufs s) sec = None"
    using that assms(5) room_for_block [OF c] by (auto simp: dirty_secs_def view_of_def pinned_def)
  have nb: "sec \<notin> busy_secs (bufs s)" using assms(4) by (simp add: view_of_def)
  from bread_fetches [OF assms(1-3) nb room] obtain b where b: "b < 30"
      "bread ROOTDEV sec s = Ret b (s\<lparr>bufs := (bufs s)[b := fetched b sec s]\<rparr>)" "\<not> b_busy (bufs s ! b)"
      "cached (bufs s) sec = Some b \<or> cached (bufs s) sec = None \<and> \<not> b_dirty (bufs s ! b)"
    by blast
  let ?x = "fetched b sec s"
  have x: "b_dev ?x = 1" "b_sector ?x = sec" "b_busy ?x" "b_valid ?x" "b_data ?x = block s sec"
      "b_dirty ?x = b_dirty (bufs s ! b)" "b_next ?x = b_next (bufs s ! b)" "b_prev ?x = b_prev (bufs s ! b)"
    by (simp_all add: fetched_def)
  let ?t = "s\<lparr>bufs := (bufs s)[b := ?x]\<rparr>"
  have l: "length (block s sec) = 512"
    using cinvD(1) [OF c] cinvD(6) [OF c assms(3)] cached_iff [OF c, of sec] by (auto simp: content_def split: option.split)
  have "binv ?t \<and> view_of ?t = v_read sec (view_of s)"
  proof (cases "cached (bufs s) sec")
    case None
    then have "b_data ?x = disk s sec" "\<not> b_dirty (bufs s ! b)" using x(5) b(4) by (simp_all add: content_def)
    note ev = evict [OF c len b(1) None b(3) this(2) x(1,2,3,4) _ this(1) cinvD(6) [OF c assms(3)]]
    show ?thesis
      using ev x(6) \<open>\<not> b_dirty (bufs s ! b)\<close> mru_upd [OF m x(7,8)]
      by (auto simp: binv_def view_of_def v_read_def)
  next
    case (Some i)
    then have "i = b" "b_dev (bufs s ! b) = 1" "b_sector (bufs s ! b) = sec"
      using b(4) cached_iff [OF c, of sec b] by simp_all
    then show ?thesis
      using upd_cached [OF assms(2) b(1), of ?x] x l Some
      by (auto simp: view_of_def v_read_def dirty_secs_def)
  qed
  moreover have "holds ?t b sec" using x len b(1) by (simp add: holds_def)
  moreover have "i \<noteq> b \<and> holds ?t i sc" if "holds s i sc" for i sc
    using that b(3) by (cases "i = b") (auto simp: holds_def)
  moreover have "bframe s ?t" by (simp add: bframe_def)
  ultimately show ?thesis using b(2) by blast
qed

section \<open>The interface\<close>

definition v_copy :: "u32 \<Rightarrow> u32 \<Rightarrow> bview \<Rightarrow> bview" where
  "v_copy a c v = v_release c (v_release a (v_write c (v_modify c (v_block v a) v)))"

text \<open>
  A cache of blocks for a client that reads, changes, writes and releases them: \<open>ok\<close> is the
  invariant of the provider, \<open>view\<close> what the client sees, \<open>owns s b sec\<close> that handle \<open>b\<close> is
  held for a sector, and \<open>frame\<close> relates the states before and after an operation.
\<close>

locale block_cache =
  fixes rd :: "u32 \<Rightarrow> 's \<Rightarrow> ('s, nat) res"
    and wr :: "nat \<Rightarrow> 's \<Rightarrow> ('s, unit) res"
    and rel :: "nat \<Rightarrow> 's \<Rightarrow> ('s, unit) res"
    and get :: "nat \<Rightarrow> 's \<Rightarrow> u8 list"
    and put :: "nat \<Rightarrow> u8 list \<Rightarrow> 's \<Rightarrow> 's"
    and ok :: "'s \<Rightarrow> bool"
    and owns :: "'s \<Rightarrow> nat \<Rightarrow> u32 \<Rightarrow> bool"
    and view :: "'s \<Rightarrow> bview"
    and frame :: "'s \<Rightarrow> 's \<Rightarrow> bool"
    and nsec :: "'s \<Rightarrow> u32"
  assumes rd_law: "ok s \<Longrightarrow> sec < nsec s \<Longrightarrow> sec \<notin> v_busy (view s) \<Longrightarrow>
      sec \<in> v_dirty (view s) \<or> card (pinned (view s)) < 30 \<Longrightarrow>
      \<exists>b t. rd sec s = Ret b t \<and> ok t \<and> view t = v_read sec (view s) \<and> frame s t
        \<and> owns t b sec \<and> (\<forall>i sc. owns s i sc \<longrightarrow> i \<noteq> b \<and> owns t i sc)"
    and get_law: "ok s \<Longrightarrow> owns s b sec \<Longrightarrow> get b s = v_block (view s) sec"
    and block_length: "ok s \<Longrightarrow> owns s b sec \<Longrightarrow> length (v_block (view s) sec) = 512"
    and put_law: "ok s \<Longrightarrow> owns s b sec \<Longrightarrow> length d = 512 \<Longrightarrow>
      ok (put b d s) \<and> view (put b d s) = v_modify sec d (view s) \<and> frame s (put b d s)
        \<and> (\<forall>i sc. owns s i sc \<longrightarrow> owns (put b d s) i sc)"
    and wr_law: "ok s \<Longrightarrow> owns s b sec \<Longrightarrow> sec < nsec s \<Longrightarrow>
      \<exists>t. wr b s = Ret () t \<and> ok t \<and> view t = v_write sec (view s) \<and> frame s t
        \<and> (\<forall>i sc. owns s i sc \<longrightarrow> owns t i sc)"
    and rel_law: "ok s \<Longrightarrow> owns s b sec \<Longrightarrow>
      sec \<in> v_dirty (view s) \<or> v_block (view s) sec = v_disk (view s) sec \<Longrightarrow>
      \<exists>t. rel b s = Ret () t \<and> ok t \<and> view t = v_release sec (view s) \<and> frame s t
        \<and> (\<forall>i sc. i \<noteq> b \<longrightarrow> owns s i sc \<longrightarrow> owns t i sc)"
    and frame_trans: "frame s t \<Longrightarrow> frame t u \<Longrightarrow> frame s u"
    and frame_nsec: "frame s t \<Longrightarrow> nsec t = nsec s"
begin

text \<open>
  With two blocks held, copying one to the other, writing that one to the disk and releasing
  both: the rest of a round of \<open>write_log\<close> and \<open>install_trans\<close>.
\<close>

lemma copy_tail_law:
  assumes "ok s" "owns s x a" "owns s y c" "x \<noteq> y" "a \<noteq> c" "c < nsec s"
    and "a \<in> v_dirty (view s) \<or> v_block (view s) a = v_disk (view s) a"
  shows "\<exists>t. bindR (wr y (put y (get x s) s)) (\<lambda>_ s. bindR (rel x s) (\<lambda>_ s. rel y s)) = Ret () t \<and> ok t \<and> frame s t \<and> view t = v_copy a c (view s)"
proof -
  define d where "d = v_block (view s) a"
  have g: "get x s = d" using get_law [OF assms(1,2)] by (simp add: d_def)
  have l: "length d = 512" using block_length [OF assms(1,2)] by (simp add: d_def)
  let ?s1 = "put y d s"
  note p = put_law [OF assms(1,3) l]
  from wr_law [of ?s1 y c] p assms(3,6) frame_nsec [of s ?s1] obtain s2 where
    s2: "wr y ?s1 = Ret () s2" "ok s2" "view s2 = v_write c (view ?s1)" "frame ?s1 s2"
      "\<forall>i sc. owns ?s1 i sc \<longrightarrow> owns s2 i sc" by auto
  have v2: "view s2 = v_write c (v_modify c d (view s))" using s2(3) p by simp
  have "a \<in> v_dirty (view s2) \<or> v_block (view s2) a = v_disk (view s2) a"
    using assms(5,7) by (auto simp: v2 v_write_def v_modify_def)
  with rel_law [of s2 x a] s2 p assms(2) obtain s3 where
    s3: "rel x s2 = Ret () s3" "ok s3" "view s3 = v_release a (view s2)" "frame s2 s3"
      "\<forall>i sc. i \<noteq> x \<longrightarrow> owns s2 i sc \<longrightarrow> owns s3 i sc" by blast
  have "v_block (view s3) c = v_disk (view s3) c" by (simp add: s3(3) v2 v_release_def v_write_def v_modify_def)
  moreover have "owns s3 y c" using s3(5) s2(5) p assms(3,4) by metis
  ultimately obtain s4 where
    s4: "rel y s3 = Ret () s4" "ok s4" "view s4 = v_release c (view s3)" "frame s3 s4"
    using rel_law [OF s3(2)] by blast
  have "frame s s4" using p s2(4) s3(4) s4(4) frame_trans by blast
  moreover have "view s4 = v_copy a c (view s)" by (simp add: s4(3) s3(3) v2 v_copy_def d_def)
  ultimately show ?thesis using g s2(1) s3(1) s4(1,2) by auto
qed

end

text \<open>The code of the buffer cache provides the interface.\<close>

definition bio_ok :: "'a bst_scheme \<Rightarrow> bool" where
  "bio_ok s \<longleftrightarrow> held s = [] \<and> binv s"

interpretation bio: block_cache "bread ROOTDEV" bwrite brelse "\<lambda>b s. b_data (bufs s ! b)" put_data
  bio_ok holds view_of bframe disksize
proof
  fix s t u :: "'a bst_scheme" and sec b d i sc
  show "bio_ok s \<Longrightarrow> sec < disksize s \<Longrightarrow> sec \<notin> v_busy (view_of s) \<Longrightarrow>
      sec \<in> v_dirty (view_of s) \<or> card (pinned (view_of s)) < 30 \<Longrightarrow>
      \<exists>b t. bread ROOTDEV sec s = Ret b t \<and> bio_ok t \<and> view_of t = v_read sec (view_of s) \<and> bframe s t
        \<and> holds t b sec \<and> (\<forall>i sc. holds s i sc \<longrightarrow> i \<noteq> b \<and> holds t i sc)"
    using bread_law [of s sec] bframeD(1) unfolding bio_ok_def by metis
  show "bio_ok s \<Longrightarrow> holds s b sec \<Longrightarrow> b_data (bufs s ! b) = v_block (view_of s) sec"
    "bio_ok s \<Longrightarrow> holds s b sec \<Longrightarrow> length (v_block (view_of s) sec) = 512"
    using holds_data [of s b sec] by (simp_all add: bio_ok_def view_of_def)
  show "bio_ok s \<Longrightarrow> holds s b sec \<Longrightarrow> length d = 512 \<Longrightarrow>
      bio_ok (put_data b d s) \<and> view_of (put_data b d s) = v_modify sec d (view_of s) \<and> bframe s (put_data b d s)
        \<and> (\<forall>i sc. holds s i sc \<longrightarrow> holds (put_data b d s) i sc)"
    using put_data_law [of s b sec d] bframeD(1) [of s "put_data b d s"] unfolding bio_ok_def by simp
  show "bio_ok s \<Longrightarrow> holds s b sec \<Longrightarrow> sec < disksize s \<Longrightarrow>
      \<exists>t. bwrite b s = Ret () t \<and> bio_ok t \<and> view_of t = v_write sec (view_of s) \<and> bframe s t
        \<and> (\<forall>i sc. holds s i sc \<longrightarrow> holds t i sc)"
    using bwrite_law [of s b sec] bframeD(1) unfolding bio_ok_def by metis
  show "bio_ok s \<Longrightarrow> holds s b sec \<Longrightarrow>
      sec \<in> v_dirty (view_of s) \<or> v_block (view_of s) sec = v_disk (view_of s) sec \<Longrightarrow>
      \<exists>t. brelse b s = Ret () t \<and> bio_ok t \<and> view_of t = v_release sec (view_of s) \<and> bframe s t
        \<and> (\<forall>i sc. i \<noteq> b \<longrightarrow> holds s i sc \<longrightarrow> holds t i sc)"
  proof -
    assume a: "bio_ok s" "holds s b sec" "sec \<in> v_dirty (view_of s) \<or> v_block (view_of s) sec = v_disk (view_of s) sec"
    then obtain t where t: "brelse b s = Ret () t" "binv t" "view_of t = v_release sec (view_of s)" "bframe s t"
        "\<forall>i sc. i \<noteq> b \<longrightarrow> holds s i sc \<longrightarrow> holds t i sc"
      using brelse_law [of s b sec] by (auto simp: bio_ok_def view_of_def)
    moreover have "bio_ok t" using a(1) t(2) bframeD(1) [OF t(4)] by (simp add: bio_ok_def)
    ultimately show ?thesis by blast
  qed
  show "bframe s t \<Longrightarrow> bframe t u \<Longrightarrow> bframe s u" by (rule bframe_trans)
  show "bframe s t \<Longrightarrow> disksize t = disksize s" by (rule bframeD(2))
qed

section \<open>The empty cache\<close>

text \<open>The buffers as the kernel finds them when it starts, all zero.\<close>

definition zero_buf :: buf where
  "zero_buf = \<lparr>b_busy = False, b_valid = False, b_dirty = False, b_dev = 0, b_sector = 0,
     b_prev = 0, b_next = 0, b_data = replicate 512 0\<rparr>"

lemma binit_zero:
  assumes "bufs s = replicate 31 zero_buf" "\<forall>sec<disksize s. length (disk s sec) = 512"
  shows "\<exists>bs. binit s = s\<lparr>bufs := bs\<rparr> \<and> binv (s\<lparr>bufs := bs\<rparr>) \<and> content bs (disk s) = disk s
    \<and> busy_secs bs = {} \<and> dirty_secs bs = {}"
proof -
  obtain bs where bs: "binit s = s\<lparr>bufs := bs\<rparr>" "mru bs (rev [0..<30])"
      "\<And>i. i < 30 \<Longrightarrow> core (bs ! i) = (core (bufs s ! i))\<lparr>b_dev := -1\<rparr>"
    using binit_mru [of s] assms(1) by auto
  have c: "core (bs ! i) = zero_buf\<lparr>b_dev := -1\<rparr>" if "i < 30" for i
    using bs(3) [OF that] that assms(1) by (simp add: nth_replicate core_def zero_buf_def)
  have x: "b_dev (bs ! i) = -1" "\<not> b_busy (bs ! i)" "\<not> b_dirty (bs ! i)" "length (b_data (bs ! i)) = 512" if "i < 30" for i
    using arg_cong [OF c [OF that], of b_dev] arg_cong [OF c [OF that], of b_busy]
      arg_cong [OF c [OF that], of b_dirty] arg_cong [OF c [OF that], of b_data]
    by (simp_all add: zero_buf_def)
  have none: "cached bs sec = None" for sec using x(1) by (simp add: cached_None)
  have "cinv bs (disk s) (disksize s)" using x assms(2) by (simp add: cinv_def)
  moreover have "content bs (disk s) = disk s" "busy_secs bs = {}" "dirty_secs bs = {}"
    by (simp_all add: fun_eq_iff content_def busy_secs_def dirty_secs_def none)
  ultimately show ?thesis using bs(1,2) by (intro exI [of _ bs]) (auto simp: binv_def)
qed

end
