(* ===== verification/Log.thy ===== *)
theory Log
  imports Bio_Cache
begin

text \<open>
  The write-ahead log (\<^verbatim>\<open>log.c\<close>): transactions of file-system operations, their commit, and
  recovery after a crash. \<open>readsb\<close> of \<^verbatim>\<open>fs.c\<close>, which the log needs to find its place on the
  disk, is here too. Theory \<open>Log_Crash\<close> proves that a crash leaves the file system with all
  or nothing of a transaction.
\<close>

section \<open>Data\<close>

abbreviation (input) LOGSIZE :: nat where "LOGSIZE \<equiv> 30"
abbreviation (input) MAXOPBLOCKS :: int where "MAXOPBLOCKS \<equiv> 10"

record superblock =
  sb_size :: u32
  sb_nblocks :: u32
  sb_ninodes :: u32
  sb_nlog :: u32

text \<open>\<open>struct log\<close> with the header that it holds in memory.\<close>

record logst = bst +
  log_start :: u32
  log_size :: int
  outstanding :: int
  committing :: bool
  log_dev :: u32
  lh_n :: int
  lh_sector :: "u32 list"

section \<open>The code\<close>

definition readsb :: "u32 \<Rightarrow> 'a bst_scheme \<Rightarrow> ('a bst_scheme, superblock) res" where
  "readsb dev s =
     bindR (bread dev 1 s) (\<lambda>bp s.
     let d = b_data (bufs s ! bp);
         sb = \<lparr>sb_size = get32 d 0, sb_nblocks = get32 d 4, sb_ninodes = get32 d 8, sb_nlog = get32 d 12\<rparr> in
     bindR (brelse bp s) (\<lambda>_ s. Ret sb s))"

primrec install_loop :: "nat \<Rightarrow> nat \<Rightarrow> 'a logst_scheme \<Rightarrow> ('a logst_scheme, unit) res" where
  "install_loop 0 tail s = Ret () s"
| "install_loop (Suc k) tail s =
     bindR (bread (log_dev s) (log_start s + of_nat tail + 1) s) (\<lambda>lbuf s.
     bindR (bread (log_dev s) (lh_sector s ! tail) s) (\<lambda>dbuf s.
     let s = put_data dbuf (b_data (bufs s ! lbuf)) s in
     bindR (bwrite dbuf s) (\<lambda>_ s.
     bindR (brelse lbuf s) (\<lambda>_ s.
     bindR (brelse dbuf s) (\<lambda>_ s.
     install_loop k (Suc tail) s)))))"

definition install_trans :: "'a logst_scheme \<Rightarrow> ('a logst_scheme, unit) res" where
  "install_trans s = install_loop (nat (lh_n s)) 0 s"

text \<open>A header with more than \<open>LOGSIZE\<close> entries would be copied past the end of \<open>log.lh\<close>.\<close>

definition read_head :: "'a logst_scheme \<Rightarrow> ('a logst_scheme, unit) res" where
  "read_head s =
     bindR (bread (log_dev s) (log_start s) s) (\<lambda>b s.
     let lh = b_data (bufs s ! b);
         s = s\<lparr>lh_n := sint (get32 lh 0)\<rparr> in
     if lh_n s > int LOGSIZE then Fault ''read_head''
     else
       let s = s\<lparr>lh_sector := map (\<lambda>i. get32 lh (4 + 4 * i)) [0..<nat (lh_n s)]
                 @ drop (nat (lh_n s)) (lh_sector s)\<rparr> in
       brelse b s)"

primrec put_sectors :: "u8 list \<Rightarrow> nat \<Rightarrow> u32 list \<Rightarrow> u8 list" where
  "put_sectors d i [] = d"
| "put_sectors d i (x # xs) = put_sectors (put32 d (4 + 4 * i) x) (Suc i) xs"

definition write_head :: "'a logst_scheme \<Rightarrow> ('a logst_scheme, unit) res" where
  "write_head s =
     bindR (bread (log_dev s) (log_start s) s) (\<lambda>b s.
     let hb = put32 (b_data (bufs s ! b)) 0 (word_of_int (lh_n s));
         hb = put_sectors hb 0 (take (nat (lh_n s)) (lh_sector s));
         s = put_data b hb s in
     bindR (bwrite b s) (\<lambda>_ s.
     brelse b s))"

definition recover_from_log :: "'a logst_scheme \<Rightarrow> ('a logst_scheme, unit) res" where
  "recover_from_log s =
     bindR (read_head s) (\<lambda>_ s.
     bindR (install_trans s) (\<lambda>_ s.
     let s = s\<lparr>lh_n := 0\<rparr> in
     write_head s))"

text \<open>\<open>sizeof(struct logheader)\<close> is 124, so that the first check of \<open>initlog\<close> passes.\<close>

definition initlog :: "'a logst_scheme \<Rightarrow> ('a logst_scheme, unit) res" where
  "initlog s =
     bindR (readsb ROOTDEV s) (\<lambda>sb s.
     let s = s\<lparr>log_start := sb_size sb - sb_nlog sb,
               log_size := sint (sb_nlog sb),
               log_dev := ROOTDEV\<rparr> in
     recover_from_log s)"

text \<open>A process that sleeps here runs the loop again when it is woken up.\<close>

definition begin_op :: "'a logst_scheme \<Rightarrow> ('a logst_scheme, unit) res" where
  "begin_op s =
     bindR (acquire L_log s) (\<lambda>_ s.
     if committing s then sleep Ch_log L_log s
     else if lh_n s + (outstanding s + 1) * MAXOPBLOCKS > int LOGSIZE then sleep Ch_log L_log s
     else
       let s = s\<lparr>outstanding := outstanding s + 1\<rparr> in
       release L_log s)"

primrec write_log_loop :: "nat \<Rightarrow> nat \<Rightarrow> 'a logst_scheme \<Rightarrow> ('a logst_scheme, unit) res" where
  "write_log_loop 0 tail s = Ret () s"
| "write_log_loop (Suc k) tail s =
     bindR (bread (log_dev s) (log_start s + of_nat tail + 1) s) (\<lambda>to s.
     bindR (bread (log_dev s) (lh_sector s ! tail) s) (\<lambda>from s.
     let s = put_data to (b_data (bufs s ! from)) s in
     bindR (bwrite to s) (\<lambda>_ s.
     bindR (brelse from s) (\<lambda>_ s.
     bindR (brelse to s) (\<lambda>_ s.
     write_log_loop k (Suc tail) s)))))"

definition write_log :: "'a logst_scheme \<Rightarrow> ('a logst_scheme, unit) res" where
  "write_log s = write_log_loop (nat (lh_n s)) 0 s"

definition commit :: "'a logst_scheme \<Rightarrow> ('a logst_scheme, unit) res" where
  "commit s =
     (if lh_n s > 0 then
        bindR (write_log s) (\<lambda>_ s.
        bindR (write_head s) (\<lambda>_ s.
        bindR (install_trans s) (\<lambda>_ s.
        let s = s\<lparr>lh_n := 0\<rparr> in
        write_head s)))
      else Ret () s)"

definition end_op :: "'a logst_scheme \<Rightarrow> ('a logst_scheme, unit) res" where
  "end_op s =
     bindR (acquire L_log s) (\<lambda>_ s.
     let s = s\<lparr>outstanding := outstanding s - 1\<rparr> in
     if committing s then Panic ''log.committing''
     else
       let do_commit = (outstanding s = 0) in
       bindR (if do_commit then Ret () (s\<lparr>committing := True\<rparr>) else wakeup Ch_log s) (\<lambda>_ s.
       bindR (release L_log s) (\<lambda>_ s.
       if do_commit then
         bindR (commit s) (\<lambda>_ s.
         bindR (acquire L_log s) (\<lambda>_ s.
         let s = s\<lparr>committing := False\<rparr> in
         bindR (wakeup Ch_log s) (\<lambda>_ s.
         release L_log s)))
       else Ret () s)))"

text \<open>The index at which \<open>log_write\<close> records a sector: its place in the log, or the next one.\<close>

definition log_index :: "u32 \<Rightarrow> u32 list \<Rightarrow> nat \<Rightarrow> nat" where
  "log_index sec xs n =
     (case find_index (\<lambda>x. x = sec) (take n xs) of Some i \<Rightarrow> i | None \<Rightarrow> n)"

definition log_write :: "nat \<Rightarrow> 'a logst_scheme \<Rightarrow> ('a logst_scheme, unit) res" where
  "log_write b s =
     (if lh_n s \<ge> int LOGSIZE \<or> lh_n s \<ge> log_size s - 1 then Panic ''too big a transaction''
      else if outstanding s < 1 then Panic ''log_write outside of trans''
      else
        let sec = b_sector (bufs s ! b);
            i = log_index sec (lh_sector s) (nat (lh_n s));
            s = s\<lparr>lh_sector := (lh_sector s)[i := sec]\<rparr>;
            s = (if int i = lh_n s then s\<lparr>lh_n := lh_n s + 1\<rparr> else s) in
        Ret () (upd_buf b (\<lambda>x. x\<lparr>b_dirty := True\<rparr>) s))"

end
