(* ===== verification/Inode.thy ===== *)
theory Inode
  imports Log Cstring
begin

text \<open>
  The lower half of \<^verbatim>\<open>fs.c\<close>: blocks and their bitmap, inodes on the disk and in the cache, and
  the blocks of a file. On-disk structures are those of \<^verbatim>\<open>fs.h\<close>, the in-memory inode that of
  \<^verbatim>\<open>file.h\<close>.
\<close>

section \<open>Data\<close>

abbreviation (input) NDIRECT :: nat where "NDIRECT \<equiv> 12"
abbreviation (input) NINDIRECT :: nat where "NINDIRECT \<equiv> 128"
abbreviation (input) MAXFILE :: nat where "MAXFILE \<equiv> 140"
abbreviation (input) NINODE :: nat where "NINODE \<equiv> 50"
abbreviation (input) ROOTINO :: u32 where "ROOTINO \<equiv> 1"
abbreviation (input) T_DIR :: u16 where "T_DIR \<equiv> 1"
abbreviation (input) T_FILE :: u16 where "T_FILE \<equiv> 2"
abbreviation (input) T_DEV :: u16 where "T_DEV \<equiv> 3"

text \<open>The inode on the disk takes 64 bytes, so that a block holds 8 of them.\<close>

record dinode =
  di_type :: u16
  di_major :: u16
  di_minor :: u16
  di_nlink :: u16
  di_size :: u32
  di_addrs :: "u32 list"

definition IBLOCK :: "u32 \<Rightarrow> u32" where
  "IBLOCK i = i div 8 + 2"

definition BBLOCK :: "u32 \<Rightarrow> u32 \<Rightarrow> u32" where
  "BBLOCK b ninodes = b div 4096 + ninodes div 8 + 3"

text \<open>Reading and writing the inode at an offset of a block.\<close>

definition get_dinode :: "u8 list \<Rightarrow> nat \<Rightarrow> dinode" where
  "get_dinode d i = \<lparr>di_type = get16 d i, di_major = get16 d (i + 2), di_minor = get16 d (i + 4),
     di_nlink = get16 d (i + 6), di_size = get32 d (i + 8),
     di_addrs = map (\<lambda>j. get32 d (i + 12 + 4 * j)) [0..<13]\<rparr>"

primrec put_words :: "u8 list \<Rightarrow> nat \<Rightarrow> u32 list \<Rightarrow> u8 list" where
  "put_words d i [] = d"
| "put_words d i (x # xs) = put_words (put32 d i x) (i + 4) xs"

definition put_dinode :: "u8 list \<Rightarrow> nat \<Rightarrow> dinode \<Rightarrow> u8 list" where
  "put_dinode d i di =
     put_words
       (put32 (put16 (put16 (put16 (put16 d i (di_type di)) (i + 2) (di_major di)) (i + 4) (di_minor di))
         (i + 6) (di_nlink di)) (i + 8) (di_size di))
       (i + 12) (di_addrs di)"

record inode =
  i_dev :: u32
  i_inum :: u32
  i_ref :: int
  i_busy :: bool
  i_valid :: bool
  i_type :: u16
  i_major :: u16
  i_minor :: u16
  i_nlink :: u16
  i_size :: u32
  i_addrs :: "u32 list"

record icst = logst +
  icache :: "inode list"

definition upd_inode :: "nat \<Rightarrow> (inode \<Rightarrow> inode) \<Rightarrow> 'a icst_scheme \<Rightarrow> 'a icst_scheme" where
  "upd_inode ip f s = s\<lparr>icache := (icache s)[ip := f (icache s ! ip)]\<rparr>"

section \<open>Blocks\<close>

definition bzero :: "u32 \<Rightarrow> u32 \<Rightarrow> 'a logst_scheme \<Rightarrow> ('a logst_scheme, unit) res" where
  "bzero dev bno s =
     bindR (bread dev bno s) (\<lambda>bp s.
     let s = put_data bp (replicate 512 0) s in
     bindR (log_write bp s) (\<lambda>_ s.
     brelse bp s))"

definition bit_mask :: "nat \<Rightarrow> u8" where
  "bit_mask bi = push_bit (bi mod 8) 1"

text \<open>The inner loop of \<open>balloc\<close>: the first clear bit of a bitmap block.\<close>

definition free_bit :: "u8 list \<Rightarrow> u32 \<Rightarrow> u32 \<Rightarrow> nat option" where
  "free_bit d b nblk =
     find (\<lambda>bi. get8 d (bi div 8) AND bit_mask bi = 0)
       (takeWhile (\<lambda>bi. b + of_nat bi < nblk) [0..<4096])"

primrec balloc_loop :: "nat \<Rightarrow> u32 \<Rightarrow> superblock \<Rightarrow> u32 \<Rightarrow> 'a logst_scheme \<Rightarrow> ('a logst_scheme, u32) res" where
  "balloc_loop 0 dev sb b s = NoFuel"
| "balloc_loop (Suc k) dev sb b s =
     (if b < sb_size sb then
        bindR (bread dev (BBLOCK b (sb_ninodes sb)) s) (\<lambda>bp s.
        let d = b_data (bufs s ! bp) in
        case free_bit d b (sb_size sb) of
          Some bi \<Rightarrow>
            let s = put_data bp (d[bi div 8 := get8 d (bi div 8) OR bit_mask bi]) s in
            bindR (log_write bp s) (\<lambda>_ s.
            bindR (brelse bp s) (\<lambda>_ s.
            bindR (bzero dev (b + of_nat bi) s) (\<lambda>_ s.
            Ret (b + of_nat bi) s)))
        | None \<Rightarrow>
            bindR (brelse bp s) (\<lambda>_ s.
            balloc_loop k dev sb (b + 4096) s))
      else Panic ''balloc: out of blocks'')"

definition balloc :: "u32 \<Rightarrow> 'a logst_scheme \<Rightarrow> ('a logst_scheme, u32) res" where
  "balloc dev s =
     bindR (readsb dev s) (\<lambda>sb s.
     balloc_loop 1048577 dev sb 0 s)"

definition bfree :: "u32 \<Rightarrow> u32 \<Rightarrow> 'a logst_scheme \<Rightarrow> ('a logst_scheme, unit) res" where
  "bfree dev b s =
     bindR (readsb dev s) (\<lambda>sb s.
     bindR (bread dev (BBLOCK b (sb_ninodes sb)) s) (\<lambda>bp s.
     let bi = unat b mod 4096;
         d = b_data (bufs s ! bp) in
     if get8 d (bi div 8) AND bit_mask bi = 0 then Panic ''freeing free block''
     else
       let s = put_data bp (d[bi div 8 := get8 d (bi div 8) AND NOT (bit_mask bi)]) s in
       bindR (log_write bp s) (\<lambda>_ s.
       brelse bp s)))"

section \<open>The inode cache\<close>

definition iget :: "u32 \<Rightarrow> u32 \<Rightarrow> 'a icst_scheme \<Rightarrow> ('a icst_scheme, nat) res" where
  "iget dev inum s =
     bindR (acquire L_icache s) (\<lambda>_ s.
     case find_index (\<lambda>ip. i_ref ip > 0 \<and> i_dev ip = dev \<and> i_inum ip = inum) (icache s) of
       Some ip \<Rightarrow>
         let s = upd_inode ip (\<lambda>x. x\<lparr>i_ref := i_ref x + 1\<rparr>) s in
         bindR (release L_icache s) (\<lambda>_ s. Ret ip s)
     | None \<Rightarrow>
         (case find_index (\<lambda>ip. i_ref ip = 0) (icache s) of
            None \<Rightarrow> Panic ''iget: no inodes''
          | Some ip \<Rightarrow>
              let s = upd_inode ip (\<lambda>x. x\<lparr>i_dev := dev, i_inum := inum, i_ref := 1,
                        i_busy := False, i_valid := False\<rparr>) s in
              bindR (release L_icache s) (\<lambda>_ s. Ret ip s)))"

primrec ialloc_loop :: "nat \<Rightarrow> u32 \<Rightarrow> u16 \<Rightarrow> superblock \<Rightarrow> u32 \<Rightarrow> 'a icst_scheme \<Rightarrow> ('a icst_scheme, nat) res" where
  "ialloc_loop 0 dev type sb inum s = NoFuel"
| "ialloc_loop (Suc k) dev type sb inum s =
     (if inum < sb_ninodes sb then
        bindR (bread dev (IBLOCK inum) s) (\<lambda>bp s.
        let d = b_data (bufs s ! bp);
            i = 64 * (unat inum mod 8) in
        if di_type (get_dinode d i) = 0 then
          let d = put_bytes d i (replicate 64 0);
              d = put16 d i type;
              s = put_data bp d s in
          bindR (log_write bp s) (\<lambda>_ s.
          bindR (brelse bp s) (\<lambda>_ s.
          iget dev inum s))
        else
          bindR (brelse bp s) (\<lambda>_ s.
          ialloc_loop k dev type sb (inum + 1) s))
      else Panic ''ialloc: no inodes'')"

definition ialloc :: "u32 \<Rightarrow> u16 \<Rightarrow> 'a icst_scheme \<Rightarrow> ('a icst_scheme, nat) res" where
  "ialloc dev type s =
     bindR (readsb dev s) (\<lambda>sb s.
     ialloc_loop (unat (sb_ninodes sb) + 1) dev type sb 1 s)"

definition iupdate :: "nat \<Rightarrow> 'a icst_scheme \<Rightarrow> ('a icst_scheme, unit) res" where
  "iupdate ip s =
     (let x = icache s ! ip in
      bindR (bread (i_dev x) (IBLOCK (i_inum x)) s) (\<lambda>bp s.
      let d = b_data (bufs s ! bp);
          di = \<lparr>di_type = i_type x, di_major = i_major x, di_minor = i_minor x,
                di_nlink = i_nlink x, di_size = i_size x, di_addrs = i_addrs x\<rparr>;
          s = put_data bp (put_dinode d (64 * (unat (i_inum x) mod 8)) di) s in
      bindR (log_write bp s) (\<lambda>_ s.
      brelse bp s)))"

definition idup :: "nat \<Rightarrow> 'a icst_scheme \<Rightarrow> ('a icst_scheme, nat) res" where
  "idup ip s =
     bindR (acquire L_icache s) (\<lambda>_ s.
     let s = upd_inode ip (\<lambda>x. x\<lparr>i_ref := i_ref x + 1\<rparr>) s in
     bindR (release L_icache s) (\<lambda>_ s. Ret ip s))"

text \<open>A process that has to wait for the inode starts again at the loop when it is woken up.\<close>

definition ilock :: "nat \<Rightarrow> 'a icst_scheme \<Rightarrow> ('a icst_scheme, unit) res" where
  "ilock ip s =
     (if i_ref (icache s ! ip) < 1 then Panic ''ilock''
      else
        bindR (acquire L_icache s) (\<lambda>_ s.
        if i_busy (icache s ! ip) then sleep (Ch_inode ip) L_icache s
        else
          let s = upd_inode ip (\<lambda>x. x\<lparr>i_busy := True\<rparr>) s in
          bindR (release L_icache s) (\<lambda>_ s.
          if \<not> i_valid (icache s ! ip) then
            bindR (bread (i_dev (icache s ! ip)) (IBLOCK (i_inum (icache s ! ip))) s) (\<lambda>bp s.
            let di = get_dinode (b_data (bufs s ! bp)) (64 * (unat (i_inum (icache s ! ip)) mod 8));
                s = upd_inode ip (\<lambda>x. x\<lparr>i_type := di_type di, i_major := di_major di,
                      i_minor := di_minor di, i_nlink := di_nlink di, i_size := di_size di,
                      i_addrs := di_addrs di\<rparr>) s in
            bindR (brelse bp s) (\<lambda>_ s.
            let s = upd_inode ip (\<lambda>x. x\<lparr>i_valid := True\<rparr>) s in
            if i_type (icache s ! ip) = 0 then Panic ''ilock: no type'' else Ret () s))
          else Ret () s)))"

definition iunlock :: "nat \<Rightarrow> 'a icst_scheme \<Rightarrow> ('a icst_scheme, unit) res" where
  "iunlock ip s =
     (if \<not> i_busy (icache s ! ip) \<or> i_ref (icache s ! ip) < 1 then Panic ''iunlock''
      else
        bindR (acquire L_icache s) (\<lambda>_ s.
        let s = upd_inode ip (\<lambda>x. x\<lparr>i_busy := False\<rparr>) s in
        bindR (wakeup (Ch_inode ip) s) (\<lambda>_ s.
        release L_icache s)))"

section \<open>The blocks of a file\<close>

definition bmap :: "nat \<Rightarrow> u32 \<Rightarrow> 'a icst_scheme \<Rightarrow> ('a icst_scheme, u32) res" where
  "bmap ip bn s =
     (if unat bn < NDIRECT then
        let addr = i_addrs (icache s ! ip) ! unat bn in
        if addr = 0 then
          bindR (balloc (i_dev (icache s ! ip)) s) (\<lambda>addr s.
          Ret addr (upd_inode ip (\<lambda>x. x\<lparr>i_addrs := (i_addrs x)[unat bn := addr]\<rparr>) s))
        else Ret addr s
      else
        let bn = unat bn - NDIRECT in
        if bn < NINDIRECT then
          bindR (let addr = i_addrs (icache s ! ip) ! NDIRECT in
                 if addr = 0 then
                   bindR (balloc (i_dev (icache s ! ip)) s) (\<lambda>addr s.
                   Ret addr (upd_inode ip (\<lambda>x. x\<lparr>i_addrs := (i_addrs x)[NDIRECT := addr]\<rparr>) s))
                 else Ret addr s) (\<lambda>addr s.
          bindR (bread (i_dev (icache s ! ip)) addr s) (\<lambda>bp s.
          let addr = get32 (b_data (bufs s ! bp)) (4 * bn) in
          bindR (if addr = 0 then
                   bindR (balloc (i_dev (icache s ! ip)) s) (\<lambda>addr s.
                   let s = put_data bp (put32 (b_data (bufs s ! bp)) (4 * bn) addr) s in
                   bindR (log_write bp s) (\<lambda>_ s. Ret addr s))
                 else Ret addr s) (\<lambda>addr s.
          bindR (brelse bp s) (\<lambda>_ s.
          Ret addr s))))
        else Panic ''bmap: out of range'')"

primrec itrunc_direct :: "nat \<Rightarrow> nat \<Rightarrow> nat \<Rightarrow> 'a icst_scheme \<Rightarrow> ('a icst_scheme, unit) res" where
  "itrunc_direct 0 i ip s = Ret () s"
| "itrunc_direct (Suc k) i ip s =
     bindR (if i_addrs (icache s ! ip) ! i \<noteq> 0 then
              bindR (bfree (i_dev (icache s ! ip)) (i_addrs (icache s ! ip) ! i) s) (\<lambda>_ s.
              Ret () (upd_inode ip (\<lambda>x. x\<lparr>i_addrs := (i_addrs x)[i := 0]\<rparr>) s))
            else Ret () s) (\<lambda>_ s.
     itrunc_direct k (Suc i) ip s)"

primrec itrunc_indirect :: "nat \<Rightarrow> nat \<Rightarrow> nat \<Rightarrow> nat \<Rightarrow> 'a icst_scheme \<Rightarrow> ('a icst_scheme, unit) res" where
  "itrunc_indirect 0 j bp ip s = Ret () s"
| "itrunc_indirect (Suc k) j bp ip s =
     bindR (if get32 (b_data (bufs s ! bp)) (4 * j) \<noteq> 0
            then bfree (i_dev (icache s ! ip)) (get32 (b_data (bufs s ! bp)) (4 * j)) s
            else Ret () s) (\<lambda>_ s.
     itrunc_indirect k (Suc j) bp ip s)"

definition itrunc :: "nat \<Rightarrow> 'a icst_scheme \<Rightarrow> ('a icst_scheme, unit) res" where
  "itrunc ip s =
     bindR (itrunc_direct NDIRECT 0 ip s) (\<lambda>_ s.
     bindR (if i_addrs (icache s ! ip) ! NDIRECT \<noteq> 0 then
              bindR (bread (i_dev (icache s ! ip)) (i_addrs (icache s ! ip) ! NDIRECT) s) (\<lambda>bp s.
              bindR (itrunc_indirect NINDIRECT 0 bp ip s) (\<lambda>_ s.
              bindR (brelse bp s) (\<lambda>_ s.
              bindR (bfree (i_dev (icache s ! ip)) (i_addrs (icache s ! ip) ! NDIRECT) s) (\<lambda>_ s.
              Ret () (upd_inode ip (\<lambda>x. x\<lparr>i_addrs := (i_addrs x)[NDIRECT := 0]\<rparr>) s)))))
            else Ret () s) (\<lambda>_ s.
     iupdate ip (upd_inode ip (\<lambda>x. x\<lparr>i_size := 0\<rparr>) s)))"

definition iput :: "nat \<Rightarrow> 'a icst_scheme \<Rightarrow> ('a icst_scheme, unit) res" where
  "iput ip s =
     bindR (acquire L_icache s) (\<lambda>_ s.
     bindR (if i_ref (icache s ! ip) = 1 \<and> i_valid (icache s ! ip) \<and> i_nlink (icache s ! ip) = 0 then
              if i_busy (icache s ! ip) then Panic ''iput busy''
              else
                let s = upd_inode ip (\<lambda>x. x\<lparr>i_busy := True\<rparr>) s in
                bindR (release L_icache s) (\<lambda>_ s.
                bindR (itrunc ip s) (\<lambda>_ s.
                let s = upd_inode ip (\<lambda>x. x\<lparr>i_type := 0\<rparr>) s in
                bindR (iupdate ip s) (\<lambda>_ s.
                bindR (acquire L_icache s) (\<lambda>_ s.
                let s = upd_inode ip (\<lambda>x. x\<lparr>i_busy := False, i_valid := False\<rparr>) s in
                wakeup (Ch_inode ip) s))))
            else Ret () s) (\<lambda>_ s.
     let s = upd_inode ip (\<lambda>x. x\<lparr>i_ref := i_ref x - 1\<rparr>) s in
     release L_icache s))"

definition iunlockput :: "nat \<Rightarrow> 'a icst_scheme \<Rightarrow> ('a icst_scheme, unit) res" where
  "iunlockput ip s = bindR (iunlock ip s) (\<lambda>_ s. iput ip s)"

text \<open>\<open>struct stat\<close>, and its 20 bytes with the padding that the compiler adds.\<close>

record stat =
  st_type :: u16
  st_dev :: u32
  st_ino :: u32
  st_nlink :: u16
  st_size :: u32

definition stati :: "nat \<Rightarrow> 'a icst_scheme \<Rightarrow> stat" where
  "stati ip s =
     (let x = icache s ! ip in
      \<lparr>st_type = i_type x, st_dev = i_dev x, st_ino = i_inum x, st_nlink = i_nlink x, st_size = i_size x\<rparr>)"

end
