(* ===== verification/Console.thy ===== *)
theory Console
  imports Inode
begin

text \<open>
  The console (\<^verbatim>\<open>console.c\<close>) with the serial port (\<^verbatim>\<open>uart.c\<close>) and the keyboard
  (\<^verbatim>\<open>kbd.c\<close>, \<^verbatim>\<open>kbd.h\<close>): output to the screen and the serial line, formatted printing, and
  the ring buffer in which the interrupt handlers collect and edit a line of input.
\<close>

section \<open>Data\<close>

abbreviation (input) INPUT_BUF :: nat where "INPUT_BUF \<equiv> 128"
abbreviation (input) BACKSPACE :: int where "BACKSPACE \<equiv> 0x100"
abbreviation (input) CONSOLE :: nat where "CONSOLE \<equiv> 1"
abbreviation (input) NDEV :: nat where "NDEV \<equiv> 10"

text \<open>The functions that the sources store in \<open>devsw\<close>.\<close>

datatype devfn = Consoleread | Consolewrite

text \<open>
  The input buffer with its indices, the screen memory and the cursor that the controller
  keeps, what was sent to the serial port, and the bytes that wait at the serial port and at the
  keyboard controller.
\<close>

record cnst = icst +
  in_buf :: "u8 list"
  in_r :: u32
  in_w :: u32
  in_e :: u32
  cons_locking :: bool
  panicked :: bool
  crt :: "nat \<Rightarrow> u16"
  crt_pos :: u16
  uart_on :: bool
  uart_out :: "u8 list"
  uart_in :: "u8 list"
  kbd_in :: "u8 list"
  kbd_shift :: u8
  devsw_read :: "devfn option list"
  devsw_write :: "devfn option list"

section \<open>Output\<close>

definition uartputc :: "int \<Rightarrow> 'a cnst_scheme \<Rightarrow> 'a cnst_scheme" where
  "uartputc c s = (if \<not> uart_on s then s else s\<lparr>uart_out := uart_out s @ [word_of_int c]\<rparr>)"

definition cga_scroll :: "nat \<Rightarrow> (nat \<Rightarrow> u16) \<Rightarrow> nat \<Rightarrow> u16" where
  "cga_scroll pos m = (\<lambda>i. if pos \<le> i \<and> i < 24 * 80 then 0 else if i < 23 * 80 then m (i + 80) else m i)"

text \<open>
  From a cursor beyond the last line, the length that \<open>cgaputc\<close> passes to \<open>memset\<close> would be
  negative.
\<close>

definition cgaputc :: "int \<Rightarrow> 'a cnst_scheme \<Rightarrow> ('a cnst_scheme, unit) res" where
  "cgaputc c s =
     (let pos = unat (crt_pos s);
          (pos, m) =
            (if c = 10 then (pos + (80 - pos mod 80), crt s)
             else if c = BACKSPACE then (if pos > 0 then pos - 1 else pos, crt s)
             else (pos + 1, (crt s)(pos := (word_of_int c AND 0xFF) OR 0x0700))) in
      if pos div 80 \<ge> 24 \<and> pos - 80 > 24 * 80 then Fault ''cgaputc''
      else
        let (pos, m) = (if pos div 80 \<ge> 24 then (pos - 80, cga_scroll (pos - 80) m) else (pos, m)) in
        Ret () (s\<lparr>crt := m(pos := 0x0720), crt_pos := of_nat pos\<rparr>))"

text \<open>After a panic the processor stays in \<open>consputc\<close> for ever.\<close>

definition consputc :: "int \<Rightarrow> 'a cnst_scheme \<Rightarrow> ('a cnst_scheme, unit) res" where
  "consputc c s =
     (if panicked s then NoFuel
      else
        let s = (if c = BACKSPACE then uartputc 8 (uartputc 32 (uartputc 8 s)) else uartputc c s) in
        cgaputc c s)"

primrec consputs :: "int list \<Rightarrow> 'a cnst_scheme \<Rightarrow> ('a cnst_scheme, unit) res" where
  "consputs [] s = Ret () s"
| "consputs (c # cs) s = bindR (consputc c s) (\<lambda>_ s. consputs cs s)"

text \<open>
  The digits that \<open>printint\<close> puts into its buffer, least significant first; ten rounds are
  enough for a 32-bit number in base 10, eight in base 16.
\<close>

definition digit_char :: "u32 \<Rightarrow> int" where
  "digit_char d = (if d < 10 then 48 + uint d else 87 + uint d)"

primrec printint_loop :: "nat \<Rightarrow> u32 \<Rightarrow> u32 \<Rightarrow> int list" where
  "printint_loop 0 x base = []"
| "printint_loop (Suc k) x base =
     digit_char (x mod base) # (if x div base \<noteq> 0 then printint_loop k (x div base) base else [])"

definition printint_chars :: "u32 \<Rightarrow> u32 \<Rightarrow> bool \<Rightarrow> int list" where
  "printint_chars xx base sign =
     (let neg = (sign \<and> sint xx < 0);
          x = (if neg then - xx else xx) in
      rev (printint_loop 16 x base @ (if neg then [45] else [])))"

definition printint :: "u32 \<Rightarrow> u32 \<Rightarrow> bool \<Rightarrow> 'a cnst_scheme \<Rightarrow> ('a cnst_scheme, unit) res" where
  "printint xx base sign s = consputs (printint_chars xx base sign) s"

text \<open>The arguments of \<open>cprintf\<close>: words, and strings behind pointers that may be null.\<close>

datatype carg = Word_arg u32 | Str_arg "u8 list option"

fun cprintf_chars :: "int list \<Rightarrow> carg list \<Rightarrow> int list option" where
  "cprintf_chars [] args = Some []"
| "cprintf_chars (c # fmt) args =
     (if c \<noteq> 37 then map_option ((#) c) (cprintf_chars fmt args)
      else case fmt of [] \<Rightarrow> Some []
      | c # fmt \<Rightarrow>
          if c = 100 then
            (case args of Word_arg x # args \<Rightarrow>
               map_option ((@) (printint_chars x 10 True)) (cprintf_chars fmt args) | _ \<Rightarrow> None)
          else if c = 120 \<or> c = 112 then
            (case args of Word_arg x # args \<Rightarrow>
               map_option ((@) (printint_chars x 16 False)) (cprintf_chars fmt args) | _ \<Rightarrow> None)
          else if c = 115 then
            (case args of Str_arg t # args \<Rightarrow>
               map_option ((@) (case t of None \<Rightarrow> [40, 110, 117, 108, 108, 41] | Some t \<Rightarrow> map sint t))
                 (cprintf_chars fmt args) | _ \<Rightarrow> None)
          else if c = 37 then map_option ((#) 37) (cprintf_chars fmt args)
          else map_option (\<lambda>r. 37 # c # r) (cprintf_chars fmt args))"

definition ascii :: "string \<Rightarrow> int list" where
  "ascii t = map (\<lambda>c. int (of_char c)) t"

definition cprintf :: "string \<Rightarrow> carg list \<Rightarrow> 'a cnst_scheme \<Rightarrow> ('a cnst_scheme, unit) res" where
  "cprintf fmt args s =
     (let locking = cons_locking s in
      bindR (if locking then acquire L_cons s else Ret () s) (\<lambda>_ s.
      bindR (case cprintf_chars (ascii fmt) args of None \<Rightarrow> Fault ''cprintf'' | Some cs \<Rightarrow> consputs cs s) (\<lambda>_ s.
      if locking then release L_cons s else Ret () s)))"

text \<open>What \<open>panic\<close> does before it stops the processor.\<close>

primrec print_pcs :: "u32 list \<Rightarrow> 'a cnst_scheme \<Rightarrow> ('a cnst_scheme, unit) res" where
  "print_pcs [] s = Ret () s"
| "print_pcs (p # ps) s = bindR (cprintf '' %p'' [Word_arg p] s) (\<lambda>_ s. print_pcs ps s)"

definition panic :: "u32 \<Rightarrow> u32 \<Rightarrow> string \<Rightarrow> 'a cnst_scheme \<Rightarrow> ('a cnst_scheme, unit) res" where
  "panic cpuid stk msg s =
     (let s = s\<lparr>cons_locking := False\<rparr> in
      bindR (cprintf ''cpu%d: panic: '' [Word_arg cpuid] s) (\<lambda>_ s.
      bindR (cprintf msg [] s) (\<lambda>_ s.
      bindR (cprintf [CHR 0x0A] [] s) (\<lambda>_ s.
      bindR (print_pcs (getcallerpcs (mem s) stk) s) (\<lambda>_ s.
      Ret () (s\<lparr>panicked := True\<rparr>))))))"

section \<open>Listing the processes\<close>

fun state_name :: "procstate \<Rightarrow> string" where
  "state_name UNUSED = ''unused''"
| "state_name EMBRYO = ''embryo''"
| "state_name SLEEPING = ''sleep ''"
| "state_name RUNNABLE = ''runble''"
| "state_name RUNNING = ''run   ''"
| "state_name ZOMBIE = ''zombie''"

primrec procdump_loop :: "proc list \<Rightarrow> 'a cnst_scheme \<Rightarrow> ('a cnst_scheme, unit) res" where
  "procdump_loop [] s = Ret () s"
| "procdump_loop (p # ps) s =
     (if state p = UNUSED then procdump_loop ps s
      else
        bindR (cprintf ''%d %s %s'' [Word_arg (pid p), Str_arg (Some (map (\<lambda>c. word_of_int (int (of_char c))) (state_name (state p)))),
                 Str_arg (Some (takeWhile (\<lambda>c. c \<noteq> 0) (name p)))] s) (\<lambda>_ s.
        bindR (if state p = SLEEPING
               then print_pcs (takeWhile (\<lambda>a. a \<noteq> 0) (getcallerpcs (mem s) (ctx_ebp (ctx p) + 8))) s
               else Ret () s) (\<lambda>_ s.
        bindR (cprintf [CHR 0x0A] [] s) (\<lambda>_ s.
        procdump_loop ps s))))"

definition procdump :: "'a cnst_scheme \<Rightarrow> ('a cnst_scheme, unit) res" where
  "procdump s = procdump_loop (ptable s) s"

section \<open>Input\<close>

primrec kill_line :: "nat \<Rightarrow> 'a cnst_scheme \<Rightarrow> ('a cnst_scheme, unit) res" where
  "kill_line 0 s = NoFuel"
| "kill_line (Suc k) s =
     (if in_e s \<noteq> in_w s \<and> in_buf s ! unat ((in_e s - 1) mod 128) \<noteq> 10 then
        let s = s\<lparr>in_e := in_e s - 1\<rparr> in
        bindR (consputc BACKSPACE s) (\<lambda>_ s. kill_line k s)
      else Ret () s)"

definition console_char :: "int \<Rightarrow> 'a cnst_scheme \<Rightarrow> ('a cnst_scheme, unit) res" where
  "console_char c s =
     (if c = 16 then procdump s
      else if c = 21 then kill_line (Suc (unat (in_e s - in_w s))) s
      else if c = 8 \<or> c = 0x7F then
        (if in_e s \<noteq> in_w s then consputc BACKSPACE (s\<lparr>in_e := in_e s - 1\<rparr>) else Ret () s)
      else if c \<noteq> 0 \<and> in_e s - in_r s < 128 then
        let c = (if c = 13 then 10 else c);
            s = s\<lparr>in_buf := (in_buf s)[unat (in_e s mod 128) := word_of_int c], in_e := in_e s + 1\<rparr> in
        bindR (consputc c s) (\<lambda>_ s.
        if c = 10 \<or> c = 4 \<or> in_e s = in_r s + 128
        then wakeup Ch_input (s\<lparr>in_w := in_e s\<rparr>) else Ret () s)
      else Ret () s)"

text \<open>
  \<open>consoleintr\<close> gets the function that delivers the next character, or \<open>-1\<close> when there is
  none. The fuel is one more than the number of bytes that wait at the device.
\<close>

primrec consoleintr_loop :: "nat \<Rightarrow> ('a cnst_scheme \<Rightarrow> int \<times> 'a cnst_scheme) \<Rightarrow> 'a cnst_scheme \<Rightarrow> ('a cnst_scheme, unit) res" where
  "consoleintr_loop 0 getc s = NoFuel"
| "consoleintr_loop (Suc k) getc s =
     (let (c, s) = getc s in
      if c \<ge> 0 then bindR (console_char c s) (\<lambda>_ s. consoleintr_loop k getc s) else Ret () s)"

definition consoleintr :: "nat \<Rightarrow> ('a cnst_scheme \<Rightarrow> int \<times> 'a cnst_scheme) \<Rightarrow> 'a cnst_scheme \<Rightarrow> ('a cnst_scheme, unit) res" where
  "consoleintr k getc s =
     bindR (acquire L_input s) (\<lambda>_ s.
     bindR (consoleintr_loop k getc s) (\<lambda>_ s.
     release L_input s))"

text \<open>
  The loop of \<open>consoleread\<close> from the character that it reads next, with the bytes it has put
  into the caller's buffer so far. The process sleeps in the loop when the buffer is empty.
\<close>

primrec consoleread_loop :: "nat \<Rightarrow> int \<Rightarrow> u8 list \<Rightarrow> 'a cnst_scheme \<Rightarrow> ('a cnst_scheme, (int \<times> u8 list) option) res" where
  "consoleread_loop 0 target acc s = Ret (Some (0, acc)) s"
| "consoleread_loop (Suc n) target acc s =
     (if in_r s = in_w s then
        with_cur s (\<lambda>i.
        if killed (ptable s ! i) then bindR (release L_input s) (\<lambda>_ s. Ret None s)
        else bindR (sleep Ch_input L_input s) (\<lambda>_ s. NoFuel))
      else
        let c = in_buf s ! unat (in_r s mod 128);
            s = s\<lparr>in_r := in_r s + 1\<rparr> in
        if c = 4 then
          Ret (Some (int (Suc n), acc)) (if int (Suc n) < target then s\<lparr>in_r := in_r s - 1\<rparr> else s)
        else if c = 10 then Ret (Some (int n, acc @ [c])) s
        else consoleread_loop n target (acc @ [c]) s)"

definition consoleread :: "nat \<Rightarrow> int \<Rightarrow> 'a cnst_scheme \<Rightarrow> ('a cnst_scheme, int \<times> u8 list) res" where
  "consoleread ip n s =
     bindR (iunlock ip s) (\<lambda>_ s.
     bindR (acquire L_input s) (\<lambda>_ s.
     bindR (if n > 0 then consoleread_loop (nat n) n [] s else Ret (Some (n, [])) s) (\<lambda>r s.
     case r of
       None \<Rightarrow> bindR (ilock ip s) (\<lambda>_ s. Ret (-1, []) s)
     | Some (left, bs) \<Rightarrow>
         bindR (release L_input s) (\<lambda>_ s.
         bindR (ilock ip s) (\<lambda>_ s.
         Ret (n - left, bs) s)))))"

definition consolewrite :: "nat \<Rightarrow> u8 list \<Rightarrow> 'a cnst_scheme \<Rightarrow> ('a cnst_scheme, int) res" where
  "consolewrite ip bs s =
     bindR (iunlock ip s) (\<lambda>_ s.
     bindR (acquire L_cons s) (\<lambda>_ s.
     bindR (consputs (map uint bs) s) (\<lambda>_ s.
     bindR (release L_cons s) (\<lambda>_ s.
     bindR (ilock ip s) (\<lambda>_ s.
     Ret (int (length bs)) s)))))"

definition consoleinit :: "'a cnst_scheme \<Rightarrow> 'a cnst_scheme" where
  "consoleinit s =
     s\<lparr>devsw_write := (devsw_write s)[CONSOLE := Some Consolewrite],
       devsw_read := (devsw_read s)[CONSOLE := Some Consoleread],
       cons_locking := True\<rparr>"

section \<open>The serial port and the keyboard\<close>

definition uartgetc :: "'a cnst_scheme \<Rightarrow> int \<times> 'a cnst_scheme" where
  "uartgetc s =
     (if \<not> uart_on s then (-1, s)
      else case uart_in s of [] \<Rightarrow> (-1, s) | c # cs \<Rightarrow> (uint c, s\<lparr>uart_in := cs\<rparr>))"

definition uartintr :: "'a cnst_scheme \<Rightarrow> ('a cnst_scheme, unit) res" where
  "uartintr s = consoleintr (Suc (length (uart_in s))) uartgetc s"

abbreviation (input) SHIFT :: u8 where "SHIFT \<equiv> 1"
abbreviation (input) CTL :: u8 where "CTL \<equiv> 2"
abbreviation (input) ALT :: u8 where "ALT \<equiv> 4"
abbreviation (input) CAPSLOCK :: u8 where "CAPSLOCK \<equiv> 8"
abbreviation (input) NUMLOCK :: u8 where "NUMLOCK \<equiv> 16"
abbreviation (input) SCROLLLOCK :: u8 where "SCROLLLOCK \<equiv> 32"
abbreviation (input) E0ESC :: u8 where "E0ESC \<equiv> 64"

definition shiftcode :: "u8 \<Rightarrow> u8" where
  "shiftcode d =
     (if d = 0x1D then CTL else if d = 0x2A then SHIFT else if d = 0x36 then SHIFT
      else if d = 0x38 then ALT else if d = 0x9D then CTL else if d = 0xB8 then ALT else 0)"

definition togglecode :: "u8 \<Rightarrow> u8" where
  "togglecode d =
     (if d = 0x3A then CAPSLOCK else if d = 0x45 then NUMLOCK else if d = 0x46 then SCROLLLOCK else 0)"

text \<open>The table entries for the keys that the three maps have after their first part.\<close>

definition keypad :: "u8 \<Rightarrow> u8 \<Rightarrow> u8 \<Rightarrow> u8" where
  "keypad enter slash d =
     (if d = 0x9C then enter else if d = 0xB5 then slash
      else if d = 0xC8 then 0xE2 else if d = 0xD0 then 0xE3
      else if d = 0xC9 then 0xE6 else if d = 0xD1 then 0xE7
      else if d = 0xCB then 0xE4 else if d = 0xCD then 0xE5
      else if d = 0x97 then 0xE0 else if d = 0xCF then 0xE1
      else if d = 0xD2 then 0xE8 else if d = 0xD3 then 0xE9 else 0)"

definition normalmap :: "u8 \<Rightarrow> u8" where
  "normalmap d =
     (let t = [0, 0x1B] @ map of_char ''1234567890-='' @ [8, 9]
            @ map of_char ''qwertyuiop[]'' @ [10, 0] @ map of_char ''asdfghjkl;'' @ [39, 96, 0, 92]
            @ map of_char ''zxcvbnm,./'' @ [0, 42, 0, 32] @ replicate 13 0
            @ map of_char ''789-456+1230.'' in
      if unat d < length t then t ! unat d else keypad 10 47 d)"

definition shiftmap :: "u8 \<Rightarrow> u8" where
  "shiftmap d =
     (let t = [0, 0x1B] @ map of_char ''!@#$%^&*()_+'' @ [8, 9]
            @ map of_char ''QWERTYUIOP{}'' @ [10, 0] @ map of_char ''ASDFGHJKL:'' @ [34, 126, 0, 124]
            @ map of_char ''ZXCVBNM<>?'' @ [0, 42, 0, 32] @ replicate 13 0
            @ map of_char ''789-456+1230.'' in
      if unat d < length t then t ! unat d else keypad 10 47 d)"

text \<open>\<open>C(x)\<close> is \<open>x - '@'\<close>, as an unsigned character.\<close>

definition ctlmap :: "u8 \<Rightarrow> u8" where
  "ctlmap d =
     (let C = (\<lambda>c. (of_char c :: u8) - 64);
          t = replicate 16 0 @ map C ''QWERTYUIOP'' @ [0, 0, 13, 0] @ map C ''ASDFGHJKL''
            @ [0, 0, 0, 0, 92 - 64] @ map C ''ZXCVBNM'' @ [0, 0, 47 - 64, 0, 0] in
      if unat d < length t then t ! unat d else keypad 13 (47 - 64) d)"

text \<open>One scan code, with the state of the shift keys: the character, or 0, and the new state.\<close>

definition kbd_decode :: "u8 \<Rightarrow> u8 \<Rightarrow> int \<times> u8" where
  "kbd_decode data shift =
     (if data = 0xE0 then (0, shift OR E0ESC)
      else if data AND 0x80 \<noteq> 0 then
        let data = (if shift AND E0ESC \<noteq> 0 then data else data AND 0x7F) in
        (0, shift AND NOT (shiftcode data OR E0ESC))
      else
        let (data, shift) = (if shift AND E0ESC \<noteq> 0 then (data OR 0x80, shift AND NOT E0ESC) else (data, shift));
            shift = shift OR shiftcode data;
            shift = shift XOR togglecode data;
            c = (if shift AND CTL \<noteq> 0 then ctlmap data
                 else if shift AND SHIFT \<noteq> 0 then shiftmap data else normalmap data);
            c = (if shift AND CAPSLOCK \<noteq> 0 then
                   if 97 \<le> c \<and> c \<le> 122 then c - 32
                   else if 65 \<le> c \<and> c \<le> 90 then c + 32 else c
                 else c) in
        (uint c, shift))"

definition kbdgetc :: "'a cnst_scheme \<Rightarrow> int \<times> 'a cnst_scheme" where
  "kbdgetc s =
     (case kbd_in s of
        [] \<Rightarrow> (-1, s)
      | data # rest \<Rightarrow>
          let (c, shift) = kbd_decode data (kbd_shift s) in
          (c, s\<lparr>kbd_in := rest, kbd_shift := shift\<rparr>))"

definition kbdintr :: "'a cnst_scheme \<Rightarrow> ('a cnst_scheme, unit) res" where
  "kbdintr s = consoleintr (Suc (length (kbd_in s))) kbdgetc s"

end
