(* ===== verification/Fs.thy ===== *)
theory Fs
  imports Console
begin

text \<open>
  The upper half of \<^verbatim>\<open>fs.c\<close>: reading and writing files, directories and path names. A buffer
  in the caller's memory is the list of the bytes that are copied to or from it.
\<close>

section \<open>Contents of files\<close>

abbreviation (input) DIRSIZ :: nat where "DIRSIZ \<equiv> 14"

primrec readi_loop :: "nat \<Rightarrow> nat \<Rightarrow> u32 \<Rightarrow> u32 \<Rightarrow> u32 \<Rightarrow> u8 list \<Rightarrow> 'a cnst_scheme \<Rightarrow> ('a cnst_scheme, u8 list) res" where
  "readi_loop 0 ip off n tot dst s = NoFuel"
| "readi_loop (Suc k) ip off n tot dst s =
     (if tot < n then
        bindR (bmap ip (off div 512) s) (\<lambda>addr s.
        bindR (bread (i_dev (icache s ! ip)) addr s) (\<lambda>bp s.
        let m = min (n - tot) (512 - off mod 512);
            dst = dst @ slice (b_data (bufs s ! bp)) (unat (off mod 512)) (unat m) in
        bindR (brelse bp s) (\<lambda>_ s.
        readi_loop k ip (off + m) n (tot + m) dst s)))
      else Ret dst s)"

definition dev_entry :: "devfn option list \<Rightarrow> u16 \<Rightarrow> devfn option" where
  "dev_entry tab major = (if sint major < 0 \<or> sint major \<ge> int NDEV then None else tab ! nat (sint major))"

definition readi :: "nat \<Rightarrow> u32 \<Rightarrow> u32 \<Rightarrow> 'a cnst_scheme \<Rightarrow> ('a cnst_scheme, int \<times> u8 list) res" where
  "readi ip off n s =
     (let x = icache s ! ip in
      if i_type x = T_DEV then
        (case dev_entry (devsw_read s) (i_major x) of
           Some Consoleread \<Rightarrow> consoleread ip (sint n) s
         | _ \<Rightarrow> Ret (-1, []) s)
      else if off > i_size x \<or> off + n < off then Ret (-1, []) s
      else
        let n = (if off + n > i_size x then i_size x - off else n) in
        bindR (readi_loop (Suc (unat n)) ip off n 0 [] s) (\<lambda>bs s. Ret (sint n, bs) s))"

primrec writei_loop :: "nat \<Rightarrow> nat \<Rightarrow> u8 list \<Rightarrow> u32 \<Rightarrow> u32 \<Rightarrow> u32 \<Rightarrow> 'a cnst_scheme \<Rightarrow> ('a cnst_scheme, u32) res" where
  "writei_loop 0 ip src off n tot s = NoFuel"
| "writei_loop (Suc k) ip src off n tot s =
     (if tot < n then
        bindR (bmap ip (off div 512) s) (\<lambda>addr s.
        bindR (bread (i_dev (icache s ! ip)) addr s) (\<lambda>bp s.
        let m = min (n - tot) (512 - off mod 512);
            s = put_data bp (put_bytes (b_data (bufs s ! bp)) (unat (off mod 512)) (take (unat m) src)) s in
        bindR (log_write bp s) (\<lambda>_ s.
        bindR (brelse bp s) (\<lambda>_ s.
        writei_loop k ip (drop (unat m) src) (off + m) n (tot + m) s))))
      else Ret off s)"

text \<open>\<open>n\<close> is the length of the source; a file has at most \<open>MAXFILE * BSIZE = 71680\<close> bytes.\<close>

definition writei :: "nat \<Rightarrow> u8 list \<Rightarrow> u32 \<Rightarrow> 'a cnst_scheme \<Rightarrow> ('a cnst_scheme, int) res" where
  "writei ip src off s =
     (let x = icache s ! ip; n = of_nat (length src) :: u32 in
      if i_type x = T_DEV then
        (case dev_entry (devsw_write s) (i_major x) of
           Some Consolewrite \<Rightarrow> consolewrite ip src s
         | _ \<Rightarrow> Ret (-1) s)
      else if off > i_size x \<or> off + n < off then Ret (-1) s
      else if off + n > 71680 then Ret (-1) s
      else
        bindR (writei_loop (Suc (unat n)) ip src off n 0 s) (\<lambda>off s.
        bindR (if n > 0 \<and> off > i_size (icache s ! ip)
               then iupdate ip (upd_inode ip (\<lambda>x. x\<lparr>i_size := off\<rparr>) s)
               else Ret () s) (\<lambda>_ s.
        Ret (sint n) s)))"

section \<open>Directories\<close>

definition namecmp :: "cptr \<Rightarrow> cptr \<Rightarrow> int" where
  "namecmp s t = strncmp s t DIRSIZ"

text \<open>An entry of a directory: 16 bytes, the inode number and the name.\<close>

record dirent =
  d_inum :: u16
  d_name :: "u8 list"

definition get_dirent :: "u8 list \<Rightarrow> dirent" where
  "get_dirent bs = \<lparr>d_inum = get16 bs 0, d_name = slice bs 2 DIRSIZ\<rparr>"

definition bytes_of_dirent :: "dirent \<Rightarrow> u8 list" where
  "bytes_of_dirent de = bytes_of16 (d_inum de) @ d_name de"

primrec dirlookup_loop :: "nat \<Rightarrow> nat \<Rightarrow> u8 list \<Rightarrow> u32 \<Rightarrow> 'a cnst_scheme \<Rightarrow> ('a cnst_scheme, (nat \<times> u32) option) res" where
  "dirlookup_loop 0 dp nm off s = NoFuel"
| "dirlookup_loop (Suc k) dp nm off s =
     (if off < i_size (icache s ! dp) then
        bindR (readi dp off 16 s) (\<lambda>(r, bs) s.
        if r \<noteq> 16 then Panic ''dirlink read''
        else
          let de = get_dirent bs in
          if d_inum de = 0 then dirlookup_loop k dp nm (off + 16) s
          else if namecmp (arr nm) (arr (d_name de)) = 0
          then bindR (iget (i_dev (icache s ! dp)) (ucast (d_inum de)) s) (\<lambda>ip s. Ret (Some (ip, off)) s)
          else dirlookup_loop k dp nm (off + 16) s)
      else Ret None s)"

text \<open>The inode, and the offset of the entry that the code stores through \<open>poff\<close>.\<close>

definition dirlookup :: "nat \<Rightarrow> u8 list \<Rightarrow> 'a cnst_scheme \<Rightarrow> ('a cnst_scheme, (nat \<times> u32) option) res" where
  "dirlookup dp nm s =
     (if i_type (icache s ! dp) \<noteq> T_DIR then Panic ''dirlookup not DIR''
      else dirlookup_loop (Suc (Suc (unat (i_size (icache s ! dp)) div 16))) dp nm 0 s)"

primrec empty_dirent :: "nat \<Rightarrow> nat \<Rightarrow> u32 \<Rightarrow> 'a cnst_scheme \<Rightarrow> ('a cnst_scheme, u32) res" where
  "empty_dirent 0 dp off s = NoFuel"
| "empty_dirent (Suc k) dp off s =
     (if off < i_size (icache s ! dp) then
        bindR (readi dp off 16 s) (\<lambda>(r, bs) s.
        if r \<noteq> 16 then Panic ''dirlink read''
        else if d_inum (get_dirent bs) = 0 then Ret off s
        else empty_dirent k dp (off + 16) s)
      else Ret off s)"

definition dirlink :: "nat \<Rightarrow> u8 list \<Rightarrow> u32 \<Rightarrow> 'a cnst_scheme \<Rightarrow> ('a cnst_scheme, int) res" where
  "dirlink dp nm inum s =
     bindR (dirlookup dp nm s) (\<lambda>r s.
     case r of
       Some (ip, off) \<Rightarrow> bindR (iput ip s) (\<lambda>_ s. Ret (-1) s)
     | None \<Rightarrow>
         bindR (empty_dirent (Suc (Suc (unat (i_size (icache s ! dp)) div 16))) dp 0 s) (\<lambda>off s.
         let de = \<lparr>d_inum = ucast inum, d_name = strncpy (arr nm) DIRSIZ\<rparr> in
         bindR (writei dp (bytes_of_dirent de) off s) (\<lambda>r s.
         if r \<noteq> 16 then Panic ''dirlink'' else Ret 0 s)))"

section \<open>Path names\<close>

text \<open>
  A path is the list of its bytes before the terminator. \<open>skipelem\<close> returns the rest of the
  path and the element, which it cuts to \<open>DIRSIZ\<close> bytes.
\<close>

definition skipelem :: "u8 list \<Rightarrow> (u8 list \<times> u8 list) option" where
  "skipelem path =
     (let path = dropWhile (\<lambda>c. c = 47) path in
      if path = [] then None
      else
        let e = takeWhile (\<lambda>c. c \<noteq> 47) path;
            path = dropWhile (\<lambda>c. c \<noteq> 47) path;
            nm = (if length e \<ge> DIRSIZ then take DIRSIZ e else e) in
        Some (dropWhile (\<lambda>c. c = 47) path, nm))"

primrec namex_loop :: "nat \<Rightarrow> bool \<Rightarrow> nat \<Rightarrow> u8 list \<Rightarrow> u8 list \<Rightarrow> 'a cnst_scheme \<Rightarrow> ('a cnst_scheme, (nat \<times> u8 list) option) res" where
  "namex_loop 0 stop ip path nm s = NoFuel"
| "namex_loop (Suc k) stop ip path nm s =
     (case skipelem path of
        None \<Rightarrow>
          if stop then bindR (iput ip s) (\<lambda>_ s. Ret None s) else Ret (Some (ip, nm)) s
      | Some (path, nm) \<Rightarrow>
          bindR (ilock ip s) (\<lambda>_ s.
          if i_type (icache s ! ip) \<noteq> T_DIR then bindR (iunlockput ip s) (\<lambda>_ s. Ret None s)
          else if stop \<and> path = [] then bindR (iunlock ip s) (\<lambda>_ s. Ret (Some (ip, nm)) s)
          else
            bindR (dirlookup ip nm s) (\<lambda>r s.
            case r of
              None \<Rightarrow> bindR (iunlockput ip s) (\<lambda>_ s. Ret None s)
            | Some (next, off) \<Rightarrow>
                bindR (iunlockput ip s) (\<lambda>_ s.
                namex_loop k stop next path nm s))))"

definition namex :: "u8 list \<Rightarrow> bool \<Rightarrow> 'a cnst_scheme \<Rightarrow> ('a cnst_scheme, (nat \<times> u8 list) option) res" where
  "namex path stop s =
     bindR (if path \<noteq> [] \<and> hd path = 47 then iget ROOTDEV ROOTINO s
            else with_cur s (\<lambda>i. case cwd (ptable s ! i) of None \<Rightarrow> Fault ''cwd'' | Some ip \<Rightarrow> idup ip s)) (\<lambda>ip s.
     namex_loop (Suc (length path)) stop ip path [] s)"

definition namei :: "u8 list \<Rightarrow> 'a cnst_scheme \<Rightarrow> ('a cnst_scheme, nat option) res" where
  "namei path s = bindR (namex path False s) (\<lambda>r s. Ret (map_option fst r) s)"

definition nameiparent :: "u8 list \<Rightarrow> 'a cnst_scheme \<Rightarrow> ('a cnst_scheme, (nat \<times> u8 list) option) res" where
  "nameiparent path s = namex path True s"

end
