(* ===== verification/File.thy ===== *)
theory File
  imports Fs
begin

text \<open>
  Pipes (\<^verbatim>\<open>pipe.c\<close>) and open files (\<^verbatim>\<open>file.c\<close>, \<^verbatim>\<open>file.h\<close>). A pipe is found by the address
  of the page that holds it.
\<close>

section \<open>Data\<close>

abbreviation (input) PIPESIZE :: nat where "PIPESIZE \<equiv> 512"
abbreviation (input) NFILE :: nat where "NFILE \<equiv> 100"

record pipe =
  p_data :: "u8 list"
  nread :: u32
  nwrite :: u32
  readopen :: bool
  writeopen :: bool

datatype fdtype = FD_NONE | FD_PIPE | FD_INODE

record ofile_entry =
  f_type :: fdtype
  f_ref :: int
  f_readable :: bool
  f_writable :: bool
  f_pipe :: u32
  f_ip :: nat
  f_off :: u32

record ftst = cnst +
  pipes :: "u32 \<Rightarrow> pipe"
  ftable :: "ofile_entry list"

definition upd_pipe :: "u32 \<Rightarrow> (pipe \<Rightarrow> pipe) \<Rightarrow> 'a ftst_scheme \<Rightarrow> 'a ftst_scheme" where
  "upd_pipe p f s = s\<lparr>pipes := (pipes s)(p := f (pipes s p))\<rparr>"

definition upd_file :: "nat \<Rightarrow> (ofile_entry \<Rightarrow> ofile_entry) \<Rightarrow> 'a ftst_scheme \<Rightarrow> 'a ftst_scheme" where
  "upd_file f g s = s\<lparr>ftable := (ftable s)[f := g (ftable s ! f)]\<rparr>"

section \<open>Pipes\<close>

definition pipeclose :: "u32 \<Rightarrow> bool \<Rightarrow> 'a ftst_scheme \<Rightarrow> ('a ftst_scheme, unit) res" where
  "pipeclose p writable s =
     bindR (acquire (L_pipe p) s) (\<lambda>_ s.
     bindR (if writable then wakeup (Ch_pipe_nread p) (upd_pipe p (\<lambda>x. x\<lparr>writeopen := False\<rparr>) s)
            else wakeup (Ch_pipe_nwrite p) (upd_pipe p (\<lambda>x. x\<lparr>readopen := False\<rparr>) s)) (\<lambda>_ s.
     if \<not> readopen (pipes s p) \<and> \<not> writeopen (pipes s p) then
       bindR (release (L_pipe p) s) (\<lambda>_ s. kfree p s)
     else release (L_pipe p) s))"

text \<open>
  The loop of \<open>pipewrite\<close> over the bytes that are left. When the pipe is full the process
  wakes the readers and sleeps, and goes on with the same byte when it is woken up.
\<close>

primrec pipewrite_loop :: "u32 \<Rightarrow> u8 list \<Rightarrow> 'a ftst_scheme \<Rightarrow> ('a ftst_scheme, bool) res" where
  "pipewrite_loop p [] s = Ret True s"
| "pipewrite_loop p (c # cs) s =
     (if nwrite (pipes s p) = nread (pipes s p) + 512 then
        with_cur s (\<lambda>i.
        if \<not> readopen (pipes s p) \<or> killed (ptable s ! i)
        then bindR (release (L_pipe p) s) (\<lambda>_ s. Ret False s)
        else
          bindR (wakeup (Ch_pipe_nread p) s) (\<lambda>_ s.
          bindR (sleep (Ch_pipe_nwrite p) (L_pipe p) s) (\<lambda>_ s. NoFuel)))
      else
        pipewrite_loop p cs
          (upd_pipe p (\<lambda>x. x\<lparr>p_data := (p_data x)[unat (nwrite x mod 512) := c], nwrite := nwrite x + 1\<rparr>) s))"

definition pipewrite :: "u32 \<Rightarrow> u8 list \<Rightarrow> int \<Rightarrow> 'a ftst_scheme \<Rightarrow> ('a ftst_scheme, int) res" where
  "pipewrite p bs n s =
     bindR (acquire (L_pipe p) s) (\<lambda>_ s.
     bindR (pipewrite_loop p bs s) (\<lambda>ok s.
     if \<not> ok then Ret (-1) s
     else
       bindR (wakeup (Ch_pipe_nread p) s) (\<lambda>_ s.
       bindR (release (L_pipe p) s) (\<lambda>_ s.
       Ret n s))))"

primrec piperead_loop :: "nat \<Rightarrow> u32 \<Rightarrow> u8 list \<Rightarrow> 'a ftst_scheme \<Rightarrow> u8 list \<times> 'a ftst_scheme" where
  "piperead_loop 0 p acc s = (acc, s)"
| "piperead_loop (Suc n) p acc s =
     (if nread (pipes s p) = nwrite (pipes s p) then (acc, s)
      else piperead_loop n p (acc @ [p_data (pipes s p) ! unat (nread (pipes s p) mod 512)])
             (upd_pipe p (\<lambda>x. x\<lparr>nread := nread x + 1\<rparr>) s))"

definition piperead :: "u32 \<Rightarrow> int \<Rightarrow> 'a ftst_scheme \<Rightarrow> ('a ftst_scheme, int \<times> u8 list) res" where
  "piperead p n s =
     bindR (acquire (L_pipe p) s) (\<lambda>_ s.
     if nread (pipes s p) = nwrite (pipes s p) \<and> writeopen (pipes s p) then
       with_cur s (\<lambda>i.
       if killed (ptable s ! i) then bindR (release (L_pipe p) s) (\<lambda>_ s. Ret (-1, []) s)
       else bindR (sleep (Ch_pipe_nread p) (L_pipe p) s) (\<lambda>_ s. NoFuel))
     else
       let (bs, s) = piperead_loop (nat n) p [] s in
       bindR (wakeup (Ch_pipe_nwrite p) s) (\<lambda>_ s.
       bindR (release (L_pipe p) s) (\<lambda>_ s.
       Ret (int (length bs), bs) s)))"

section \<open>Open files\<close>

definition filealloc :: "'a ftst_scheme \<Rightarrow> ('a ftst_scheme, nat option) res" where
  "filealloc s =
     bindR (acquire L_ftable s) (\<lambda>_ s.
     case find_index (\<lambda>f. f_ref f = 0) (ftable s) of
       Some f \<Rightarrow>
         let s = upd_file f (\<lambda>x. x\<lparr>f_ref := 1\<rparr>) s in
         bindR (release L_ftable s) (\<lambda>_ s. Ret (Some f) s)
     | None \<Rightarrow> bindR (release L_ftable s) (\<lambda>_ s. Ret None s))"

definition filedup :: "nat \<Rightarrow> 'a ftst_scheme \<Rightarrow> ('a ftst_scheme, nat) res" where
  "filedup f s =
     bindR (acquire L_ftable s) (\<lambda>_ s.
     if f_ref (ftable s ! f) < 1 then Panic ''filedup''
     else
       let s = upd_file f (\<lambda>x. x\<lparr>f_ref := f_ref x + 1\<rparr>) s in
       bindR (release L_ftable s) (\<lambda>_ s. Ret f s))"

definition fileclose :: "nat \<Rightarrow> 'a ftst_scheme \<Rightarrow> ('a ftst_scheme, unit) res" where
  "fileclose f s =
     bindR (acquire L_ftable s) (\<lambda>_ s.
     if f_ref (ftable s ! f) < 1 then Panic ''fileclose''
     else
       let s = upd_file f (\<lambda>x. x\<lparr>f_ref := f_ref x - 1\<rparr>) s in
       if f_ref (ftable s ! f) > 0 then release L_ftable s
       else
         let ff = ftable s ! f;
             s = upd_file f (\<lambda>x. x\<lparr>f_ref := 0, f_type := FD_NONE\<rparr>) s in
         bindR (release L_ftable s) (\<lambda>_ s.
         if f_type ff = FD_PIPE then pipeclose (f_pipe ff) (f_writable ff) s
         else if f_type ff = FD_INODE then
           bindR (begin_op s) (\<lambda>_ s.
           bindR (iput (f_ip ff) s) (\<lambda>_ s.
           end_op s))
         else Ret () s))"

definition filestat :: "nat \<Rightarrow> 'a ftst_scheme \<Rightarrow> ('a ftst_scheme, int \<times> stat option) res" where
  "filestat f s =
     (if f_type (ftable s ! f) = FD_INODE then
        let ip = f_ip (ftable s ! f) in
        bindR (ilock ip s) (\<lambda>_ s.
        let st = stati ip s in
        bindR (iunlock ip s) (\<lambda>_ s.
        Ret (0, Some st) s))
      else Ret (-1, None) s)"

definition fileread :: "nat \<Rightarrow> int \<Rightarrow> 'a ftst_scheme \<Rightarrow> ('a ftst_scheme, int \<times> u8 list) res" where
  "fileread f n s =
     (let x = ftable s ! f in
      if \<not> f_readable x then Ret (-1, []) s
      else if f_type x = FD_PIPE then piperead (f_pipe x) n s
      else if f_type x = FD_INODE then
        bindR (ilock (f_ip x) s) (\<lambda>_ s.
        bindR (readi (f_ip x) (f_off (ftable s ! f)) (word_of_int n) s) (\<lambda>(r, bs) s.
        let s = (if r > 0 then upd_file f (\<lambda>x. x\<lparr>f_off := f_off x + word_of_int r\<rparr>) s else s) in
        bindR (iunlock (f_ip x) s) (\<lambda>_ s.
        Ret (r, bs) s)))
      else Panic ''fileread'')"

text \<open>
  The loop of \<open>filewrite\<close> over the bytes that are left: at most \<open>max = 13 * 512\<close> of them in
  a transaction. The result is whether all were written.
\<close>

primrec filewrite_loop :: "nat \<Rightarrow> nat \<Rightarrow> u8 list \<Rightarrow> 'a ftst_scheme \<Rightarrow> ('a ftst_scheme, bool) res" where
  "filewrite_loop 0 f src s = NoFuel"
| "filewrite_loop (Suc k) f src s =
     (if src = [] then Ret True s
      else
        let n1 = min (length src) 6656; ip = f_ip (ftable s ! f) in
        bindR (begin_op s) (\<lambda>_ s.
        bindR (ilock ip s) (\<lambda>_ s.
        bindR (writei ip (take n1 src) (f_off (ftable s ! f)) s) (\<lambda>r s.
        let s = (if r > 0 then upd_file f (\<lambda>x. x\<lparr>f_off := f_off x + word_of_int r\<rparr>) s else s) in
        bindR (iunlock ip s) (\<lambda>_ s.
        bindR (end_op s) (\<lambda>_ s.
        if r < 0 then Ret False s
        else if r \<noteq> int n1 then Panic ''short filewrite''
        else filewrite_loop k f (drop n1 src) s))))))"

text \<open>\<open>src\<close> are the \<open>n\<close> bytes at \<open>addr\<close>, none when \<open>n\<close> is negative.\<close>

definition filewrite :: "nat \<Rightarrow> u8 list \<Rightarrow> int \<Rightarrow> 'a ftst_scheme \<Rightarrow> ('a ftst_scheme, int) res" where
  "filewrite f src n s =
     (let x = ftable s ! f in
      if \<not> f_writable x then Ret (-1) s
      else if f_type x = FD_PIPE then pipewrite (f_pipe x) src n s
      else if f_type x = FD_INODE then
        bindR (filewrite_loop (Suc (length src)) f src s) (\<lambda>ok s.
        Ret (if ok \<and> n \<ge> 0 then n else -1) s)
      else Panic ''filewrite'')"

definition zero_pipe :: pipe where
  "zero_pipe = \<lparr>p_data = replicate 512 0, nread = 0, nwrite = 0, readopen = True, writeopen = True\<rparr>"

text \<open>
  The data of a new pipe is what the page held before; only bytes that were written are ever
  read, and the model starts with zeros.
\<close>

definition pipealloc :: "'a ftst_scheme \<Rightarrow> ('a ftst_scheme, (nat \<times> nat) option) res" where
  "pipealloc s =
     (let bad = (\<lambda>p f0 f1 s.
            bindR (if p \<noteq> 0 then kfree p s else Ret () s) (\<lambda>_ s.
            bindR (case f0 of Some f \<Rightarrow> fileclose f s | None \<Rightarrow> Ret () s) (\<lambda>_ s.
            bindR (case f1 of Some f \<Rightarrow> fileclose f s | None \<Rightarrow> Ret () s) (\<lambda>_ s.
            Ret None s)))) in
      bindR (filealloc s) (\<lambda>f0 s.
      case f0 of None \<Rightarrow> bad 0 None None s
      | Some r \<Rightarrow>
          bindR (filealloc s) (\<lambda>f1 s.
          case f1 of None \<Rightarrow> bad 0 f0 None s
          | Some w \<Rightarrow>
              bindR (kalloc s) (\<lambda>p s.
              if p = 0 then bad 0 f0 f1 s
              else
                let s = upd_pipe p (\<lambda>_. zero_pipe) s;
                    s = upd_file r (\<lambda>x. x\<lparr>f_type := FD_PIPE, f_readable := True,
                          f_writable := False, f_pipe := p\<rparr>) s;
                    s = upd_file w (\<lambda>x. x\<lparr>f_type := FD_PIPE, f_readable := False,
                          f_writable := True, f_pipe := p\<rparr>) s in
                Ret (Some (r, w)) s))))"

end
