(* ===== verification/Process.thy ===== *)
theory Process
  imports File
begin

text \<open>
  The operations of \<^verbatim>\<open>proc.c\<close> that need address spaces and files: creating, ending and waiting
  for processes, growing their memory, choosing the next one to run, and delivering signals;
  and the kernel's accesses to the memory of the running process.
\<close>

section \<open>State\<close>

text \<open>
  The clock, the faulting address, the number of the processor, the flag \<open>first\<close> of
  \<open>forkret\<close>, the address of \<open>ftable.file\<close>, and the image of the first program.
\<close>

record sysst = ftst +
  ticks :: u32
  cr2 :: u32
  cpu_id :: nat
  forkret_first :: bool
  ftable_sym :: u32
  initcode :: "u8 list"

section \<open>Memory of the running process\<close>

text \<open>
  The kernel reaches user memory through the page table in \<open>cr3\<close>. \<open>None\<close> is a page fault;
  write protection holds in the kernel too, since \<open>entry.S\<close> sets \<open>CR0_WP\<close>.
\<close>

definition kaddr :: "u32 \<Rightarrow> bool \<Rightarrow> 'a vmst_scheme \<Rightarrow> u32 option" where
  "kaddr va write s =
     (if va \<ge> KERNBASE then Some va
      else
        let pde = load32 (mem s) (slot (p2v (cr3 s)) (PDX va)) in
        if pde AND PTE_P = 0 \<or> write \<and> pde AND PTE_W = 0 then None
        else
          let pte = load32 (mem s) (slot (p2v (PTE_ADDR pde)) (PTX va)) in
          if pte AND PTE_P = 0 \<or> write \<and> pte AND PTE_W = 0 then None
          else Some (p2v (PTE_ADDR pte) + va mod PGSIZE))"

primrec get_bytes :: "nat \<Rightarrow> u32 \<Rightarrow> 'a vmst_scheme \<Rightarrow> u8 list option" where
  "get_bytes 0 va s = Some []"
| "get_bytes (Suc n) va s =
     (case kaddr va False s of
        None \<Rightarrow> None
      | Some a \<Rightarrow> map_option ((#) (mem s a)) (get_bytes n (va + 1) s))"

primrec set_bytes :: "u8 list \<Rightarrow> u32 \<Rightarrow> 'a vmst_scheme \<Rightarrow> ('a vmst_scheme, unit) res" where
  "set_bytes [] va s = Ret () s"
| "set_bytes (c # cs) va s =
     (case kaddr va True s of
        None \<Rightarrow> Fault ''page fault''
      | Some a \<Rightarrow> set_bytes cs (va + 1) (s\<lparr>mem := (mem s)(a := c)\<rparr>))"

definition get_word :: "u32 \<Rightarrow> 'a vmst_scheme \<Rightarrow> ('a vmst_scheme, u32) res" where
  "get_word va s =
     (case get_bytes 4 va s of None \<Rightarrow> Fault ''page fault'' | Some bs \<Rightarrow> Ret (get32 bs 0) s)"

definition set_word :: "u32 \<Rightarrow> u32 \<Rightarrow> 'a vmst_scheme \<Rightarrow> ('a vmst_scheme, unit) res" where
  "set_word va v s = set_bytes (bytes_of32 v) va s"

section \<open>Creating processes\<close>

definition zero_tf :: trapframe where
  "zero_tf = \<lparr>tf_edi = 0, tf_esi = 0, tf_ebp = 0, tf_oesp = 0, tf_ebx = 0, tf_edx = 0, tf_ecx = 0,
     tf_eax = 0, tf_gs = 0, tf_fs = 0, tf_es = 0, tf_ds = 0, tf_trapno = 0, tf_err = 0, tf_eip = 0,
     tf_cs = 0, tf_eflags = 0, tf_esp = 0, tf_ss = 0\<rparr>"

definition str_bytes :: "string \<Rightarrow> u8 list" where
  "str_bytes t = map of_char t"

definition set_name :: "cptr \<Rightarrow> proc \<Rightarrow> proc" where
  "set_name t p = p\<lparr>name := put_bytes (name p) 0 (safestrcpy t 16)\<rparr>"

text \<open>\<open>FL_IF\<close> is \<open>0x200\<close>; the selectors are \<open>SEG_UCODE << 3 | DPL_USER\<close> and so on.\<close>

definition userinit :: "'a sysst_scheme \<Rightarrow> ('a sysst_scheme, unit) res" where
  "userinit s =
     bindR (allocproc s) (\<lambda>p s.
     let s = s\<lparr>initproc := p\<rparr> in
     case p of None \<Rightarrow> Fault ''userinit''
     | Some p \<Rightarrow>
         bindR (setupkvm s) (\<lambda>pd s.
         let s = upd_proc p (\<lambda>x. x\<lparr>pgdir := pd\<rparr>) s in
         if pd = 0 then Panic ''userinit: out of memory?''
         else
           bindR (inituvm pd (initcode s) s) (\<lambda>_ s.
           let s = upd_proc p (\<lambda>x. x\<lparr>sz := PGSIZE, tf := zero_tf\<lparr>tf_cs := 0x23, tf_ds := 0x2B,
                     tf_es := 0x2B, tf_ss := 0x2B, tf_eflags := 0x200, tf_esp := PGSIZE, tf_eip := 0\<rparr>\<rparr>) s;
               s = upd_proc p (set_name (arr (str_bytes ''initcode''))) s in
           bindR (namei (str_bytes ''/'') s) (\<lambda>ip s.
           Ret () (upd_proc p (\<lambda>x. x\<lparr>cwd := ip, state := RUNNABLE\<rparr>) s)))))"

definition growproc :: "int \<Rightarrow> 'a vmst_scheme \<Rightarrow> ('a vmst_scheme, int) res" where
  "growproc n s =
     with_cur s (\<lambda>i.
     let p = ptable s ! i in
     bindR (if n > 0 then
              bindR (allocuvm (pgdir p) (sz p) (sz p + word_of_int n) s) (\<lambda>r s. Ret (if r = 0 then None else Some r) s)
            else if n < 0 then
              bindR (deallocuvm (pgdir p) (sz p) (sz p + word_of_int n) s) (\<lambda>r s. Ret (if r = 0 then None else Some r) s)
            else Ret (Some (sz p)) s) (\<lambda>r s.
     case r of None \<Rightarrow> Ret (-1) s
     | Some r \<Rightarrow>
         let s = upd_proc i (\<lambda>x. x\<lparr>sz := r\<rparr>) s in
         bindR (switchuvm i s) (\<lambda>_ s. Ret 0 s)))"

text \<open>
  Copying the open files of process \<open>i\<close> to process \<open>np\<close>. A slot that a signal handler was
  written to is no pointer to a file.
\<close>

primrec dup_files :: "nat \<Rightarrow> nat \<Rightarrow> nat \<Rightarrow> nat \<Rightarrow> 'a sysst_scheme \<Rightarrow> ('a sysst_scheme, unit) res" where
  "dup_files 0 fd i np s = Ret () s"
| "dup_files (Suc k) fd i np s =
     bindR (case ofile (ptable s ! i) ! fd of
              FileP f \<Rightarrow>
                bindR (filedup f s) (\<lambda>f s.
                Ret () (upd_proc np (\<lambda>x. x\<lparr>ofile := (ofile x)[fd := FileP f]\<rparr>) s))
            | W w \<Rightarrow> if w \<noteq> 0 then Fault ''filedup'' else Ret () s) (\<lambda>_ s.
     dup_files k (Suc fd) i np s)"

definition fork_with :: "(u32 \<Rightarrow> u32 \<Rightarrow> 'a sysst_scheme \<Rightarrow> ('a sysst_scheme, u32) res) \<Rightarrow>
    'a sysst_scheme \<Rightarrow> ('a sysst_scheme, (nat \<times> u32) option) res" where
  "fork_with copy s =
     bindR (allocproc s) (\<lambda>np s.
     case np of None \<Rightarrow> Ret None s
     | Some np \<Rightarrow>
         with_cur s (\<lambda>i.
         bindR (copy (pgdir (ptable s ! i)) (sz (ptable s ! i)) s) (\<lambda>pd s.
         let s = upd_proc np (\<lambda>x. x\<lparr>pgdir := pd\<rparr>) s in
         if pd = 0 then
           bindR (kfree (kstack (ptable s ! np)) s) (\<lambda>_ s.
           Ret None (upd_proc np (\<lambda>x. x\<lparr>kstack := 0, state := UNUSED\<rparr>) s))
         else
           let p = ptable s ! i;
               s = upd_proc np (\<lambda>x. x\<lparr>sz := sz p, parent := Some i, tf := (tf p)\<lparr>tf_eax := 0\<rparr>\<rparr>) s in
           bindR (dup_files NOFILE 0 i np s) (\<lambda>_ s.
           case cwd (ptable s ! i) of None \<Rightarrow> Fault ''idup''
           | Some ip \<Rightarrow>
               bindR (idup ip s) (\<lambda>ip s.
               let s = upd_proc np (\<lambda>x. x\<lparr>cwd := Some ip\<rparr>) s;
                   s = upd_proc np (set_name (arr (name (ptable s ! i)))) s;
                   pid' = pid (ptable s ! np) in
               bindR (acquire L_ptable s) (\<lambda>_ s.
               let s = upd_proc np (\<lambda>x. x\<lparr>state := RUNNABLE\<rparr>) s in
               bindR (release L_ptable s) (\<lambda>_ s.
               Ret (Some (np, pid')) s)))))))"

definition fork :: "'a sysst_scheme \<Rightarrow> ('a sysst_scheme, int) res" where
  "fork s =
     bindR (fork_with copyuvm s) (\<lambda>r s.
     case r of None \<Rightarrow> Ret (-1) s | Some (np, pid') \<Rightarrow> Ret (sint pid') s)"

definition cowfork :: "'a sysst_scheme \<Rightarrow> ('a sysst_scheme, int) res" where
  "cowfork s =
     bindR (fork_with copyuvm_cow s) (\<lambda>r s.
     case r of None \<Rightarrow> Ret (-1) s
     | Some (np, pid') \<Rightarrow>
         with_cur s (\<lambda>i.
         let s = upd_proc i (\<lambda>x. x\<lparr>shared := True\<rparr>) s;
             s = upd_proc np (\<lambda>x. x\<lparr>shared := True\<rparr>) s in
         Ret (sint pid') s))"

section \<open>Ending processes\<close>

primrec close_files :: "nat \<Rightarrow> nat \<Rightarrow> nat \<Rightarrow> 'a sysst_scheme \<Rightarrow> ('a sysst_scheme, unit) res" where
  "close_files 0 fd i s = Ret () s"
| "close_files (Suc k) fd i s =
     bindR (case ofile (ptable s ! i) ! fd of
              FileP f \<Rightarrow>
                bindR (fileclose f s) (\<lambda>_ s.
                Ret () (upd_proc i (\<lambda>x. x\<lparr>ofile := (ofile x)[fd := W 0]\<rparr>) s))
            | W w \<Rightarrow> if w \<noteq> 0 then Fault ''fileclose'' else Ret () s) (\<lambda>_ s.
     close_files k (Suc fd) i s)"

definition wakeup1_proc :: "nat option \<Rightarrow> 'a pst_scheme \<Rightarrow> 'a pst_scheme" where
  "wakeup1_proc p s = (case p of None \<Rightarrow> s | Some p \<Rightarrow> wakeup1 (Ch_proc p) s)"

text \<open>Passing the children of process \<open>i\<close> to \<open>initproc\<close>.\<close>

primrec abandon_children :: "nat \<Rightarrow> nat \<Rightarrow> nat \<Rightarrow> 'a pst_scheme \<Rightarrow> 'a pst_scheme" where
  "abandon_children 0 p i s = s"
| "abandon_children (Suc k) p i s =
     abandon_children k (Suc p) i
       (if parent (ptable s ! p) = Some i then
          let s = upd_proc p (\<lambda>x. x\<lparr>parent := initproc s\<rparr>) s in
          if state (ptable s ! p) = ZOMBIE then wakeup1_proc (initproc s) s else s
        else s)"

definition exit_proc :: "'a sysst_scheme \<Rightarrow> ('a sysst_scheme, unit) res" where
  "exit_proc s =
     (if cur s = initproc s then Panic ''init exiting''
      else with_cur s (\<lambda>i.
        bindR (close_files NOFILE 0 i s) (\<lambda>_ s.
        bindR (begin_op s) (\<lambda>_ s.
        bindR (case cwd (ptable s ! i) of None \<Rightarrow> Fault ''iput'' | Some ip \<Rightarrow> iput ip s) (\<lambda>_ s.
        bindR (end_op s) (\<lambda>_ s.
        let s = upd_proc i (\<lambda>x. x\<lparr>cwd := None\<rparr>) s in
        bindR (acquire L_ptable s) (\<lambda>_ s.
        let s = wakeup1_proc (parent (ptable s ! i)) s;
            s = abandon_children NPROC 0 i s;
            s = upd_proc i (\<lambda>x. x\<lparr>state := ZOMBIE\<rparr>) s in
        bindR (sched s) (\<lambda>_ s.
        Panic ''zombie exit''))))))))"

definition wait_child :: "'a vmst_scheme \<Rightarrow> ('a vmst_scheme, int) res" where
  "wait_child s =
     bindR (acquire L_ptable s) (\<lambda>_ s.
     with_cur s (\<lambda>i.
     let havekids = (\<exists>p\<in>set (ptable s). parent p = Some i) in
     case find_index (\<lambda>p. parent p = Some i \<and> state p = ZOMBIE) (ptable s) of
       Some c \<Rightarrow>
         let p = ptable s ! c in
         bindR (kfree (kstack p) s) (\<lambda>_ s.
         let s = upd_proc c (\<lambda>x. x\<lparr>kstack := 0\<rparr>) s in
         bindR (if \<not> shared p then freevm (pgdir p) s else free_cow_vm (pgdir p) s) (\<lambda>_ s.
         let s = upd_proc c (\<lambda>x. x\<lparr>state := UNUSED, pid := 0, parent := None,
                   name := (name x)[0 := 0], killed := False\<rparr>) s in
         bindR (release L_ptable s) (\<lambda>_ s.
         Ret (sint (pid p)) s)))
     | None \<Rightarrow>
         if \<not> havekids \<or> killed (ptable s ! i) then bindR (release L_ptable s) (\<lambda>_ s. Ret (-1) s)
         else bindR (sleep (Ch_proc i) L_ptable s) (\<lambda>_ s. NoFuel)))"

section \<open>Scheduling\<close>

text \<open>
  The body of the scheduler's loop over the table from entry \<open>k\<close> on: up to the switch to the
  chosen process, or to the end of the table; and what follows the switch back.
\<close>

definition scheduler_pick :: "nat \<Rightarrow> 'a vmst_scheme \<Rightarrow> ('a vmst_scheme, nat option) res" where
  "scheduler_pick k s =
     (case find_index (\<lambda>p. state p = RUNNABLE) (drop k (ptable s)) of
        None \<Rightarrow> bindR (release L_ptable s) (\<lambda>_ s. Ret None s)
      | Some j \<Rightarrow>
          let p = k + j; s = s\<lparr>cur := Some p\<rparr> in
          bindR (switchuvm p s) (\<lambda>_ s.
          Ret (Some p) (upd_proc p (\<lambda>x. x\<lparr>state := RUNNING\<rparr>) s)))"

definition scheduler_back :: "'a vmst_scheme \<Rightarrow> 'a vmst_scheme" where
  "scheduler_back s = (switchkvm s)\<lparr>cur := None\<rparr>"

definition scheduler_round :: "'a vmst_scheme \<Rightarrow> ('a vmst_scheme, nat option) res" where
  "scheduler_round s = bindR (acquire L_ptable s) (\<lambda>_ s. scheduler_pick 0 s)"

definition forkret :: "'a sysst_scheme \<Rightarrow> ('a sysst_scheme, unit) res" where
  "forkret s =
     bindR (release L_ptable s) (\<lambda>_ s.
     if forkret_first s then initlog (s\<lparr>forkret_first := False\<rparr>) else Ret () s)"

section \<open>Delivering a signal\<close>

record siginfo =
  si_addr :: u32
  si_type :: u32

definition kword_addr :: "kword \<Rightarrow> 'a sysst_scheme \<Rightarrow> u32" where
  "kword_addr w s = (case w of W a \<Rightarrow> a | FileP f \<Rightarrow> ftable_sym s + 24 * of_nat f)"

definition signal_deliver :: "nat \<Rightarrow> siginfo \<Rightarrow> 'a sysst_scheme \<Rightarrow> ('a sysst_scheme, unit) res" where
  "signal_deliver signum si s =
     with_cur s (\<lambda>i.
     let t = tf (ptable s ! i); esp = tf_esp t; old_eip = tf_eip t in
     bindR (set_word (esp - 4) old_eip s) (\<lambda>_ s.
     bindR (set_word (esp - 8) (tf_eax t) s) (\<lambda>_ s.
     bindR (set_word (esp - 12) (tf_ecx t) s) (\<lambda>_ s.
     bindR (set_word (esp - 16) (tf_edx t) s) (\<lambda>_ s.
     bindR (set_word (esp - 20) (si_type si) s) (\<lambda>_ s.
     bindR (set_word (esp - 24) (si_addr si) s) (\<lambda>_ s.
     bindR (set_word (esp - 28) (of_nat signum) s) (\<lambda>_ s.
     bindR (set_word (esp - 32) (restorer_addr (ptable s ! i)) s) (\<lambda>_ s.
     bindR (get_handler i signum s) (\<lambda>h s.
     Ret () (upd_proc i (\<lambda>x. x\<lparr>tf := (tf x)\<lparr>tf_esp := esp - 32, tf_eip := kword_addr h s\<rparr>\<rparr>) s)))))))))))"

end
