(* ===== verification/Exec.thy ===== *)
theory Exec
  imports Process
begin

text \<open>
  System-call arguments (\<^verbatim>\<open>syscall.c\<close>) and program loading (\<^verbatim>\<open>exec.c\<close>, \<^verbatim>\<open>elf.h\<close>, and
  \<open>loaduvm\<close> of \<^verbatim>\<open>vm.c\<close>). A string argument is the list of its bytes before the terminator.
\<close>

section \<open>Arguments\<close>

text \<open>The result \<open>None\<close> is the return value \<open>-1\<close>.\<close>

definition fetchint :: "u32 \<Rightarrow> 'a sysst_scheme \<Rightarrow> ('a sysst_scheme, u32 option) res" where
  "fetchint addr s =
     with_cur s (\<lambda>i.
     let z = sz (ptable s ! i) in
     if addr \<ge> z \<or> addr + 4 > z then Ret None s
     else bindR (get_word addr s) (\<lambda>v s. Ret (Some v) s))"

primrec fetchstr_loop :: "nat \<Rightarrow> u32 \<Rightarrow> u8 list \<Rightarrow> 'a sysst_scheme \<Rightarrow> ('a sysst_scheme, u8 list option) res" where
  "fetchstr_loop 0 a acc s = Ret None s"
| "fetchstr_loop (Suc k) a acc s =
     (case kaddr a False s of
        None \<Rightarrow> Fault ''page fault''
      | Some k' \<Rightarrow> if mem s k' = 0 then Ret (Some acc) s else fetchstr_loop k (a + 1) (acc @ [mem s k']) s)"

definition fetchstr :: "u32 \<Rightarrow> 'a sysst_scheme \<Rightarrow> ('a sysst_scheme, u8 list option) res" where
  "fetchstr addr s =
     with_cur s (\<lambda>i.
     let z = sz (ptable s ! i) in
     if addr \<ge> z then Ret None s
     else fetchstr_loop (unat (z - addr)) addr [] s)"

definition argint :: "nat \<Rightarrow> 'a sysst_scheme \<Rightarrow> ('a sysst_scheme, u32 option) res" where
  "argint n s = with_cur s (\<lambda>i. fetchint (tf_esp (tf (ptable s ! i)) + 4 + 4 * of_nat n) s)"

definition argptr :: "nat \<Rightarrow> u32 \<Rightarrow> 'a sysst_scheme \<Rightarrow> ('a sysst_scheme, u32 option) res" where
  "argptr n len s =
     bindR (argint n s) (\<lambda>r s.
     case r of None \<Rightarrow> Ret None s
     | Some a \<Rightarrow>
         with_cur s (\<lambda>i.
         let z = sz (ptable s ! i) in
         if a \<ge> z \<or> a + len > z then Ret None s else Ret (Some a) s))"

definition argstr :: "nat \<Rightarrow> 'a sysst_scheme \<Rightarrow> ('a sysst_scheme, u8 list option) res" where
  "argstr n s =
     bindR (argint n s) (\<lambda>r s.
     case r of None \<Rightarrow> Ret None s | Some a \<Rightarrow> fetchstr a s)"

section \<open>Loading a program\<close>

abbreviation (input) ELF_MAGIC :: u32 where "ELF_MAGIC \<equiv> 0x464C457F"
abbreviation (input) ELF_PROG_LOAD :: u32 where "ELF_PROG_LOAD \<equiv> 1"
abbreviation (input) MAXARG :: nat where "MAXARG \<equiv> 32"

text \<open>The fields of the file header (52 bytes) and of a section header (32 bytes) that are used.\<close>

record elfhdr =
  elf_magic :: u32
  elf_entry :: u32
  elf_phoff :: u32
  elf_phnum :: u16

record proghdr =
  ph_type :: u32
  ph_off :: u32
  ph_vaddr :: u32
  ph_filesz :: u32
  ph_memsz :: u32

definition get_elfhdr :: "u8 list \<Rightarrow> elfhdr" where
  "get_elfhdr d = \<lparr>elf_magic = get32 d 0, elf_entry = get32 d 24, elf_phoff = get32 d 28, elf_phnum = get16 d 44\<rparr>"

definition get_proghdr :: "u8 list \<Rightarrow> proghdr" where
  "get_proghdr d = \<lparr>ph_type = get32 d 0, ph_off = get32 d 4, ph_vaddr = get32 d 8,
     ph_filesz = get32 d 16, ph_memsz = get32 d 20\<rparr>"

primrec loaduvm_loop :: "nat \<Rightarrow> u32 \<Rightarrow> u32 \<Rightarrow> nat \<Rightarrow> u32 \<Rightarrow> u32 \<Rightarrow> u32 \<Rightarrow> 'a sysst_scheme \<Rightarrow> ('a sysst_scheme, int) res" where
  "loaduvm_loop 0 pd addr ip offset len i s = NoFuel"
| "loaduvm_loop (Suc k) pd addr ip offset len i s =
     (if i < len then
        bindR (walkpgdir pd (addr + i) False s) (\<lambda>pte s.
        if pte = 0 then Panic ''loaduvm: address should exist''
        else
          let pa = PTE_ADDR (load32 (mem s) pte);
              n = (if len - i < PGSIZE then len - i else PGSIZE) in
          bindR (readi ip (offset + i) n s) (\<lambda>(r, bs) s.
          let s = s\<lparr>mem := write_bytes (mem s) (p2v pa) bs\<rparr> in
          if word_of_int r \<noteq> n then Ret (-1) s
          else loaduvm_loop k pd addr ip offset len (i + PGSIZE) s))
      else Ret 0 s)"

definition loaduvm :: "u32 \<Rightarrow> u32 \<Rightarrow> nat \<Rightarrow> u32 \<Rightarrow> u32 \<Rightarrow> 'a sysst_scheme \<Rightarrow> ('a sysst_scheme, int) res" where
  "loaduvm pd addr ip offset len s =
     (if addr mod PGSIZE \<noteq> 0 then Panic ''loaduvm: addr must be page aligned''
      else loaduvm_loop 1048577 pd addr ip offset len 0 s)"

text \<open>
  The loop over the section headers; \<open>None\<close> is the jump to \<open>bad\<close>, with the address space that
  is left to free.
\<close>

primrec exec_load :: "nat \<Rightarrow> u32 \<Rightarrow> nat \<Rightarrow> u32 \<Rightarrow> u32 \<Rightarrow> 'a sysst_scheme \<Rightarrow> ('a sysst_scheme, u32 option) res" where
  "exec_load 0 pd ip off z s = Ret (Some z) s"
| "exec_load (Suc k) pd ip off z s =
     bindR (readi ip off 32 s) (\<lambda>(r, bs) s.
     if r \<noteq> 32 then Ret None s
     else
       let ph = get_proghdr bs in
       if ph_type ph \<noteq> ELF_PROG_LOAD then exec_load k pd ip (off + 32) z s
       else if ph_memsz ph < ph_filesz ph then Ret None s
       else
         bindR (allocuvm pd z (ph_vaddr ph + ph_memsz ph) s) (\<lambda>z s.
         if z = 0 then Ret None s
         else
           bindR (loaduvm pd (ph_vaddr ph) ip (ph_off ph) (ph_filesz ph) s) (\<lambda>r s.
           if r < 0 then Ret None s
           else exec_load k pd ip (off + 32) z s)))"

text \<open>Pushing the argument strings: the stack pointer and the addresses of the strings.\<close>

primrec exec_args :: "u8 list list \<Rightarrow> nat \<Rightarrow> u32 \<Rightarrow> u32 \<Rightarrow> u32 list \<Rightarrow> 'a sysst_scheme \<Rightarrow>
    ('a sysst_scheme, (u32 \<times> u32 list) option) res" where
  "exec_args [] argc pd sp ustack s = Ret (Some (sp, ustack)) s"
| "exec_args (a # as) argc pd sp ustack s =
     (if argc \<ge> MAXARG then Ret None s
      else
        let sp = (sp - of_nat (length a + 1)) AND NOT 3 in
        bindR (copyout pd sp (a @ [0]) s) (\<lambda>r s.
        if r < 0 then Ret None s
        else exec_args as (Suc argc) pd sp (ustack @ [sp]) s))"

text \<open>The part of a path after its last slash.\<close>

definition base_name :: "u8 list \<Rightarrow> u8 list" where
  "base_name path = rev (takeWhile (\<lambda>c. c \<noteq> 47) (rev path))"

definition exec_bad :: "u32 \<Rightarrow> nat option \<Rightarrow> 'a sysst_scheme \<Rightarrow> ('a sysst_scheme, int) res" where
  "exec_bad pd ip s =
     bindR (if pd \<noteq> 0 then free_cow_vm pd s else Ret () s) (\<lambda>_ s.
     case ip of None \<Rightarrow> Ret (-1) s
     | Some ip \<Rightarrow>
         bindR (iunlockput ip s) (\<lambda>_ s.
         bindR (end_op s) (\<lambda>_ s.
         Ret (-1) s)))"

text \<open>From the loaded image on: the stack, the arguments and the new image of the process.\<close>

definition exec_start :: "u32 \<Rightarrow> u32 \<Rightarrow> u32 \<Rightarrow> u8 list \<Rightarrow> u8 list list \<Rightarrow> 'a sysst_scheme \<Rightarrow> ('a sysst_scheme, int) res" where
  "exec_start pd entry z path argv s =
     (let z = PGROUNDUP z in
      bindR (allocuvm pd z (z + 2 * PGSIZE) s) (\<lambda>z s.
      if z = 0 then exec_bad pd None s
      else
        bindR (clearpteu pd (z - 2 * PGSIZE) s) (\<lambda>_ s.
        bindR (exec_args argv 0 pd z [] s) (\<lambda>r s.
        case r of None \<Rightarrow> exec_bad pd None s
        | Some (sp, args) \<Rightarrow>
            let argc = of_nat (length args) :: u32;
                ustack = [0xffffffff, argc, sp - (argc + 1) * 4] @ args @ [0];
                sp = sp - (3 + argc + 1) * 4 in
            bindR (copyout pd sp (concat (map bytes_of32 ustack)) s) (\<lambda>r s.
            if r < 0 then exec_bad pd None s
            else with_cur s (\<lambda>i.
              let s = upd_proc i (set_name (arr (base_name path))) s;
                  oldpgdir = pgdir (ptable s ! i);
                  s = upd_proc i (\<lambda>x. x\<lparr>pgdir := pd, sz := z,
                        tf := (tf x)\<lparr>tf_eip := entry, tf_esp := sp\<rparr>\<rparr>) s in
              bindR (switchuvm i s) (\<lambda>_ s.
              bindR (free_cow_vm oldpgdir s) (\<lambda>_ s.
              Ret 0 s))))))))"

text \<open>
  The result of \<open>readi\<close> is compared with \<open>sizeof(elf)\<close> as an unsigned number, so that the
  error \<open>-1\<close> passes the check and the code goes on with a header that was never read.
\<close>

definition exec :: "u8 list \<Rightarrow> u8 list list \<Rightarrow> 'a sysst_scheme \<Rightarrow> ('a sysst_scheme, int) res" where
  "exec path argv s =
     bindR (begin_op s) (\<lambda>_ s.
     bindR (namei path s) (\<lambda>ip s.
     case ip of None \<Rightarrow> bindR (end_op s) (\<lambda>_ s. Ret (-1) s)
     | Some ip \<Rightarrow>
         bindR (ilock ip s) (\<lambda>_ s.
         bindR (readi ip 0 52 s) (\<lambda>(r, bs) s.
         if (word_of_int r :: u32) < 52 then exec_bad 0 (Some ip) s
         else if r < 0 then Fault ''exec: header not read''
         else
           let elf = get_elfhdr bs in
           if elf_magic elf \<noteq> ELF_MAGIC then exec_bad 0 (Some ip) s
           else
             bindR (setupkvm s) (\<lambda>pd s.
             if pd = 0 then exec_bad 0 (Some ip) s
             else
               bindR (exec_load (unat (elf_phnum elf)) pd ip (elf_phoff elf) 0 s) (\<lambda>r s.
               case r of None \<Rightarrow> exec_bad pd (Some ip) s
               | Some z \<Rightarrow>
                   bindR (iunlockput ip s) (\<lambda>_ s.
                   bindR (end_op s) (\<lambda>_ s.
                   exec_start pd (elf_entry elf) z path argv s))))))))"

end
