(* ===== verification/Sysfile.thy ===== *)
theory Sysfile
  imports Exec
begin

text \<open>
  The system calls (\<^verbatim>\<open>sysfile.c\<close>, \<^verbatim>\<open>sysproc.c\<close>), their dispatch (\<^verbatim>\<open>syscall.c\<close>) and the trap
  handler (\<^verbatim>\<open>trap.c\<close>).
\<close>

section \<open>File descriptors\<close>

text \<open>The descriptor and the file; a slot that holds a signal handler is no file.\<close>

definition argfd :: "nat \<Rightarrow> 'a sysst_scheme \<Rightarrow> ('a sysst_scheme, (nat \<times> nat) option) res" where
  "argfd n s =
     bindR (argint n s) (\<lambda>r s.
     case r of None \<Rightarrow> Ret None s
     | Some fd \<Rightarrow>
         if sint fd < 0 \<or> sint fd \<ge> int NOFILE then Ret None s
         else with_cur s (\<lambda>i.
           case ofile (ptable s ! i) ! unat fd of
             W w \<Rightarrow> if w = 0 then Ret None s else Fault ''argfd''
           | FileP f \<Rightarrow> Ret (Some (unat fd, f)) s))"

definition fdalloc :: "nat \<Rightarrow> 'a sysst_scheme \<Rightarrow> ('a sysst_scheme, nat option) res" where
  "fdalloc f s =
     with_cur s (\<lambda>i.
     case find_index (\<lambda>w. w = W 0) (ofile (ptable s ! i)) of
       None \<Rightarrow> Ret None s
     | Some fd \<Rightarrow> Ret (Some fd) (upd_proc i (\<lambda>x. x\<lparr>ofile := (ofile x)[fd := FileP f]\<rparr>) s))"

definition sys_dup :: "'a sysst_scheme \<Rightarrow> ('a sysst_scheme, int) res" where
  "sys_dup s =
     bindR (argfd 0 s) (\<lambda>r s.
     case r of None \<Rightarrow> Ret (-1) s
     | Some (_, f) \<Rightarrow>
         bindR (fdalloc f s) (\<lambda>fd s.
         case fd of None \<Rightarrow> Ret (-1) s
         | Some fd \<Rightarrow> bindR (filedup f s) (\<lambda>_ s. Ret (int fd) s)))"

text \<open>The arguments that \<open>sys_read\<close> and \<open>sys_write\<close> share: file, buffer and length.\<close>

definition arg_rw :: "'a sysst_scheme \<Rightarrow> ('a sysst_scheme, (nat \<times> u32 \<times> u32) option) res" where
  "arg_rw s =
     bindR (argfd 0 s) (\<lambda>r s.
     case r of None \<Rightarrow> Ret None s
     | Some (_, f) \<Rightarrow>
         bindR (argint 2 s) (\<lambda>n s.
         case n of None \<Rightarrow> Ret None s
         | Some n \<Rightarrow>
             bindR (argptr 1 n s) (\<lambda>p s.
             case p of None \<Rightarrow> Ret None s | Some p \<Rightarrow> Ret (Some (f, p, n)) s)))"

text \<open>The bytes read are stored in the process's memory when they are all there.\<close>

definition sys_read :: "'a sysst_scheme \<Rightarrow> ('a sysst_scheme, int) res" where
  "sys_read s =
     bindR (arg_rw s) (\<lambda>r s.
     case r of None \<Rightarrow> Ret (-1) s
     | Some (f, p, n) \<Rightarrow>
         bindR (fileread f (sint n) s) (\<lambda>(r, bs) s.
         bindR (set_bytes bs p s) (\<lambda>_ s.
         Ret r s)))"

definition sys_write :: "'a sysst_scheme \<Rightarrow> ('a sysst_scheme, int) res" where
  "sys_write s =
     bindR (arg_rw s) (\<lambda>r s.
     case r of None \<Rightarrow> Ret (-1) s
     | Some (f, p, n) \<Rightarrow>
         (case get_bytes (nat (sint n)) p s of
            None \<Rightarrow> Fault ''page fault''
          | Some bs \<Rightarrow> filewrite f bs (sint n) s))"

definition sys_close :: "'a sysst_scheme \<Rightarrow> ('a sysst_scheme, int) res" where
  "sys_close s =
     bindR (argfd 0 s) (\<lambda>r s.
     case r of None \<Rightarrow> Ret (-1) s
     | Some (fd, f) \<Rightarrow>
         with_cur s (\<lambda>i.
         let s = upd_proc i (\<lambda>x. x\<lparr>ofile := (ofile x)[fd := W 0]\<rparr>) s in
         bindR (fileclose f s) (\<lambda>_ s. Ret 0 s)))"

text \<open>\<open>struct stat\<close> has the fields at offsets 0, 4, 8, 12 and 16.\<close>

definition put_stat :: "u32 \<Rightarrow> stat \<Rightarrow> 'a sysst_scheme \<Rightarrow> ('a sysst_scheme, unit) res" where
  "put_stat p st s =
     bindR (set_word (p + 4) (st_dev st) s) (\<lambda>_ s.
     bindR (set_word (p + 8) (st_ino st) s) (\<lambda>_ s.
     bindR (set_bytes (bytes_of16 (st_type st)) p s) (\<lambda>_ s.
     bindR (set_bytes (bytes_of16 (st_nlink st)) (p + 12) s) (\<lambda>_ s.
     set_word (p + 16) (st_size st) s))))"

definition sys_fstat :: "'a sysst_scheme \<Rightarrow> ('a sysst_scheme, int) res" where
  "sys_fstat s =
     bindR (argfd 0 s) (\<lambda>r s.
     case r of None \<Rightarrow> Ret (-1) s
     | Some (_, f) \<Rightarrow>
         bindR (argptr 1 20 s) (\<lambda>p s.
         case p of None \<Rightarrow> Ret (-1) s
         | Some p \<Rightarrow>
             bindR (filestat f s) (\<lambda>(r, st) s.
             case st of None \<Rightarrow> Ret r s
             | Some st \<Rightarrow> bindR (put_stat p st s) (\<lambda>_ s. Ret r s))))"

section \<open>Links and directories\<close>

definition sys_link_bad :: "nat \<Rightarrow> 'a sysst_scheme \<Rightarrow> ('a sysst_scheme, int) res" where
  "sys_link_bad ip s =
     bindR (ilock ip s) (\<lambda>_ s.
     let s = upd_inode ip (\<lambda>x. x\<lparr>i_nlink := i_nlink x - 1\<rparr>) s in
     bindR (iupdate ip s) (\<lambda>_ s.
     bindR (iunlockput ip s) (\<lambda>_ s.
     bindR (end_op s) (\<lambda>_ s.
     Ret (-1) s))))"

definition sys_link :: "'a sysst_scheme \<Rightarrow> ('a sysst_scheme, int) res" where
  "sys_link s =
     bindR (argstr 0 s) (\<lambda>old s. case old of None \<Rightarrow> Ret (-1) s | Some old \<Rightarrow>
     bindR (argstr 1 s) (\<lambda>new s. case new of None \<Rightarrow> Ret (-1) s | Some new \<Rightarrow>
     bindR (begin_op s) (\<lambda>_ s.
     bindR (namei old s) (\<lambda>ip s. case ip of
       None \<Rightarrow> bindR (end_op s) (\<lambda>_ s. Ret (-1) s)
     | Some ip \<Rightarrow>
         bindR (ilock ip s) (\<lambda>_ s.
         if i_type (icache s ! ip) = T_DIR then
           bindR (iunlockput ip s) (\<lambda>_ s. bindR (end_op s) (\<lambda>_ s. Ret (-1) s))
         else
           let s = upd_inode ip (\<lambda>x. x\<lparr>i_nlink := i_nlink x + 1\<rparr>) s in
           bindR (iupdate ip s) (\<lambda>_ s.
           bindR (iunlock ip s) (\<lambda>_ s.
           bindR (nameiparent new s) (\<lambda>dp s. case dp of
             None \<Rightarrow> sys_link_bad ip s
           | Some (dp, nm) \<Rightarrow>
               bindR (ilock dp s) (\<lambda>_ s.
               bindR (if i_dev (icache s ! dp) \<noteq> i_dev (icache s ! ip) then Ret (-1) s
                      else dirlink dp nm (i_inum (icache s ! ip)) s) (\<lambda>r s.
               if r < 0 then bindR (iunlockput dp s) (\<lambda>_ s. sys_link_bad ip s)
               else
                 bindR (iunlockput dp s) (\<lambda>_ s.
                 bindR (iput ip s) (\<lambda>_ s.
                 bindR (end_op s) (\<lambda>_ s.
                 Ret 0 s)))))))))))))"

primrec isdirempty_loop :: "nat \<Rightarrow> nat \<Rightarrow> u32 \<Rightarrow> 'a sysst_scheme \<Rightarrow> ('a sysst_scheme, bool) res" where
  "isdirempty_loop 0 dp off s = NoFuel"
| "isdirempty_loop (Suc k) dp off s =
     (if off < i_size (icache s ! dp) then
        bindR (readi dp off 16 s) (\<lambda>(r, bs) s.
        if r \<noteq> 16 then Panic ''isdirempty: readi''
        else if d_inum (get_dirent bs) \<noteq> 0 then Ret False s
        else isdirempty_loop k dp (off + 16) s)
      else Ret True s)"

definition isdirempty :: "nat \<Rightarrow> 'a sysst_scheme \<Rightarrow> ('a sysst_scheme, bool) res" where
  "isdirempty dp s = isdirempty_loop (Suc (Suc (unat (i_size (icache s ! dp)) div 16))) dp 32 s"

definition sys_unlink_bad :: "nat \<Rightarrow> 'a sysst_scheme \<Rightarrow> ('a sysst_scheme, int) res" where
  "sys_unlink_bad dp s =
     bindR (iunlockput dp s) (\<lambda>_ s.
     bindR (end_op s) (\<lambda>_ s.
     Ret (-1) s))"

definition sys_unlink :: "'a sysst_scheme \<Rightarrow> ('a sysst_scheme, int) res" where
  "sys_unlink s =
     bindR (argstr 0 s) (\<lambda>path s. case path of None \<Rightarrow> Ret (-1) s | Some path \<Rightarrow>
     bindR (begin_op s) (\<lambda>_ s.
     bindR (nameiparent path s) (\<lambda>dp s. case dp of
       None \<Rightarrow> bindR (end_op s) (\<lambda>_ s. Ret (-1) s)
     | Some (dp, nm) \<Rightarrow>
         bindR (ilock dp s) (\<lambda>_ s.
         if namecmp (arr nm) (arr (str_bytes ''.'')) = 0 \<or> namecmp (arr nm) (arr (str_bytes ''..'')) = 0
         then sys_unlink_bad dp s
         else
           bindR (dirlookup dp nm s) (\<lambda>r s. case r of
             None \<Rightarrow> sys_unlink_bad dp s
           | Some (ip, off) \<Rightarrow>
               bindR (ilock ip s) (\<lambda>_ s.
               if sint (i_nlink (icache s ! ip)) < 1 then Panic ''unlink: nlink < 1''
               else
                 bindR (if i_type (icache s ! ip) = T_DIR then isdirempty ip s else Ret True s) (\<lambda>empty s.
                 if \<not> empty then bindR (iunlockput ip s) (\<lambda>_ s. sys_unlink_bad dp s)
                 else
                   bindR (writei dp (replicate 16 0) off s) (\<lambda>r s.
                   if r \<noteq> 16 then Panic ''unlink: writei''
                   else
                     bindR (if i_type (icache s ! ip) = T_DIR
                            then iupdate dp (upd_inode dp (\<lambda>x. x\<lparr>i_nlink := i_nlink x - 1\<rparr>) s)
                            else Ret () s) (\<lambda>_ s.
                     bindR (iunlockput dp s) (\<lambda>_ s.
                     let s = upd_inode ip (\<lambda>x. x\<lparr>i_nlink := i_nlink x - 1\<rparr>) s in
                     bindR (iupdate ip s) (\<lambda>_ s.
                     bindR (iunlockput ip s) (\<lambda>_ s.
                     bindR (end_op s) (\<lambda>_ s.
                     Ret 0 s)))))))))))))"

definition create :: "u8 list \<Rightarrow> u16 \<Rightarrow> u16 \<Rightarrow> u16 \<Rightarrow> 'a sysst_scheme \<Rightarrow> ('a sysst_scheme, nat option) res" where
  "create path type major minor s =
     bindR (nameiparent path s) (\<lambda>dp s. case dp of
       None \<Rightarrow> Ret None s
     | Some (dp, nm) \<Rightarrow>
         bindR (ilock dp s) (\<lambda>_ s.
         bindR (dirlookup dp nm s) (\<lambda>r s. case r of
           Some (ip, off) \<Rightarrow>
             bindR (iunlockput dp s) (\<lambda>_ s.
             bindR (ilock ip s) (\<lambda>_ s.
             if type = T_FILE \<and> i_type (icache s ! ip) = T_FILE then Ret (Some ip) s
             else bindR (iunlockput ip s) (\<lambda>_ s. Ret None s)))
         | None \<Rightarrow>
             bindR (ialloc (i_dev (icache s ! dp)) type s) (\<lambda>ip s.
             bindR (ilock ip s) (\<lambda>_ s.
             let s = upd_inode ip (\<lambda>x. x\<lparr>i_major := major, i_minor := minor, i_nlink := 1\<rparr>) s in
             bindR (iupdate ip s) (\<lambda>_ s.
             bindR (if type = T_DIR then
                      let s = upd_inode dp (\<lambda>x. x\<lparr>i_nlink := i_nlink x + 1\<rparr>) s in
                      bindR (iupdate dp s) (\<lambda>_ s.
                      bindR (dirlink ip (str_bytes ''.'') (i_inum (icache s ! ip)) s) (\<lambda>r s.
                      if r < 0 then Panic ''create dots''
                      else
                        bindR (dirlink ip (str_bytes ''..'') (i_inum (icache s ! dp)) s) (\<lambda>r s.
                        if r < 0 then Panic ''create dots'' else Ret () s)))
                    else Ret () s) (\<lambda>_ s.
             bindR (dirlink dp nm (i_inum (icache s ! ip)) s) (\<lambda>r s.
             if r < 0 then Panic ''create: dirlink''
             else
               bindR (iunlockput dp s) (\<lambda>_ s.
               Ret (Some ip) s)))))))))"

abbreviation (input) O_RDONLY :: u32 where "O_RDONLY \<equiv> 0"
abbreviation (input) O_WRONLY :: u32 where "O_WRONLY \<equiv> 1"
abbreviation (input) O_RDWR :: u32 where "O_RDWR \<equiv> 2"
abbreviation (input) O_CREATE :: u32 where "O_CREATE \<equiv> 0x200"

text \<open>\<open>sys_open\<close> from the locked inode on.\<close>

definition sys_open_file :: "nat \<Rightarrow> u32 \<Rightarrow> 'a sysst_scheme \<Rightarrow> ('a sysst_scheme, int) res" where
  "sys_open_file ip omode s =
     (let bad = (\<lambda>f s.
            bindR (case f of Some f \<Rightarrow> fileclose f s | None \<Rightarrow> Ret () s) (\<lambda>_ s.
            bindR (iunlockput ip s) (\<lambda>_ s.
            bindR (end_op s) (\<lambda>_ s.
            Ret (-1) s)))) in
      bindR (filealloc s) (\<lambda>f s. case f of
        None \<Rightarrow> bad None s
      | Some f \<Rightarrow>
          bindR (fdalloc f s) (\<lambda>fd s. case fd of
            None \<Rightarrow> bad (Some f) s
          | Some fd \<Rightarrow>
              bindR (iunlock ip s) (\<lambda>_ s.
              bindR (end_op s) (\<lambda>_ s.
              Ret (int fd) (upd_file f (\<lambda>x. x\<lparr>f_type := FD_INODE, f_ip := ip, f_off := 0,
                f_readable := (omode AND O_WRONLY = 0),
                f_writable := (omode AND O_WRONLY \<noteq> 0 \<or> omode AND O_RDWR \<noteq> 0)\<rparr>) s))))))"

definition sys_open :: "'a sysst_scheme \<Rightarrow> ('a sysst_scheme, int) res" where
  "sys_open s =
     bindR (argstr 0 s) (\<lambda>path s. case path of None \<Rightarrow> Ret (-1) s | Some path \<Rightarrow>
     bindR (argint 1 s) (\<lambda>omode s. case omode of None \<Rightarrow> Ret (-1) s | Some omode \<Rightarrow>
     bindR (begin_op s) (\<lambda>_ s.
     if omode AND O_CREATE \<noteq> 0 then
       bindR (create path T_FILE 0 0 s) (\<lambda>ip s. case ip of
         None \<Rightarrow> bindR (end_op s) (\<lambda>_ s. Ret (-1) s)
       | Some ip \<Rightarrow> sys_open_file ip omode s)
     else
       bindR (namei path s) (\<lambda>ip s. case ip of
         None \<Rightarrow> bindR (end_op s) (\<lambda>_ s. Ret (-1) s)
       | Some ip \<Rightarrow>
           bindR (ilock ip s) (\<lambda>_ s.
           if i_type (icache s ! ip) = T_DIR \<and> omode \<noteq> O_RDONLY then
             bindR (iunlockput ip s) (\<lambda>_ s. bindR (end_op s) (\<lambda>_ s. Ret (-1) s))
           else sys_open_file ip omode s)))))"

text \<open>The end of \<open>sys_mkdir\<close> and \<open>sys_mknod\<close>.\<close>

definition create_done :: "nat option \<Rightarrow> 'a sysst_scheme \<Rightarrow> ('a sysst_scheme, int) res" where
  "create_done ip s =
     (case ip of
        None \<Rightarrow> bindR (end_op s) (\<lambda>_ s. Ret (-1) s)
      | Some ip \<Rightarrow> bindR (iunlockput ip s) (\<lambda>_ s. bindR (end_op s) (\<lambda>_ s. Ret 0 s)))"

definition sys_mkdir :: "'a sysst_scheme \<Rightarrow> ('a sysst_scheme, int) res" where
  "sys_mkdir s =
     bindR (begin_op s) (\<lambda>_ s.
     bindR (argstr 0 s) (\<lambda>path s. case path of
       None \<Rightarrow> create_done None s
     | Some path \<Rightarrow> bindR (create path T_DIR 0 0 s) (\<lambda>ip s. create_done ip s)))"

definition sys_mknod :: "'a sysst_scheme \<Rightarrow> ('a sysst_scheme, int) res" where
  "sys_mknod s =
     bindR (begin_op s) (\<lambda>_ s.
     bindR (argstr 0 s) (\<lambda>path s. case path of None \<Rightarrow> create_done None s | Some path \<Rightarrow>
     bindR (argint 1 s) (\<lambda>major s. case major of None \<Rightarrow> create_done None s | Some major \<Rightarrow>
     bindR (argint 2 s) (\<lambda>minor s. case minor of None \<Rightarrow> create_done None s | Some minor \<Rightarrow>
     bindR (create path T_DEV (ucast major) (ucast minor) s) (\<lambda>ip s. create_done ip s)))))"

definition sys_chdir :: "'a sysst_scheme \<Rightarrow> ('a sysst_scheme, int) res" where
  "sys_chdir s =
     bindR (begin_op s) (\<lambda>_ s.
     bindR (argstr 0 s) (\<lambda>path s.
     bindR (case path of None \<Rightarrow> Ret None s | Some path \<Rightarrow> namei path s) (\<lambda>ip s. case ip of
       None \<Rightarrow> bindR (end_op s) (\<lambda>_ s. Ret (-1) s)
     | Some ip \<Rightarrow>
         bindR (ilock ip s) (\<lambda>_ s.
         if i_type (icache s ! ip) \<noteq> T_DIR then
           bindR (iunlockput ip s) (\<lambda>_ s. bindR (end_op s) (\<lambda>_ s. Ret (-1) s))
         else
           bindR (iunlock ip s) (\<lambda>_ s.
           with_cur s (\<lambda>i.
           bindR (case cwd (ptable s ! i) of None \<Rightarrow> Fault ''iput'' | Some d \<Rightarrow> iput d s) (\<lambda>_ s.
           bindR (end_op s) (\<lambda>_ s.
           Ret 0 (upd_proc i (\<lambda>x. x\<lparr>cwd := Some ip\<rparr>) s)))))))))"

primrec exec_argv :: "nat \<Rightarrow> u32 \<Rightarrow> u8 list list \<Rightarrow> 'a sysst_scheme \<Rightarrow> ('a sysst_scheme, u8 list list option) res" where
  "exec_argv 0 uargv acc s = Ret None s"
| "exec_argv (Suc k) uargv acc s =
     bindR (fetchint uargv s) (\<lambda>uarg s. case uarg of
       None \<Rightarrow> Ret None s
     | Some uarg \<Rightarrow>
         if uarg = 0 then Ret (Some acc) s
         else
           bindR (fetchstr uarg s) (\<lambda>a s. case a of
             None \<Rightarrow> Ret None s
           | Some a \<Rightarrow> exec_argv k (uargv + 4) (acc @ [a]) s))"

definition sys_exec :: "'a sysst_scheme \<Rightarrow> ('a sysst_scheme, int) res" where
  "sys_exec s =
     bindR (argstr 0 s) (\<lambda>path s. case path of None \<Rightarrow> Ret (-1) s | Some path \<Rightarrow>
     bindR (argint 1 s) (\<lambda>uargv s. case uargv of None \<Rightarrow> Ret (-1) s | Some uargv \<Rightarrow>
     bindR (exec_argv MAXARG uargv [] s) (\<lambda>argv s. case argv of
       None \<Rightarrow> Ret (-1) s
     | Some argv \<Rightarrow> exec path argv s)))"

definition sys_pipe :: "'a sysst_scheme \<Rightarrow> ('a sysst_scheme, int) res" where
  "sys_pipe s =
     bindR (argptr 0 8 s) (\<lambda>fd s. case fd of None \<Rightarrow> Ret (-1) s | Some fd \<Rightarrow>
     bindR (pipealloc s) (\<lambda>r s. case r of None \<Rightarrow> Ret (-1) s | Some (rfl, wfl) \<Rightarrow>
     bindR (fdalloc rfl s) (\<lambda>fd0 s.
     bindR (case fd0 of None \<Rightarrow> Ret None s | Some _ \<Rightarrow> fdalloc wfl s) (\<lambda>fd1 s.
     case (fd0, fd1) of
       (Some fd0, Some fd1) \<Rightarrow>
         bindR (set_word fd (of_nat fd0) s) (\<lambda>_ s.
         bindR (set_word (fd + 4) (of_nat fd1) s) (\<lambda>_ s.
         Ret 0 s))
     | _ \<Rightarrow>
         with_cur s (\<lambda>i.
         let s = (case fd0 of None \<Rightarrow> s
                  | Some fd0 \<Rightarrow> upd_proc i (\<lambda>x. x\<lparr>ofile := (ofile x)[fd0 := W 0]\<rparr>) s) in
         bindR (fileclose rfl s) (\<lambda>_ s.
         bindR (fileclose wfl s) (\<lambda>_ s.
         Ret (-1) s)))))))"

end
