(* ===== verification/Trap.thy ===== *)
theory Trap
  imports Sysfile
begin

text \<open>
  The remaining system calls (\<^verbatim>\<open>sysproc.c\<close>), their dispatch (\<^verbatim>\<open>syscall.c\<close>, \<^verbatim>\<open>syscall.h\<close>) and
  the trap handler (\<^verbatim>\<open>trap.c\<close>, \<^verbatim>\<open>traps.h\<close>). Messages on the console and the acknowledgement of
  an interrupt at the local APIC are left out.
\<close>

section \<open>System calls on processes\<close>

definition sys_fork :: "'a sysst_scheme \<Rightarrow> ('a sysst_scheme, int) res" where
  "sys_fork s = fork s"

definition sys_exit :: "'a sysst_scheme \<Rightarrow> ('a sysst_scheme, int) res" where
  "sys_exit s = bindR (exit_proc s) (\<lambda>_ s. Ret 0 s)"

definition sys_wait :: "'a sysst_scheme \<Rightarrow> ('a sysst_scheme, int) res" where
  "sys_wait s = wait_child s"

definition sys_kill :: "'a sysst_scheme \<Rightarrow> ('a sysst_scheme, int) res" where
  "sys_kill s =
     bindR (argint 0 s) (\<lambda>n s. case n of None \<Rightarrow> Ret (-1) s | Some n \<Rightarrow> kill n s)"

definition sys_getpid :: "'a sysst_scheme \<Rightarrow> ('a sysst_scheme, int) res" where
  "sys_getpid s = with_cur s (\<lambda>i. Ret (sint (pid (ptable s ! i))) s)"

definition sys_sbrk :: "'a sysst_scheme \<Rightarrow> ('a sysst_scheme, int) res" where
  "sys_sbrk s =
     bindR (argint 0 s) (\<lambda>n s. case n of None \<Rightarrow> Ret (-1) s | Some n \<Rightarrow>
     with_cur s (\<lambda>i.
     let addr = sint (sz (ptable s ! i)) in
     bindR (growproc (sint n) s) (\<lambda>r s.
     Ret (if r < 0 then -1 else addr) s)))"

text \<open>
  The loop of \<open>sys_sleep\<close>: \<open>ticks0\<close> is the time at which the call began, and the comparison
  is one of unsigned numbers.
\<close>

definition sys_sleep_loop :: "u32 \<Rightarrow> u32 \<Rightarrow> 'a sysst_scheme \<Rightarrow> ('a sysst_scheme, int) res" where
  "sys_sleep_loop ticks0 n s =
     (if ticks s - ticks0 < n then
        with_cur s (\<lambda>i.
        if killed (ptable s ! i) then bindR (release L_tickslock s) (\<lambda>_ s. Ret (-1) s)
        else bindR (sleep Ch_ticks L_tickslock s) (\<lambda>_ s. NoFuel))
      else bindR (release L_tickslock s) (\<lambda>_ s. Ret 0 s))"

definition sys_sleep :: "'a sysst_scheme \<Rightarrow> ('a sysst_scheme, int) res" where
  "sys_sleep s =
     bindR (argint 0 s) (\<lambda>n s. case n of None \<Rightarrow> Ret (-1) s | Some n \<Rightarrow>
     bindR (acquire L_tickslock s) (\<lambda>_ s.
     sys_sleep_loop (ticks s) n s))"

definition sys_uptime :: "'a sysst_scheme \<Rightarrow> ('a sysst_scheme, int) res" where
  "sys_uptime s =
     bindR (acquire L_tickslock s) (\<lambda>_ s.
     let xticks = ticks s in
     bindR (release L_tickslock s) (\<lambda>_ s.
     Ret (sint xticks) s))"

definition sys_mprotect :: "'a sysst_scheme \<Rightarrow> ('a sysst_scheme, int) res" where
  "sys_mprotect s =
     bindR (argint 0 s) (\<lambda>addr s. case addr of None \<Rightarrow> Ret (-1) s | Some addr \<Rightarrow>
     bindR (argint 1 s) (\<lambda>len s. case len of None \<Rightarrow> Ret (-1) s | Some len \<Rightarrow>
     bindR (argint 2 s) (\<lambda>prot s. case prot of None \<Rightarrow> Ret (-1) s | Some prot \<Rightarrow>
     mprotect addr len prot s)))"

definition sys_signal_register :: "'a sysst_scheme \<Rightarrow> ('a sysst_scheme, int) res" where
  "sys_signal_register s =
     bindR (argint 0 s) (\<lambda>n s. case n of None \<Rightarrow> Ret (-1) s | Some signum \<Rightarrow>
     bindR (argint 1 s) (\<lambda>n s. case n of None \<Rightarrow> Ret (-1) s | Some handler \<Rightarrow>
     bindR (signal_register_handler (unat signum) (W handler) s) (\<lambda>h s.
     Ret (sint (kword_addr h s)) s)))"

definition sys_cowfork :: "'a sysst_scheme \<Rightarrow> ('a sysst_scheme, int) res" where
  "sys_cowfork s = cowfork s"

definition sys_signal_restorer :: "'a sysst_scheme \<Rightarrow> ('a sysst_scheme, int) res" where
  "sys_signal_restorer s =
     bindR (argint 0 s) (\<lambda>n s. case n of None \<Rightarrow> Ret (-1) s | Some a \<Rightarrow>
     with_cur s (\<lambda>i. Ret 0 (upd_proc i (\<lambda>x. x\<lparr>restorer_addr := a\<rparr>) s)))"

section \<open>Dispatch\<close>

text \<open>
  The table \<open>syscalls\<close>. \<open>sys_halt\<close> writes to a port on which the emulator stops; on its own it
  changes nothing and returns 0.
\<close>

definition syscall_table :: "int \<Rightarrow> ('a sysst_scheme \<Rightarrow> ('a sysst_scheme, int) res) option" where
  "syscall_table num =
     (if num = 1 then Some sys_fork
      else if num = 2 then Some sys_exit
      else if num = 3 then Some sys_wait
      else if num = 4 then Some sys_pipe
      else if num = 5 then Some sys_read
      else if num = 6 then Some sys_kill
      else if num = 7 then Some sys_exec
      else if num = 8 then Some sys_fstat
      else if num = 9 then Some sys_chdir
      else if num = 10 then Some sys_dup
      else if num = 11 then Some sys_getpid
      else if num = 12 then Some sys_sbrk
      else if num = 13 then Some sys_sleep
      else if num = 14 then Some sys_uptime
      else if num = 15 then Some sys_open
      else if num = 16 then Some sys_write
      else if num = 17 then Some sys_mknod
      else if num = 18 then Some sys_unlink
      else if num = 19 then Some sys_link
      else if num = 20 then Some sys_mkdir
      else if num = 21 then Some sys_close
      else if num = 22 then Some (\<lambda>s. Ret 0 s)
      else if num = 23 then Some sys_signal_register
      else if num = 24 then Some sys_signal_restorer
      else if num = 25 then Some sys_mprotect
      else if num = 26 then Some sys_cowfork
      else None)"

definition set_eax :: "int \<Rightarrow> 'a pst_scheme \<Rightarrow> ('a pst_scheme, unit) res" where
  "set_eax r s =
     with_cur s (\<lambda>i. Ret () (upd_proc i (\<lambda>x. x\<lparr>tf := (tf x)\<lparr>tf_eax := word_of_int r\<rparr>\<rparr>) s))"

definition syscall :: "'a sysst_scheme \<Rightarrow> ('a sysst_scheme, unit) res" where
  "syscall s =
     with_cur s (\<lambda>i.
     case syscall_table (sint (tf_eax (tf (ptable s ! i)))) of
       Some f \<Rightarrow> bindR (f s) (\<lambda>r s. set_eax r s)
     | None \<Rightarrow> set_eax (-1) s)"

section \<open>Traps\<close>

abbreviation (input) T_DIVIDE :: u32 where "T_DIVIDE \<equiv> 0"
abbreviation (input) T_PGFLT :: u32 where "T_PGFLT \<equiv> 14"
abbreviation (input) T_IRQ0 :: u32 where "T_IRQ0 \<equiv> 32"
abbreviation (input) T_SYSCALL :: u32 where "T_SYSCALL \<equiv> 64"

definition user_frame :: "trapframe \<Rightarrow> bool" where
  "user_frame t \<longleftrightarrow> tf_cs t AND 3 = 3"

definition cur_killed :: "'a pst_scheme \<Rightarrow> bool" where
  "cur_killed s = (case cur s of None \<Rightarrow> False | Some i \<Rightarrow> killed (ptable s ! i))"

definition timer_tick :: "'a sysst_scheme \<Rightarrow> ('a sysst_scheme, unit) res" where
  "timer_tick s =
     (if cpu_id s = 0 then
        bindR (acquire L_tickslock s) (\<lambda>_ s.
        let s = s\<lparr>ticks := ticks s + 1\<rparr> in
        bindR (wakeup Ch_ticks s) (\<lambda>_ s.
        release L_tickslock s))
      else Ret () s)"

text \<open>The protection level that the handler of a page fault is told.\<close>

definition fault_type :: "u32 \<Rightarrow> u32" where
  "fault_type err =
     (if err = 4 \<or> err = 6 \<or> err = 5 then PROT_NONE else if err = 7 then PROT_READ else PROT_WRITE)"

definition page_fault :: "trapframe \<Rightarrow> 'a sysst_scheme \<Rightarrow> ('a sysst_scheme, unit) res" where
  "page_fault t s =
     with_cur s (\<lambda>i.
     if shared (ptable s ! i) then handle_cow_fault (cr2 s) s
     else
       bindR (get_handler i SIGSEGV s) (\<lambda>h s.
       if h \<noteq> W 0xFFFFFFFF
       then signal_deliver SIGSEGV \<lparr>si_addr = cr2 s, si_type = fault_type (tf_err t)\<rparr> s
       else Ret () s))"

text \<open>Without a handler for \<open>SIGFPE\<close> the case of a division falls through to that of a page fault.\<close>

definition divide_error :: "trapframe \<Rightarrow> 'a sysst_scheme \<Rightarrow> ('a sysst_scheme, unit) res" where
  "divide_error t s =
     with_cur s (\<lambda>i.
     bindR (get_handler i SIGFPE s) (\<lambda>h s.
     if h \<noteq> W 0xFFFFFFFF then signal_deliver SIGFPE \<lparr>si_addr = 5, si_type = 1\<rparr> s
     else page_fault t s))"

text \<open>The cases of the switch; \<open>ideintr\<close> of the memory disk does nothing.\<close>

definition trap_switch :: "trapframe \<Rightarrow> 'a sysst_scheme \<Rightarrow> ('a sysst_scheme, unit) res" where
  "trap_switch t s =
     (let no = tf_trapno t in
      if no = T_IRQ0 then timer_tick s
      else if no = T_IRQ0 + 14 \<or> no = T_IRQ0 + 15 then Ret () s
      else if no = T_IRQ0 + 1 then kbdintr s
      else if no = T_IRQ0 + 4 then uartintr s
      else if no = T_IRQ0 + 7 \<or> no = T_IRQ0 + 31 then Ret () s
      else if no = T_DIVIDE then divide_error t s
      else if no = T_PGFLT then page_fault t s
      else if cur s = None \<or> tf_cs t AND 3 = 0 then Panic ''trap''
      else with_cur s (\<lambda>i. Ret () (upd_proc i (\<lambda>x. x\<lparr>killed := True\<rparr>) s)))"

text \<open>What the handler does after the process has given up the processor, or did not have to.\<close>

definition trap_end :: "trapframe \<Rightarrow> 'a sysst_scheme \<Rightarrow> ('a sysst_scheme, unit) res" where
  "trap_end t s = (if cur_killed s \<and> user_frame t then exit_proc s else Ret () s)"

text \<open>
  A trap from user mode finds its frame where \<open>proc->tf\<close> points, at the top of the kernel
  stack.
\<close>

definition trap :: "trapframe \<Rightarrow> 'a sysst_scheme \<Rightarrow> ('a sysst_scheme, unit) res" where
  "trap t s =
     (let s = (case cur s of Some i \<Rightarrow> if user_frame t then upd_proc i (\<lambda>x. x\<lparr>tf := t\<rparr>) s else s | None \<Rightarrow> s) in
      if tf_trapno t = T_SYSCALL then
        bindR (if cur_killed s then exit_proc s else Ret () s) (\<lambda>_ s.
        with_cur s (\<lambda>i.
        let s = upd_proc i (\<lambda>x. x\<lparr>tf := t\<rparr>) s in
        bindR (syscall s) (\<lambda>_ s.
        if cur_killed s then exit_proc s else Ret () s)))
      else
        bindR (trap_switch t s) (\<lambda>_ s.
        bindR (if cur_killed s \<and> user_frame t then exit_proc s else Ret () s) (\<lambda>_ s.
        bindR (case cur s of
                 None \<Rightarrow> Ret () s
               | Some i \<Rightarrow>
                   if state (ptable s ! i) = RUNNING \<and> tf_trapno t = T_IRQ0 then yield_cpu s else Ret () s) (\<lambda>_ s.
        trap_end t s))))"

end
