(* ===== verification/Log_Crash.thy ===== *)
theory Log_Crash
  imports Log
begin

text \<open>
  What the log guarantees. A commit writes the blocks of a transaction to the log, then the
  header, then the blocks to their places, then an empty header; after a crash between any two
  of these writes, recovery leaves on the disk either all blocks of the transaction or none.
\<close>

section \<open>Writes to the disk\<close>

definition apply_writes :: "(u32 \<times> u8 list) list \<Rightarrow> (u32 \<Rightarrow> u8 list) \<Rightarrow> u32 \<Rightarrow> u8 list" where
  "apply_writes ws f = foldl (\<lambda>f (a, d). f(a := d)) f ws"

lemma apply_writes_simps [simp]:
  "apply_writes [] f = f" "apply_writes ((a, d) # ws) f = apply_writes ws (f(a := d))"
  "apply_writes (vs @ ws) f = apply_writes ws (apply_writes vs f)"
  by (simp_all add: apply_writes_def)

lemma apply_writes_other: "a \<notin> fst ` set ws \<Longrightarrow> apply_writes ws f a = f a"
  by (induction ws arbitrary: f) auto

lemma apply_writes_map:
  assumes "distinct (map g xs)" "x \<in> set xs"
  shows "apply_writes (map (\<lambda>i. (g i, h i)) xs) f (g x) = h x"
  using assms
proof (induction xs arbitrary: f)
  case (Cons y xs)
  show ?case
  proof (cases "x \<in> set xs")
    case True
    then show ?thesis using Cons by simp
  next
    case False
    then have "x = y" "g y \<notin> fst ` set (map (\<lambda>i. (g i, h i)) xs)" using Cons.prems by (auto simp: image_image)
    then show ?thesis by (simp add: apply_writes_other)
  qed
qed simp

text \<open>The effect on the view of blocks that are written through the cache.\<close>

definition v_writes :: "(u32 \<times> u8 list) list \<Rightarrow> bview \<Rightarrow> bview" where
  "v_writes ws v = v\<lparr>v_block := apply_writes ws (v_block v), v_disk := apply_writes ws (v_disk v),
     v_trace := v_trace v @ ws, v_dirty := v_dirty v - fst ` set ws\<rparr>"

lemma v_writes_Nil [simp]: "v_writes [] v = v"
  by (simp add: v_writes_def)

lemma v_writes_append: "v_writes (ws @ vs) v = v_writes vs (v_writes ws v)"
  by (simp add: v_writes_def image_Un Diff_Un Un_Diff Diff_Int_distrib Diff_eq Int_assoc)

lemma v_writes_upt:
  "i < n \<Longrightarrow> v_writes (map f [i..<n]) v = v_writes (map f [Suc i..<n]) (v_writes [f i] v)"
  using v_writes_append [of "[f i]" "map f [Suc i..<n]" v] upt_conv_Cons [of i n] by simp

lemma v_writes_busy [simp]: "v_busy (v_writes ws v) = v_busy v"
  by (simp add: v_writes_def)

text \<open>Reading two blocks, copying one to the other, writing that and releasing both.\<close>

lemma v_copy_writes:
  "v_busy v = {} \<Longrightarrow> v_copy a c (v_read c (v_read a v)) = v_writes [(c, v_block v a)] v"
  "v_busy v = {} \<Longrightarrow> v_copy a c (v_read a (v_read c v)) = v_writes [(c, v_block v a)] v"
  by (cases v; auto simp: v_copy_def v_read_def v_writes_def v_release_def v_write_def v_modify_def)+

lemma bframe_log:
  assumes "bframe s (t :: 'a logst_scheme)"
  shows "log_start t = log_start s" "log_size t = log_size s" "log_dev t = log_dev s"
    "lh_n t = lh_n s" "lh_sector t = lh_sector s" "outstanding t = outstanding s"
    "committing t = committing s" "disksize t = disksize s"
proof -
  have e: "t = s\<lparr>bufs := bufs t, disk := disk t, wtrace := wtrace t, ptable := ptable t\<rparr>"
    using assms by (simp add: bframe_def)
  show "log_start t = log_start s" "log_size t = log_size s" "log_dev t = log_dev s"
    "lh_n t = lh_n s" "lh_sector t = lh_sector s" "outstanding t = outstanding s"
    "committing t = committing s" "disksize t = disksize s" by (subst e, simp)+
qed

lemma card_pinned:
  "v_busy v = {} \<Longrightarrow> pinned v = v_dirty v" "v_busy v = {a} \<Longrightarrow> card (pinned v) \<le> Suc (card (v_dirty v))"
  by (simp_all add: pinned_def card_insert_le_m1 card_insert_if)

text \<open>The two reads at the start of a round, in the order of addresses \<open>a\<close>, \<open>c\<close>.\<close>

lemma two_reads:
  assumes "bio_ok s" "v_busy (view_of s) = {}" "a < disksize s" "c < disksize s" "a \<noteq> c"
    and "card (v_dirty (view_of s)) < 30"
    and "c \<in> v_dirty (view_of s) \<or> card (v_dirty (view_of s)) < 29"
  obtains x y t u where "bread ROOTDEV a s = Ret x t" "bread ROOTDEV c t = Ret y u" "bio_ok u"
    "bframe s u" "bframe s t" "holds u x a" "holds u y c" "x \<noteq> y" "view_of u = v_read c (v_read a (view_of s))"
proof -
  have "card (pinned (view_of s)) < 30" using assms(2,6) by (simp add: card_pinned)
  then obtain x t where t: "bread ROOTDEV a s = Ret x t" "bio_ok t" "view_of t = v_read a (view_of s)"
      "bframe s t" "holds t x a"
    using bio.rd_law [OF assms(1,3)] assms(2) by auto
  have v: "v_busy (view_of t) = {a}" "v_dirty (view_of t) = v_dirty (view_of s)"
    using assms(2) t(3) by (simp_all add: v_read_def)
  then have "c \<in> v_dirty (view_of t) \<or> card (pinned (view_of t)) < 30"
    using assms(7) card_pinned(2) [of "view_of t" a] by auto
  moreover have "c < disksize t" "c \<notin> v_busy (view_of t)" using assms(4,5) v bframeD(2) [OF t(4)] by simp_all
  ultimately obtain y u where u: "bread ROOTDEV c t = Ret y u" "bio_ok u" "view_of u = v_read c (view_of t)"
      "bframe t u" "holds u y c" "\<forall>i sc. holds t i sc \<longrightarrow> i \<noteq> y \<and> holds u i sc"
    using bio.rd_law [OF t(2), of c] by blast
  show ?thesis
    by (rule that [OF t(1) u(1,2) bframe_trans [OF t(4) u(4)] t(4)]) (use t u in auto)
qed

section \<open>The loops of the log\<close>

abbreviation log_block :: "'a logst_scheme \<Rightarrow> nat \<Rightarrow> u32" where
  "log_block s i \<equiv> log_start s + of_nat i + 1"

abbreviation home :: "'a logst_scheme \<Rightarrow> nat \<Rightarrow> u32" where
  "home s i \<equiv> lh_sector s ! i"

text \<open>
  Where the blocks of a log with header at \<open>start\<close> and their places \<open>xs\<close> are: on the disk, no
  place in the log, and no block twice.
\<close>

definition layout :: "u32 \<Rightarrow> u32 \<Rightarrow> u32 list \<Rightarrow> bool" where
  "layout start nsec xs \<longleftrightarrow> start < nsec
     \<and> (\<forall>i<length xs. start + of_nat i + 1 < nsec \<and> xs ! i < nsec)
     \<and> (\<forall>i<length xs. \<forall>j<length xs. xs ! i \<noteq> start + of_nat j + 1)
     \<and> (\<forall>i<length xs. xs ! i \<noteq> start \<and> start + of_nat i + 1 \<noteq> start)
     \<and> distinct xs \<and> distinct (map (\<lambda>i. start + of_nat i + 1) [0..<length xs])"

definition log_layout :: "nat \<Rightarrow> 'a logst_scheme \<Rightarrow> bool" where
  "log_layout n s \<longleftrightarrow> log_dev s = ROOTDEV \<and> n \<le> length (lh_sector s)
     \<and> layout (log_start s) (disksize s) (take n (lh_sector s))"

lemma log_layout_frame: "bframe s t \<Longrightarrow> log_layout n t = log_layout n s"
  by (simp add: log_layout_def bframe_log)

lemma log_layoutD:
  assumes "log_layout n s" "i < n"
  shows "log_block s i < disksize s" "home s i < disksize s" "home s i \<noteq> log_start s"
    "log_block s i \<noteq> log_start s" "j < n \<Longrightarrow> home s i \<noteq> log_block s j" "j < n \<Longrightarrow> log_block s j \<noteq> home s i"
    "j < n \<Longrightarrow> i \<noteq> j \<Longrightarrow> home s j \<noteq> home s i" "log_dev s = ROOTDEV"
proof -
  show "j < n \<Longrightarrow> i \<noteq> j \<Longrightarrow> home s j \<noteq> home s i"
    using assms by (auto simp: log_layout_def layout_def distinct_conv_nth)
  show e: "j < n \<Longrightarrow> home s i \<noteq> log_block s j" using assms by (simp add: log_layout_def layout_def)
  show "j < n \<Longrightarrow> log_block s j \<noteq> home s i" using e by metis
qed (use assms in \<open>simp_all add: log_layout_def layout_def\<close>)

lemma dirty_le: "card (v_dirty (v_writes ws v)) \<le> card (v_dirty v)"
  by (auto simp: v_writes_def intro!: card_mono)

lemma write_log_round:
  assumes "bio_ok s" "v_busy (view_of s) = {}" "log_layout n s" "tail < n"
    and "home s tail \<in> v_dirty (view_of s)" "card (v_dirty (view_of s)) < 30"
  obtains t where "write_log_loop (Suc k) tail s = write_log_loop k (Suc tail) t" "bio_ok t" "bframe s t"
    "view_of t = v_writes [(log_block s tail, v_block (view_of s) (home s tail))] (view_of s)"
proof -
  note l = log_layoutD [OF assms(3,4)]
  obtain x y t u where r: "bread ROOTDEV (log_block s tail) s = Ret x t" "bread ROOTDEV (home s tail) t = Ret y u"
      "bio_ok u" "bframe s u" "bframe s t" "holds u x (log_block s tail)" "holds u y (home s tail)" "x \<noteq> y"
      "view_of u = v_read (home s tail) (v_read (log_block s tail) (view_of s))"
    by (rule two_reads [OF assms(1,2) l(1,2) l(6) [OF assms(4)] assms(6)]) (use assms(5) in auto)
  have d: "home s tail \<in> v_dirty (view_of u)" using assms(5) r(9) by (simp add: v_read_def)
  have "log_block s tail < disksize u" using l(1) bframeD(2) [OF r(4)] by simp
  then obtain w where w: "bindR (bwrite x (put_data x (b_data (bufs u ! y)) u))
       (\<lambda>_ s. bindR (brelse y s) (\<lambda>_ s. brelse x s)) = Ret () w" "bio_ok w" "bframe u w"
      "view_of w = v_copy (home s tail) (log_block s tail) (view_of u)"
    using bio.copy_tail_law [OF r(3,7,6) _ l(5) [OF assms(4)], of] r(8) d by auto
  show ?thesis
  proof (rule that [of w])
    have "write_log_loop (Suc k) tail s = bindR (bindR (bwrite x (put_data x (b_data (bufs u ! y)) u))
       (\<lambda>_ s. bindR (brelse y s) (\<lambda>_ s. brelse x s))) (\<lambda>_. write_log_loop k (Suc tail))"
      using r(1,2) l(8) bframe_log(3,5) [OF r(5)] by (simp add: bindR_assoc)
    then show "write_log_loop (Suc k) tail s = write_log_loop k (Suc tail) w" by (simp add: w(1))
    show "view_of w = v_writes [(log_block s tail, v_block (view_of s) (home s tail))] (view_of s)"
      using w(4) r(9) v_copy_writes(2) [OF assms(2)] by simp
  qed (use w(2) bframe_trans [OF r(4) w(3)] in auto)
qed

lemma write_log_loop_writes:
  assumes "bio_ok s" "v_busy (view_of s) = {}" "log_layout n s" "tail + k = n"
    and "\<forall>i. tail \<le> i \<and> i < n \<longrightarrow> home s i \<in> v_dirty (view_of s)" "card (v_dirty (view_of s)) < 30"
  shows "\<exists>t. write_log_loop k tail s = Ret () t \<and> bio_ok t \<and> bframe s t \<and>
    view_of t = v_writes (map (\<lambda>i. (log_block s i, v_block (view_of s) (home s i))) [tail..<n]) (view_of s)"
  using assms
proof (induction k arbitrary: tail s)
  case 0
  then show ?case by simp
next
  case (Suc k)
  let ?v = "view_of s"
  have tn: "tail < n" using Suc.prems(4) by simp
  obtain t where t: "write_log_loop (Suc k) tail s = write_log_loop k (Suc tail) t" "bio_ok t" "bframe s t"
      "view_of t = v_writes [(log_block s tail, v_block ?v (home s tail))] ?v"
    by (rule write_log_round [OF Suc.prems(1-3) tn]) (use Suc.prems(5,6) tn in auto)
  note f = bframe_log [OF t(3)]
  have "home t i \<in> v_dirty (view_of t)" if "Suc tail \<le> i \<and> i < n" for i
    using Suc.prems(5) that log_layoutD(6) [OF Suc.prems(3), of i tail] tn
    by (simp add: t(4) f v_writes_def)
  then obtain u where u: "write_log_loop k (Suc tail) t = Ret () u" "bio_ok u" "bframe t u"
      "view_of u = v_writes (map (\<lambda>i. (log_block t i, v_block (view_of t) (home t i))) [Suc tail..<n]) (view_of t)"
    using Suc.IH [of t "Suc tail"] t(2,4) Suc.prems(2,3,4,6) log_layout_frame [OF t(3)]
      dirty_le [of "[(log_block s tail, v_block ?v (home s tail))]" ?v] by auto
  have same: "v_block (view_of t) (home s i) = v_block ?v (home s i)" if "i < n" for i
    using log_layoutD(5) [OF Suc.prems(3) that tn] by (simp add: t(4) v_writes_def)
  have m: "map (\<lambda>i. (log_block t i, v_block (view_of t) (home t i))) [Suc tail..<n]
      = map (\<lambda>i. (log_block s i, v_block ?v (home s i))) [Suc tail..<n]"
    using same f by simp
  then have "view_of u = v_writes (map (\<lambda>i. (log_block s i, v_block ?v (home s i))) [tail..<n]) ?v"
    by (subst u(4), subst m, subst t(4)) (rule v_writes_upt [OF tn, symmetric])
  then show ?case using t(1) u bframe_trans [OF t(3) u(3)] by auto
qed

lemma install_round:
  assumes "bio_ok s" "v_busy (view_of s) = {}" "log_layout n s" "tail < n"
    and "home s tail \<in> v_dirty (view_of s) \<or> card (v_dirty (view_of s)) < 29"
    and "card (v_dirty (view_of s)) < 30"
    and "v_block (view_of s) (log_block s tail) = v_disk (view_of s) (log_block s tail)"
  obtains t where "install_loop (Suc k) tail s = install_loop k (Suc tail) t" "bio_ok t" "bframe s t"
    "view_of t = v_writes [(home s tail, v_block (view_of s) (log_block s tail))] (view_of s)"
proof -
  note l = log_layoutD [OF assms(3,4)]
  obtain x y t u where r: "bread ROOTDEV (log_block s tail) s = Ret x t" "bread ROOTDEV (home s tail) t = Ret y u"
      "bio_ok u" "bframe s u" "bframe s t" "holds u x (log_block s tail)" "holds u y (home s tail)" "x \<noteq> y"
      "view_of u = v_read (home s tail) (v_read (log_block s tail) (view_of s))"
    by (rule two_reads [OF assms(1,2) l(1,2) l(6) [OF assms(4)] assms(6,5)])
  have "v_block (view_of u) (log_block s tail) = v_disk (view_of u) (log_block s tail)"
    using assms(7) r(9) by (simp add: v_read_def)
  moreover have "home s tail < disksize u" using l(2) bframeD(2) [OF r(4)] by simp
  ultimately obtain w where w: "bindR (bwrite y (put_data y (b_data (bufs u ! x)) u))
       (\<lambda>_ s. bindR (brelse x s) (\<lambda>_ s. brelse y s)) = Ret () w" "bio_ok w" "bframe u w"
      "view_of w = v_copy (log_block s tail) (home s tail) (view_of u)"
    using bio.copy_tail_law [OF r(3,6,7,8) l(6) [OF assms(4)]] by auto
  show ?thesis
  proof (rule that [of w])
    have "install_loop (Suc k) tail s = bindR (bindR (bwrite y (put_data y (b_data (bufs u ! x)) u))
       (\<lambda>_ s. bindR (brelse x s) (\<lambda>_ s. brelse y s))) (\<lambda>_. install_loop k (Suc tail))"
      using r(1,2) l(8) bframe_log(3,5) [OF r(5)] by (simp add: bindR_assoc)
    then show "install_loop (Suc k) tail s = install_loop k (Suc tail) w" by (simp add: w(1))
    show "view_of w = v_writes [(home s tail, v_block (view_of s) (log_block s tail))] (view_of s)"
      using w(4) r(9) v_copy_writes(1) [OF assms(2)] by simp
  qed (use w(2) bframe_trans [OF r(4) w(3)] in auto)
qed

lemma install_loop_writes:
  assumes "bio_ok s" "v_busy (view_of s) = {}" "log_layout n s" "tail + k = n"
    and "(\<forall>i. tail \<le> i \<and> i < n \<longrightarrow> home s i \<in> v_dirty (view_of s)) \<or> card (v_dirty (view_of s)) < 29"
    and "card (v_dirty (view_of s)) < 30"
    and "\<forall>i<n. v_block (view_of s) (log_block s i) = v_disk (view_of s) (log_block s i)"
  shows "\<exists>t. install_loop k tail s = Ret () t \<and> bio_ok t \<and> bframe s t \<and>
    view_of t = v_writes (map (\<lambda>i. (home s i, v_block (view_of s) (log_block s i))) [tail..<n]) (view_of s)"
  using assms
proof (induction k arbitrary: tail s)
  case 0
  then show ?case by simp
next
  case (Suc k)
  let ?v = "view_of s"
  let ?w = "[(home s tail, v_block ?v (log_block s tail))]"
  have tn: "tail < n" using Suc.prems(4) by simp
  obtain t where t: "install_loop (Suc k) tail s = install_loop k (Suc tail) t" "bio_ok t" "bframe s t"
      "view_of t = v_writes ?w ?v"
    by (rule install_round [OF Suc.prems(1-3) tn _ Suc.prems(6)]) (use Suc.prems(5,7) tn in auto)
  note f = bframe_log [OF t(3)]
  have le: "card (v_dirty (view_of t)) \<le> card (v_dirty ?v)" using dirty_le [of ?w ?v] by (simp add: t(4))
  have d: "(\<forall>i. Suc tail \<le> i \<and> i < n \<longrightarrow> home t i \<in> v_dirty (view_of t)) \<or> card (v_dirty (view_of t)) < 29"
  proof (cases "card (v_dirty ?v) < 29")
    case True
    then show ?thesis using le by simp
  next
    case False
    have "home t i \<in> v_dirty (view_of t)" if "Suc tail \<le> i \<and> i < n" for i
      using Suc.prems(5) False that log_layoutD(7) [OF Suc.prems(3) tn, of i]
      by (simp add: t(4) f v_writes_def)
    then show ?thesis by blast
  qed
  have same: "v_block (view_of t) (log_block s i) = v_block ?v (log_block s i)"
    "v_disk (view_of t) (log_block s i) = v_disk ?v (log_block s i)" if "i < n" for i
    using log_layoutD(6) [OF Suc.prems(3) tn that] by (simp_all add: t(4) v_writes_def)
  have clean: "\<forall>i<n. v_block (view_of t) (log_block t i) = v_disk (view_of t) (log_block t i)"
    using same Suc.prems(7) f(1) by simp
  obtain u where u: "install_loop k (Suc tail) t = Ret () u" "bio_ok u" "bframe t u"
      "view_of u = v_writes (map (\<lambda>i. (home t i, v_block (view_of t) (log_block t i))) [Suc tail..<n]) (view_of t)"
    using Suc.IH [OF t(2) _ _ _ d _ clean] t(4) Suc.prems(2,3,4,6) log_layout_frame [OF t(3), of n] le by auto
  have m: "map (\<lambda>i. (home t i, v_block (view_of t) (log_block t i))) [Suc tail..<n]
      = map (\<lambda>i. (home s i, v_block ?v (log_block s i))) [Suc tail..<n]"
    using same(1) f by simp
  then have "view_of u = v_writes (map (\<lambda>i. (home s i, v_block ?v (log_block s i))) [tail..<n]) ?v"
    by (subst u(4), subst m, subst t(4)) (rule v_writes_upt [OF tn, symmetric])
  then show ?case using t(1) u bframe_trans [OF t(3) u(3)] by auto
qed

section \<open>The header\<close>

definition header :: "u8 list \<Rightarrow> u32 list \<Rightarrow> u8 list" where
  "header d xs = put_sectors (put32 d 0 (of_nat (length xs))) 0 xs"

lemma length_put_sectors [simp]: "length (put_sectors d i xs) = length d"
  by (induction xs arbitrary: d i) auto

lemma put_sectors_other: "j + 4 \<le> 4 + 4 * i \<Longrightarrow> get32 (put_sectors d i xs) j = get32 d j"
  by (induction xs arbitrary: d i) (auto simp: get32_put32_other)

lemma put_sectors_nth:
  "k < length xs \<Longrightarrow> 4 + 4 * (i + length xs) \<le> length d \<Longrightarrow> get32 (put_sectors d i xs) (4 + 4 * (i + k)) = xs ! k"
proof (induction xs arbitrary: d i k)
  case (Cons x xs)
  show ?case
  proof (cases k)
    case 0
    then show ?thesis using Cons.prems by (simp add: put_sectors_other)
  next
    case (Suc j)
    then show ?thesis using Cons.IH [of j "Suc i" "put32 d (4 + 4 * i) x"] Cons.prems by simp
  qed
qed simp

lemma header_read:
  assumes "length d = 512" "length xs \<le> 30"
  shows "length (header d xs) = 512" "get32 (header d xs) 0 = of_nat (length xs)"
    "k < length xs \<Longrightarrow> get32 (header d xs) (4 + 4 * k) = xs ! k"
  using assms put_sectors_nth [of k xs 0 "put32 d 0 (of_nat (length xs))"]
  by (simp_all add: header_def put_sectors_other)

lemma v_write_head:
  "v_busy v = {} \<Longrightarrow> v_release a (v_write a (v_modify a d (v_read a v))) = v_writes [(a, d)] v"
  by (cases v) (simp add: v_read_def v_writes_def v_release_def v_write_def v_modify_def)

lemma write_head_writes:
  assumes "bio_ok s" "v_busy (view_of s) = {}" "log_dev s = ROOTDEV" "log_start s < disksize s"
    and "card (v_dirty (view_of s)) < 30" "lh_n s = int n" "n \<le> length (lh_sector s)"
  shows "\<exists>t. write_head s = Ret () t \<and> bio_ok t \<and> bframe s t \<and>
    view_of t = v_writes [(log_start s, header (v_block (view_of s) (log_start s)) (take n (lh_sector s)))] (view_of s)"
proof -
  let ?a = "log_start s"
  have "card (pinned (view_of s)) < 30" using assms(2,5) by (simp add: card_pinned)
  then obtain b t where t: "bread ROOTDEV ?a s = Ret b t" "bio_ok t" "view_of t = v_read ?a (view_of s)"
      "bframe s t" "holds t b ?a"
    using bio.rd_law [OF assms(1,4)] assms(2) by auto
  note f = bframe_log [OF t(4)]
  have g: "b_data (bufs t ! b) = v_block (view_of s) ?a"
    using bio.get_law [OF t(2,5)] t(3) by (simp add: v_read_def)
  let ?h = "header (v_block (view_of s) ?a) (take n (lh_sector s))"
  have len: "length ?h = 512"
    using bio.block_length [OF t(2,5)] t(3) by (simp add: header_def v_read_def)
  let ?u = "put_data b ?h t"
  note u = bio.put_law [OF t(2,5) len]
  have hu: "holds ?u b ?a" "?a < disksize ?u" using u t(5) assms(4) f bframeD(2) [of t ?u] by auto
  obtain w where w: "bwrite b ?u = Ret () w" "bio_ok w" "view_of w = v_write ?a (view_of ?u)" "bframe ?u w" "holds w b ?a"
    using bio.wr_law [OF _ hu] u hu by blast
  have "v_block (view_of w) ?a = v_disk (view_of w) ?a" by (simp add: w(3) v_write_def)
  then obtain x where x: "brelse b w = Ret () x" "bio_ok x" "view_of x = v_release ?a (view_of w)" "bframe w x"
    using bio.rel_law [OF w(2,5)] by blast
  have "write_head s = Ret () x"
    using t(1) assms(3,6,7) f g w(1) x(1) by (simp add: write_head_def header_def Let_def min_absorb2)
  moreover have "view_of x = v_writes [(?a, ?h)] (view_of s)"
    using v_write_head [OF assms(2)] by (simp add: x(3) w(3) u t(3))
  moreover have "bframe s x"
    using t(4) u w(4) x(4) bframe_trans by blast
  ultimately show ?thesis using x(2) by blast
qed

section \<open>Committing\<close>

lemma set_lh_n [simp]:
  "bio_ok (s\<lparr>lh_n := n\<rparr>) = bio_ok s" "view_of (s\<lparr>lh_n := n\<rparr>) = view_of s"
  by (simp_all add: bio_ok_def binv_def view_of_def)

lemma bframe_set_lh_n:
  assumes "bframe s t"
  shows "bframe (s\<lparr>lh_n := n\<rparr>) (t\<lparr>lh_n := n\<rparr>)"
proof -
  have "t = s\<lparr>bufs := bufs t, disk := disk t, wtrace := wtrace t, ptable := ptable t\<rparr>"
    using assms by (simp add: bframe_def)
  then obtain B D T P where t: "t = s\<lparr>bufs := B, disk := D, wtrace := T, ptable := P\<rparr>" by blast
  show ?thesis using assms unfolding t by (cases s) (simp add: bframe_def)
qed

text \<open>The writes of a commit: to the log, the header, to the places of the blocks, an empty header.\<close>

definition commit_writes :: "u32 \<Rightarrow> u32 list \<Rightarrow> (u32 \<Rightarrow> u8 list) \<Rightarrow> (u32 \<times> u8 list) list" where
  "commit_writes start xs b =
     map (\<lambda>i. (start + of_nat i + 1, b (xs ! i))) [0..<length xs]
     @ [(start, header (b start) xs)]
     @ map (\<lambda>x. (x, b x)) xs
     @ [(start, header (header (b start) xs) [])]"

lemma map_nth_take: "n \<le> length ys \<Longrightarrow> map (\<lambda>i. f (ys ! i)) [0..<n] = map f (take n ys)"
  by (rule nth_equalityI) auto

lemma commit_runs:
  assumes "bio_ok s" "v_busy (view_of s) = {}" "log_layout n s" "lh_n s = int n" "0 < n" "n < 30"
    and "length (lh_sector s) = 30" "v_dirty (view_of s) = set (take n (lh_sector s))"
  shows "\<exists>t. commit s = Ret () t \<and> bio_ok t \<and> lh_n t = 0 \<and> bframe (s\<lparr>lh_n := 0\<rparr>) t \<and>
    view_of t = v_writes (commit_writes (log_start s) (take n (lh_sector s)) (v_block (view_of s))) (view_of s)"
proof -
  let ?v = "view_of s" and ?xs = "take n (lh_sector s)" and ?a = "log_start s"
  let ?W1 = "map (\<lambda>i. (log_block s i, v_block ?v (home s i))) [0..<n]"
  have lx: "length ?xs = n" using assms(6,7) by simp
  have card: "card (v_dirty ?v) < 30" using card_length [of ?xs] assms(6,8) lx by simp
  have dirty: "home s i \<in> v_dirty ?v" if "i < n" for i
    using that lx assms(8) nth_mem [of i ?xs] by simp
  note L = log_layoutD [OF assms(3)]
  have base: "log_dev s = ROOTDEV" "?a < disksize s" using assms(3) by (simp_all add: log_layout_def layout_def)
  obtain s1 where s1: "write_log s = Ret () s1" "bio_ok s1" "bframe s s1" "view_of s1 = v_writes ?W1 ?v"
    using write_log_loop_writes [OF assms(1-3), of 0 n] dirty card assms(4) by (auto simp: write_log_def)
  note f1 = bframe_log [OF s1(3)]
  have a1: "v_block (view_of s1) ?a = v_block ?v ?a"
    using L(4) by (auto simp: s1(4) v_writes_def image_iff intro!: apply_writes_other)
  let ?h1 = "header (v_block ?v ?a) ?xs"
  have c1: "card (v_dirty (view_of s1)) < 30" using dirty_le [of ?W1 ?v] card by (simp add: s1(4))
  obtain s2 where s2: "write_head s1 = Ret () s2" "bio_ok s2" "bframe s1 s2" "view_of s2 = v_writes [(?a, ?h1)] (view_of s1)"
    using write_head_writes [OF s1(2), of n] base f1 a1 c1 assms(2,4,6,7) s1(4) by auto
  note f2 = bframe_log [OF s2(3)]
  have v2: "view_of s2 = v_writes (?W1 @ [(?a, ?h1)]) ?v" by (simp add: v_writes_append s1(4) s2(4))
  have dl: "distinct (map (log_block s) [0..<n])"
  proof -
    have "layout ?a (disksize s) ?xs" using assms(3) by (simp add: log_layout_def)
    then have "distinct (map (log_block s) [0..<length ?xs])" unfolding layout_def by blast
    then show ?thesis by (simp only: lx)
  qed
  have b2: "v_block (view_of s2) (log_block s i) = v_block ?v (home s i)"
      "v_disk (view_of s2) (log_block s i) = v_block ?v (home s i)" if "i < n" for i
    using L(4) [OF that] that apply_writes_map [OF dl, of i "\<lambda>i. v_block ?v (home s i)"]
    by (simp_all add: v2 v_writes_def)
  have "home s i \<notin> fst ` set (?W1 @ [(?a, ?h1)])" if "i < n" for i
  proof
    assume "home s i \<in> fst ` set (?W1 @ [(?a, ?h1)])"
    then have "home s i = ?a \<or> (\<exists>j<n. home s i = log_block s j)" by auto
    then show False using L(3,5) [OF that] by metis
  qed
  then have "home s2 i \<in> v_dirty (view_of s2)" if "i < n" for i
    using dirty [OF that] that unfolding v2 v_writes_def by (simp add: f2 f1)
  moreover have "card (v_dirty (view_of s2)) < 30" using dirty_le [of "[(?a, ?h1)]" "view_of s1"] c1 by (simp add: s2(4))
  moreover have "log_layout n s2" using assms(3) log_layout_frame s1(3) s2(3) by blast
  ultimately obtain s3 where s3: "install_trans s2 = Ret () s3" "bio_ok s3" "bframe s2 s3"
      "view_of s3 = v_writes (map (\<lambda>i. (home s2 i, v_block (view_of s2) (log_block s2 i))) [0..<n]) (view_of s2)"
    using install_loop_writes [OF s2(2), of n 0 n] b2 assms(2,4) v2 f1 f2 by (auto simp: install_trans_def)
  note f3 = bframe_log [OF s3(3)]
  have w3: "map (\<lambda>i. (home s2 i, v_block (view_of s2) (log_block s2 i))) [0..<n] = map (\<lambda>x. (x, v_block ?v x)) ?xs"
  proof -
    have "map (\<lambda>i. (home s2 i, v_block (view_of s2) (log_block s2 i))) [0..<n]
        = map (\<lambda>i. (home s i, v_block ?v (home s i))) [0..<n]"
      by (rule map_cong) (simp_all add: b2(1) f1 f2)
    then show ?thesis using map_nth_take [of n "lh_sector s" "\<lambda>x. (x, v_block ?v x)"] assms(6,7) by simp
  qed
  let ?W3 = "?W1 @ [(?a, ?h1)] @ map (\<lambda>x. (x, v_block ?v x)) ?xs"
  have v3: "view_of s3 = v_writes ?W3 ?v" 
    by (subst s3(4), subst w3, subst v2) (simp flip: v_writes_append)
  have "?a \<notin> set ?xs" using L(3) lx by (auto simp: in_set_conv_nth)
  then have a3: "v_block (view_of s3) ?a = ?h1"
    by (auto simp: v3 v_writes_def image_iff apply_writes_other)
  let ?s4 = "s3\<lparr>lh_n := 0\<rparr>"
  have c3: "card (v_dirty (view_of s3)) < 30" using dirty_le [of ?W3 ?v] card by (simp add: v3)
  obtain s5 where s5: "write_head ?s4 = Ret () s5" "bio_ok s5" "bframe ?s4 s5"
      "view_of s5 = v_writes [(?a, header ?h1 [])] (view_of s3)"
    using write_head_writes [of ?s4 0] s3(2) base f1 f2 f3 a3 c3 assms(2) v3 by auto
  have "commit s = Ret () s5" using s1(1) s2(1) s3(1) s5(1) assms(4,5) by (simp add: commit_def)
  moreover have "view_of s5 = v_writes (commit_writes ?a ?xs (v_block ?v)) ?v"
  proof -
    have "?W1 = map (\<lambda>i. (?a + of_nat i + 1, v_block ?v (?xs ! i))) [0..<length ?xs]" using lx by simp
    then show ?thesis by (simp add: s5(4) v3 commit_writes_def flip: v_writes_append)
  qed
  moreover have "lh_n s5 = 0" using bframe_log(4) [OF s5(3)] by simp
  moreover have "bframe (s\<lparr>lh_n := 0\<rparr>) s5"
    using bframe_set_lh_n [OF bframe_trans [OF bframe_trans [OF s1(3) s2(3)] s3(3)]] s5(3) bframe_trans by blast
  ultimately show ?thesis using s5(2) by blast
qed

section \<open>Recovery\<close>

text \<open>The places that a header on the disk names, and what recovery makes of a disk.\<close>

definition head_secs :: "u32 \<Rightarrow> (u32 \<Rightarrow> u8 list) \<Rightarrow> u32 list" where
  "head_secs start d = map (\<lambda>i. get32 (d start) (4 + 4 * i)) [0..<nat (sint (get32 (d start) 0))]"

definition recover_writes :: "u32 \<Rightarrow> (u32 \<Rightarrow> u8 list) \<Rightarrow> (u32 \<times> u8 list) list" where
  "recover_writes start d =
     map (\<lambda>i. (head_secs start d ! i, d (start + of_nat i + 1))) [0..<length (head_secs start d)]
     @ [(start, header (d start) [])]"

lemma set_lh_sector [simp]:
  "bio_ok (s\<lparr>lh_sector := n\<rparr>) = bio_ok s" "view_of (s\<lparr>lh_sector := n\<rparr>) = view_of s"
  "holds (s\<lparr>lh_sector := n\<rparr>) = holds s" "holds (s\<lparr>lh_n := k\<rparr>) = holds s"
  by (simp_all add: bio_ok_def binv_def view_of_def holds_def fun_eq_iff)

lemma read_head_runs:
  assumes "bio_ok s" "v_busy (view_of s) = {}" "log_dev s = ROOTDEV" "log_start s < disksize s"
    and "card (v_dirty (view_of s)) < 30" "v_block (view_of s) (log_start s) = v_disk (view_of s) (log_start s)"
    and "length (head_secs (log_start s) (v_disk (view_of s))) \<le> 30" "length (lh_sector s) = 30"
  shows "\<exists>t. read_head s = Ret () t \<and> bio_ok t \<and> view_of t = view_of s \<and> log_start t = log_start s
    \<and> disksize t = disksize s \<and> log_dev t = log_dev s \<and> length (lh_sector t) = 30
    \<and> nat (lh_n t) = length (head_secs (log_start s) (v_disk (view_of s)))
    \<and> take (nat (lh_n t)) (lh_sector t) = head_secs (log_start s) (v_disk (view_of s))"
proof -
  let ?a = "log_start s" and ?xs = "head_secs (log_start s) (v_disk (view_of s))"
  have "card (pinned (view_of s)) < 30" using assms(2,5) by (simp add: card_pinned)
  then obtain b t where t: "bread ROOTDEV ?a s = Ret b t" "bio_ok t" "view_of t = v_read ?a (view_of s)"
      "bframe s t" "holds t b ?a"
    using bio.rd_law [OF assms(1,4)] assms(2) by auto
  note f = bframe_log [OF t(4)]
  have g: "b_data (bufs t ! b) = v_disk (view_of s) ?a"
    using bio.get_law [OF t(2,5)] t(3) assms(6) by (simp add: v_read_def)
  let ?n = "sint (get32 (v_disk (view_of s) ?a) 0)"
  have n: "length ?xs = nat ?n" "?n \<le> 30" using assms(7) by (simp_all add: head_secs_def)
  let ?u = "t\<lparr>lh_n := ?n, lh_sector := ?xs @ drop (length ?xs) (lh_sector s)\<rparr>"
  have u: "bio_ok ?u" "holds ?u b ?a" "view_of ?u = view_of t" using t(2,5) by simp_all
  have "v_block (view_of ?u) ?a = v_disk (view_of ?u) ?a" using u(3) t(3) assms(6) by (simp add: v_read_def)
  then obtain w where w: "brelse b ?u = Ret () w" "bio_ok w" "view_of w = v_release ?a (view_of ?u)" "bframe ?u w"
    using bio.rel_law [OF u(1,2)] by blast
  note fw = bframe_log [OF w(4)]
  have "read_head s = Ret () w"
    using t(1) assms(3) g n w(1) by (simp add: read_head_def Let_def f head_secs_def)
  moreover have "view_of w = view_of s"
    using assms(2) by (simp add: w(3) u(3) t(3) v_release_def v_read_def)
  ultimately show ?thesis using w(2) fw f n assms(7,8) by (auto simp: min_def)
qed

lemma recover_runs:
  assumes "bio_ok s" "v_busy (view_of s) = {}" "v_dirty (view_of s) = {}" "log_dev s = ROOTDEV"
    and "v_block (view_of s) = v_disk (view_of s)" "length (lh_sector s) = 30"
    and "length (head_secs (log_start s) (disk s)) \<le> 30"
    and "layout (log_start s) (disksize s) (head_secs (log_start s) (disk s))"
  shows "\<exists>t. recover_from_log s = Ret () t \<and> bio_ok t \<and> lh_n t = 0
    \<and> view_of t = v_writes (recover_writes (log_start s) (disk s)) (view_of s)"
proof -
  let ?a = "log_start s" and ?d = "disk s" and ?v = "view_of s"
  let ?xs = "head_secs ?a ?d"
  have dv: "v_disk ?v = ?d" by (simp add: view_of_def)
  have a: "?a < disksize s" using assms(8) by (simp add: layout_def)
  obtain t where t: "read_head s = Ret () t" "bio_ok t" "view_of t = ?v" "log_start t = ?a"
      "disksize t = disksize s" "log_dev t = log_dev s" "length (lh_sector t) = 30"
      "nat (lh_n t) = length ?xs" "take (nat (lh_n t)) (lh_sector t) = ?xs"
    using read_head_runs [OF assms(1,2,4) a] assms(3,5,6,7) dv by auto
  have h: "home t i = ?xs ! i" if "i < length ?xs" for i
    using that by (subst t(9) [symmetric]) (simp add: t(8))
  have "log_layout (length ?xs) t" using assms(4,7,8) t by (simp add: log_layout_def)
  then obtain u where u: "install_trans t = Ret () u" "bio_ok u" "bframe t u"
      "view_of u = v_writes (map (\<lambda>i. (home t i, v_block ?v (log_block t i))) [0..<length ?xs]) ?v"
    using install_loop_writes [OF t(2), of "length ?xs" 0 "length ?xs"] t(3,8) assms(2,3,5)
    by (auto simp: install_trans_def)
  note fu = bframe_log [OF u(3)]
  let ?W = "map (\<lambda>i. (?xs ! i, ?d (?a + of_nat i + 1))) [0..<length ?xs]"
  have "map (\<lambda>i. (home t i, v_block ?v (log_block t i))) [0..<length ?xs] = ?W"
    using h assms(5) dv t(4) by (intro map_cong) simp_all
  then have vu: "view_of u = v_writes ?W ?v" using u(4) by (simp only:)
  have "v_block (view_of u) ?a = ?d ?a"
  proof -
    have "?a \<notin> fst ` set ?W" using assms(8) by (auto simp: layout_def)
    then show ?thesis using assms(5) dv by (simp add: vu v_writes_def apply_writes_other)
  qed
  then obtain w where w: "write_head (u\<lparr>lh_n := 0\<rparr>) = Ret () w" "bio_ok w" "bframe (u\<lparr>lh_n := 0\<rparr>) w"
      "view_of w = v_writes [(?a, header (?d ?a) [])] (view_of u)"
    using write_head_writes [of "u\<lparr>lh_n := 0\<rparr>" 0] u(2) vu fu t(4,5,6) assms(2,3,4) a
    by (auto simp: v_writes_def)
  have "recover_from_log s = Ret () w" using t(1) u(1) w(1) by (simp add: recover_from_log_def)
  moreover have "view_of w = v_writes (recover_writes ?a ?d) ?v"
    by (simp add: w(4) vu recover_writes_def flip: v_writes_append)
  ultimately show ?thesis using w(2) bframe_log(4) [OF w(3)] by auto
qed

section \<open>Crashes\<close>

lemma sint_of_nat: "n \<le> 30 \<Longrightarrow> sint (of_nat n :: u32) = int n"
  by (simp add: sint_uint unat_of_nat_32 uint_nat signed_take_bit_int_eq_self)

lemma head_secs_header:
  assumes "length d = 512" "length xs \<le> 30" "f start = header d xs"
  shows "head_secs start f = xs"
  using header_read [OF assms(1,2)] assms(2,3)
  by (auto simp: head_secs_def sint_of_nat intro!: nth_equalityI)

text \<open>The sectors that the log uses for \<open>n\<close> blocks.\<close>

definition log_area :: "u32 \<Rightarrow> nat \<Rightarrow> u32 set" where
  "log_area start n = insert start ((\<lambda>i. start + of_nat i + 1) ` {..<n})"

lemma layout_area:
  assumes "layout start nsec xs"
  shows "set xs \<inter> log_area start (length xs) = {}" "start \<notin> (\<lambda>i. start + of_nat i + 1) ` {..<length xs}"
proof -
  have "xs ! i \<notin> log_area start (length xs)" if "i < length xs" for i
    using assms that by (auto simp: layout_def log_area_def)
  then show "set xs \<inter> log_area start (length xs) = {}" by (auto simp: in_set_conv_nth)
  show "start \<notin> (\<lambda>i. start + of_nat i + 1) ` {..<length xs}"
  proof
    assume "start \<in> (\<lambda>i. start + of_nat i + 1) ` {..<length xs}"
    then obtain i where "i < length xs" "start = start + of_nat i + 1" by blast
    then show False using assms by (metis layout_def)
  qed
qed

text \<open>The three stages at which a crash can find the disk, and what recovery makes of each.\<close>

lemma recover_nothing:
  assumes "head_secs start d = []" "x \<noteq> start"
  shows "apply_writes (recover_writes start d) d x = d x"
  using assms by (simp add: recover_writes_def)

lemma recover_installs:
  assumes "layout start nsec xs" "head_secs start d = xs" "\<forall>i<length xs. d (start + of_nat i + 1) = b (xs ! i)"
    and "x \<notin> log_area start (length xs)"
  shows "apply_writes (recover_writes start d) d x = (if x \<in> set xs then b x else d x)"
proof -
  let ?W = "map (\<lambda>i. (xs ! i, d (start + of_nat i + 1))) [0..<length xs]"
  have x: "x \<noteq> start" using assms(4) by (simp add: log_area_def)
  have "fst ` set ?W = set (map ((!) xs) [0..<length xs])" by (simp only: set_map image_image fst_conv)
  then have fs: "fst ` set ?W = set xs" by (simp only: map_nth)
  have "apply_writes ?W d x = (if x \<in> set xs then b x else d x)"
  proof (cases "x \<in> set xs")
    case True
    then obtain i where i: "i < length xs" "x = xs ! i" by (auto simp: in_set_conv_nth)
    have "distinct (map ((!) xs) [0..<length xs])" using assms(1) by (simp add: map_nth layout_def)
    from apply_writes_map [OF this, of i "\<lambda>i. d (start + of_nat i + 1)" d] show ?thesis
      using i assms(3) True by simp
  qed (use apply_writes_other [of x ?W d] fs in simp)
  then show ?thesis using x by (simp add: recover_writes_def assms(2))
qed

text \<open>The writes of a commit in its three parts: the copies, the header, and the installation.\<close>

definition log_copies :: "u32 \<Rightarrow> u32 list \<Rightarrow> (u32 \<Rightarrow> u8 list) \<Rightarrow> (u32 \<times> u8 list) list" where
  "log_copies start xs b = map (\<lambda>i. (start + of_nat i + 1, b (xs ! i))) [0..<length xs]"

lemma commit_writes_parts:
  "commit_writes start xs b = log_copies start xs b @ (start, header (b start) xs)
     # map (\<lambda>x. (x, b x)) xs @ [(start, header (header (b start) xs) [])]"
  by (simp add: commit_writes_def log_copies_def)

lemma log_copies_other:
  assumes "layout start nsec xs" "x \<notin> (\<lambda>i. start + of_nat i + 1) ` {..<length xs}"
  shows "apply_writes (take k (log_copies start xs b)) f x = f x"
proof (rule apply_writes_other)
  show "x \<notin> fst ` set (take k (log_copies start xs b))"
    using assms(2) set_take_subset [of k "log_copies start xs b"] by (auto simp: log_copies_def)
qed

lemma log_copies_nth:
  assumes "layout start nsec xs" "i < length xs"
  shows "apply_writes (log_copies start xs b) f (start + of_nat i + 1) = b (xs ! i)"
  using apply_writes_map [of "\<lambda>i. start + of_nat i + 1" "[0..<length xs]" i "\<lambda>i. b (xs ! i)" f] assms
  by (simp add: layout_def log_copies_def)

lemma installs_other:
  assumes "x \<notin> set xs"
  shows "apply_writes (take k (map (\<lambda>x. (x, b x)) xs)) f x = f x"
  using assms set_take_subset [of k xs] by (intro apply_writes_other) (auto simp: take_map)

lemma log_area_outside:
  assumes "x \<notin> log_area start n"
  shows "x \<noteq> start" "x \<notin> (\<lambda>i. start + of_nat i + 1) ` {..<n}"
  using assms by (auto simp: log_area_def)

text \<open>A crash before the header is written: nothing has happened.\<close>

lemma crash_before_head:
  fixes b :: "u32 \<Rightarrow> u8 list"
  assumes "layout start nsec xs" "head_secs start d = []" "k \<le> length xs"
  defines "d1 \<equiv> apply_writes (take k (commit_writes start xs b)) d"
  shows "head_secs start d1 = []" "x \<notin> log_area start (length xs) \<Longrightarrow> d1 x = d x"
proof -
  have d1: "d1 = apply_writes (take k (log_copies start xs b)) d"
    using assms(3) by (simp add: d1_def commit_writes_parts log_copies_def)
  have "d1 start = d start" using log_copies_other [OF assms(1) layout_area(2) [OF assms(1)]] d1 by simp
  then show "head_secs start d1 = []" using assms(2) by (simp add: head_secs_def)
  show "d1 x = d x" if "x \<notin> log_area start (length xs)"
    using log_copies_other [OF assms(1) log_area_outside(2) [OF that]] d1 by simp
qed

text \<open>A crash after the header is written: recovery installs all the blocks.\<close>

lemma crash_after_head:
  fixes d :: "u32 \<Rightarrow> u8 list"
  assumes l: "layout start nsec xs" "length xs \<le> 30" and "length (b start) = 512" "j \<le> length xs"
  defines "d1 \<equiv> apply_writes (take (length xs + Suc j) (commit_writes start xs b)) d"
  shows "head_secs start d1 = xs" "\<forall>i<length xs. d1 (start + of_nat i + 1) = b (xs ! i)"
    "x \<notin> log_area start (length xs) \<Longrightarrow> x \<notin> set xs \<Longrightarrow> d1 x = d x"
proof -
  let ?n = "length xs" and ?lb = "\<lambda>i. start + of_nat i + 1 :: u32"
  have d1: "d1 = apply_writes (take j (map (\<lambda>x. (x, b x)) xs)) ((apply_writes (log_copies start xs b) d)(start := header (b start) xs))"
    using assms(4) by (simp add: d1_def commit_writes_parts log_copies_def take_Cons')
  note area = layout_area [OF l(1)]
  have s: "start \<notin> set xs" using area(1) by (auto simp: log_area_def)
  have "d1 start = header (b start) xs" by (simp add: d1 installs_other [OF s])
  from head_secs_header [of _ _ d1 start, OF assms(3) l(2) this] show "head_secs start d1 = xs" .
  have "d1 (?lb i) = b (xs ! i)" if "i < ?n" for i
  proof -
    have "?lb i \<in> log_area start ?n" using that by (simp add: log_area_def)
    then have "?lb i \<notin> set xs" using area(1) by blast
    moreover have "?lb i \<noteq> start" using area(2) that by (metis imageI lessThan_iff)
    ultimately show ?thesis by (simp add: d1 installs_other log_copies_nth [OF l(1) that])
  qed
  then show "\<forall>i<length xs. d1 (start + of_nat i + 1) = b (xs ! i)" by blast
  show "d1 x = d x" if "x \<notin> log_area start ?n" "x \<notin> set xs"
    using log_copies_other [OF l(1) log_area_outside(2) [OF that(1)], of ?n] log_area_outside(1) [OF that(1)]
    by (simp add: d1 installs_other [OF that(2)] log_copies_def)
qed

text \<open>A whole commit: the header is empty again, and the blocks are in their places.\<close>

lemma commit_done:
  assumes l: "layout start nsec xs" "length xs \<le> 30" and "length (b start) = 512"
    and b: "x \<notin> set xs \<Longrightarrow> b x = d x"
  defines "d1 \<equiv> apply_writes (commit_writes start xs b) d"
  shows "head_secs start d1 = []" "x \<notin> log_area start (length xs) \<Longrightarrow> d1 x = b x"
proof -
  let ?h = "header (b start) xs"
  have d1: "d1 = (apply_writes (map (\<lambda>x. (x, b x)) xs) ((apply_writes (log_copies start xs b) d)(start := ?h)))(start := header ?h [])"
    by (simp add: d1_def commit_writes_parts)
  have "length ?h = 512" by (rule header_read(1) [OF assms(3) l(2)])
  then show "head_secs start d1 = []" using head_secs_header [of ?h "[]" d1 start] by (simp add: d1)
  show "d1 x = b x" if "x \<notin> log_area start (length xs)"
  proof (cases "x \<in> set xs")
    case True
    then show ?thesis using apply_writes_map [of "\<lambda>x. x" xs x b] l(1) log_area_outside(1) [OF that]
      by (simp add: d1 layout_def)
  next
    case False
    then show ?thesis
      using log_copies_other [OF l(1) log_area_outside(2) [OF that], of "length xs"] log_area_outside(1) [OF that] b
        installs_other [OF False, of "length xs"]
      by (simp add: d1 log_copies_def)
  qed
qed

lemma crash_recovers:
  fixes k :: nat
  assumes l: "layout start nsec xs" "length xs \<le> 30"
    and d: "head_secs start d = []" "length (b start) = 512"
    and b: "\<forall>x. x \<notin> set xs \<longrightarrow> b x = d x"
  defines "d1 \<equiv> apply_writes (take k (commit_writes start xs b)) d"
  shows "(head_secs start d1 = [] \<or> head_secs start d1 = xs) \<and>
    ((\<forall>x. x \<notin> log_area start (length xs) \<longrightarrow> apply_writes (recover_writes start d1) d1 x = d x)
     \<or> (\<forall>x. x \<notin> log_area start (length xs) \<longrightarrow> apply_writes (recover_writes start d1) d1 x = b x))"
proof -
  let ?n = "length xs"
  consider "k \<le> ?n" | j where "k = ?n + Suc j" "j \<le> ?n" | "k > Suc (2 * ?n)"
  proof (cases "k \<le> ?n")
    case False
    then obtain j where "k = ?n + Suc j" by (metis add_Suc_right less_iff_Suc_add not_le)
    then show ?thesis using that by (cases "j \<le> ?n") auto
  qed auto
  then show ?thesis
  proof cases
    case 1
    note c = crash_before_head [where b = b, OF l(1) d(1) 1, folded d1_def]
    show ?thesis using c recover_nothing [OF c(1)] log_area_outside(1) by metis
  next
    case (2 j)
    note c = crash_after_head [where d = d and b = b, OF l d(2) 2(2), folded 2(1), folded d1_def]
    show ?thesis using c(1,3) recover_installs [OF l(1) c(1,2)] b by metis
  next
    case 3
    then have "d1 = apply_writes (commit_writes start xs b) d"
      by (simp add: d1_def commit_writes_parts log_copies_def)
    then have c: "head_secs start d1 = []" "\<And>x. x \<notin> log_area start ?n \<Longrightarrow> d1 x = b x"
      using commit_done [where d = d and b = b, OF l d(2)] b by simp_all
    show ?thesis using c recover_nothing [OF c(1)] log_area_outside(1) by metis
  qed
qed

section \<open>Starting again after a crash\<close>

lemma clean_block:
  assumes "bio_ok s" "x \<notin> v_busy (view_of s)" "x \<notin> v_dirty (view_of s)"
  shows "block s x = disk s x"
proof (cases "cached (bufs s) x")
  case (Some i)
  have c: "cinv (bufs s) (disk s) (disksize s)" using assms(1) by (simp add: bio_ok_def binv_def)
  have i: "i < 30" "b_dev (bufs s ! i) = ROOTDEV" "b_sector (bufs s ! i) = x"
    using Some cached_iff [OF c, of x i] by auto
  have "\<not> b_busy (bufs s ! i)" "\<not> b_dirty (bufs s ! i)"
    using assms(2,3) Some by (auto simp: view_of_def busy_secs_def dirty_secs_def)
  then show ?thesis using cinvD(5) [OF c i(1,2)] i(3) Some by (simp add: content_def)
qed (simp add: content_def)

lemma readsb_runs:
  assumes "bio_ok s" "v_busy (view_of s) = {}" "v_dirty (view_of s) = {}" "1 < disksize s"
  shows "\<exists>sb t. readsb ROOTDEV s = Ret sb t \<and> bio_ok t \<and> view_of t = view_of s \<and> bframe s t
    \<and> sb_size sb = get32 (disk s 1) 0 \<and> sb_nlog sb = get32 (disk s 1) 12"
proof -
  have e: "block s 1 = disk s 1" using assms(2,3) by (simp add: clean_block [OF assms(1)])
  have "card (pinned (view_of s)) < 30" using assms(2,3) by (simp add: card_pinned)
  then obtain b t where t: "bread ROOTDEV 1 s = Ret b t" "bio_ok t" "view_of t = v_read 1 (view_of s)"
      "bframe s t" "holds t b 1"
    using bio.rd_law [OF assms(1,4)] assms(2) by auto
  have vb: "v_block (view_of s) = block s" "v_disk (view_of s) = disk s" by (simp_all add: view_of_def)
  have g: "b_data (bufs t ! b) = disk s 1"
    using bio.get_law [OF t(2,5)] t(3) e vb by (simp add: v_read_def)
  have "v_block (view_of t) 1 = v_disk (view_of t) 1" using t(3) e vb by (simp add: v_read_def)
  then obtain w where w: "brelse b t = Ret () w" "bio_ok w" "view_of w = v_release 1 (view_of t)" "bframe t w"
    using bio.rel_law [OF t(2,5)] by blast
  have "view_of w = view_of s" using assms(2) by (simp add: w(3) t(3) v_release_def v_read_def)
  then show ?thesis using t(1) w(1,2) g bframe_trans [OF t(4) w(4)] by (auto simp: readsb_def Let_def)
qed

lemma set_log_fields [simp]:
  "bio_ok (s\<lparr>log_start := a, log_size := n, log_dev := d\<rparr>) = bio_ok s"
  "view_of (s\<lparr>log_start := a, log_size := n, log_dev := d\<rparr>) = view_of s"
  by (simp_all add: bio_ok_def binv_def view_of_def)

lemma initlog_runs:
  assumes "bio_ok s" "v_busy (view_of s) = {}" "v_dirty (view_of s) = {}" "1 < disksize s"
    and "start = get32 (disk s 1) 0 - get32 (disk s 1) 12" "length (lh_sector s) = 30"
    and "length (head_secs start (disk s)) \<le> 30" "layout start (disksize s) (head_secs start (disk s))"
  shows "\<exists>t. initlog s = Ret () t \<and> bio_ok t \<and> lh_n t = 0
    \<and> disk t = apply_writes (recover_writes start (disk s)) (disk s)"
proof -
  obtain sb t where t: "readsb ROOTDEV s = Ret sb t" "bio_ok t" "view_of t = view_of s" "bframe s t"
      "sb_size sb = get32 (disk s 1) 0" "sb_nlog sb = get32 (disk s 1) 12"
    using readsb_runs [OF assms(1-4)] by auto
  note f = bframe_log [OF t(4)]
  have d: "disk t = disk s" using arg_cong [OF t(3), of v_disk] by (simp add: view_of_def)
  let ?t = "t\<lparr>log_start := start, log_size := sint (sb_nlog sb), log_dev := ROOTDEV\<rparr>"
  have "v_block (view_of ?t) = v_disk (view_of ?t)"
    using clean_block [OF t(2)] assms(2,3) t(3) by (auto simp: view_of_def)
  then obtain u where u: "recover_from_log ?t = Ret () u" "bio_ok u" "lh_n u = 0"
      "view_of u = v_writes (recover_writes start (disk s)) (view_of s)"
    using recover_runs [of ?t] t(2,3) assms(2,3,6-8) f d by auto
  have "disk u = apply_writes (recover_writes start (disk s)) (disk s)"
    using arg_cong [OF u(4), of v_disk] by (simp add: view_of_def v_writes_def)
  then show ?thesis using t(1,5,6) u(1-3) assms(5) by (auto simp: initlog_def Let_def)
qed

text \<open>
  The machine after a crash: the disk as the crash left it, the kernel's memory zeroed, and \<open>binit\<close>
  run as \<open>main\<close> does before the first process calls \<open>initlog\<close>.
\<close>

definition reboot :: "(u32 \<Rightarrow> u8 list) \<Rightarrow> 'a logst_scheme \<Rightarrow> 'a logst_scheme" where
  "reboot d s = binit (s\<lparr>held := [], bufs := replicate 31 zero_buf, disk := d, wtrace := [],
     log_start := 0, log_size := 0, outstanding := 0, committing := False, log_dev := 0,
     lh_n := 0, lh_sector := replicate 30 0\<rparr>)"

lemma reboot_ok:
  assumes "\<forall>sec<disksize s. length (d sec) = 512"
  shows "bio_ok (reboot d s)" "v_busy (view_of (reboot d s)) = {}" "v_dirty (view_of (reboot d s)) = {}"
    "disk (reboot d s) = d" "disksize (reboot d s) = disksize s" "length (lh_sector (reboot d s)) = 30"
proof -
  let ?s = "s\<lparr>held := [], bufs := replicate 31 zero_buf, disk := d, wtrace := [],
     log_start := 0, log_size := 0, outstanding := 0, committing := False, log_dev := 0,
     lh_n := 0, lh_sector := replicate 30 0\<rparr>"
  obtain bs where bs: "binit ?s = ?s\<lparr>bufs := bs\<rparr>" "binv (?s\<lparr>bufs := bs\<rparr>)" "busy_secs bs = {}" "dirty_secs bs = {}"
    using binit_zero [of ?s] assms by auto
  have r: "reboot d s = ?s\<lparr>bufs := bs\<rparr>" by (simp only: reboot_def bs(1))
  show "bio_ok (reboot d s)" using bs(2) unfolding r by (simp add: bio_ok_def)
  show "v_busy (view_of (reboot d s)) = {}" "v_dirty (view_of (reboot d s)) = {}"
    "disk (reboot d s) = d" "disksize (reboot d s) = disksize s" "length (lh_sector (reboot d s)) = 30"
    using bs(3,4) unfolding r by (simp_all add: view_of_def)
qed

lemma apply_writes_length:
  assumes "\<forall>(x, c) \<in> set ws. length c = 512" "length (d x) = 512"
  shows "length (apply_writes ws d x) = 512"
  using assms by (induction ws arbitrary: d) auto

lemma layout_Nil: "layout start nsec xs \<Longrightarrow> layout start nsec []"
  by (simp add: layout_def)

section \<open>The invariant of the log\<close>

text \<open>
  The blocks that the running transaction has modified are the dirty ones; they lie outside the
  log, and the header on the disk says that nothing is committed.
\<close>

definition txn :: "'a logst_scheme \<Rightarrow> u32 list" where
  "txn s = take (nat (lh_n s)) (lh_sector s)"

definition home_ok :: "'a logst_scheme \<Rightarrow> u32 \<Rightarrow> bool" where
  "home_ok s x \<longleftrightarrow> x < disksize s \<and> x \<noteq> 1 \<and> x \<notin> log_area (log_start s) 29"

definition log_inv :: "'a logst_scheme \<Rightarrow> bool" where
  "log_inv s \<longleftrightarrow> bio_ok s \<and> log_dev s = ROOTDEV \<and> log_size s \<le> 30
     \<and> length (lh_sector s) = 30 \<and> 0 \<le> lh_n s \<and> lh_n s \<le> 29
     \<and> 1 < log_start s \<and> unat (log_start s) + 29 < unat (disksize s)
     \<and> get32 (disk s 1) 0 - get32 (disk s 1) 12 = log_start s
     \<and> head_secs (log_start s) (disk s) = []
     \<and> distinct (txn s) \<and> (\<forall>x \<in> set (txn s). home_ok s x) \<and> v_dirty (view_of s) = set (txn s)"

lemma log_block_unat:
  assumes "unat start + 29 < unat (nsec :: u32)" "i < 29"
  shows "unat (start + of_nat i + 1 :: u32) = unat start + i + 1"
proof -
  have "unat start + i + 1 < 4294967296" using assms unat_lt_32 [of nsec] by simp
  moreover have "start + of_nat i + 1 = of_nat (unat start + i + 1)" by simp
  ultimately show ?thesis by (simp only: unat_of_nat_32)
qed

lemma log_area_mono: "m \<le> n \<Longrightarrow> log_area start m \<subseteq> log_area start n"
  by (auto simp: log_area_def)

lemma layoutI:
  assumes "unat start + 29 < unat nsec" "length xs \<le> 29" "distinct xs"
    and "\<forall>x \<in> set xs. x < nsec \<and> x \<notin> log_area start 29"
  shows "layout start nsec xs"
proof -
  note u = log_block_unat [OF assms(1)]
  have area: "start + of_nat j + 1 \<in> log_area start 29" "start \<in> log_area start 29" if "j < length xs" for j
    using that assms(2) by (auto simp: log_area_def)
  have x: "xs ! i < nsec" "xs ! i \<notin> log_area start 29" if "i < length xs" for i
    using that assms(4) nth_mem by blast+
  have l: "start + of_nat i + 1 < nsec" "start + of_nat i + 1 \<noteq> start" if "i < length xs" for i
  proof -
    have e: "unat (start + of_nat i + 1) = unat start + i + 1" using u that assms(2) by simp
    then show "start + of_nat i + 1 < nsec" using that assms(1,2) by (simp add: word_less_nat_alt)
    show "start + of_nat i + 1 \<noteq> start"
    proof
      assume "start + of_nat i + 1 = start"
      with e have "unat start = unat start + i + 1" by (simp only:)
      then show False by simp
    qed
  qed
  have "inj_on (\<lambda>i. start + of_nat i + 1) {0..<length xs}"
  proof (rule inj_onI)
    fix i j assume a: "i \<in> {0..<length xs}" "j \<in> {0..<length xs}" and e: "start + of_nat i + 1 = start + of_nat j + 1"
    have "i < 29" "j < 29" using a assms(2) by simp_all
    then have "unat start + i + 1 = unat start + j + 1" using u [of i] u [of j] arg_cong [OF e, of unat] by linarith
    then show "i = j" by simp
  qed
  then have d: "distinct (map (\<lambda>i. start + of_nat i + 1) [0..<length xs])" by (simp only: distinct_map distinct_upt set_upt simp_thms)
  have n: "xs ! i \<noteq> start + of_nat j + 1" "xs ! i \<noteq> start" if "i < length xs" "j < length xs" for i j
    using x(2) [OF that(1)] area [OF that(2)] by metis+
  have "start < nsec" using assms(1) by (simp add: word_less_nat_alt)
  then show ?thesis unfolding layout_def using l d n x(1) assms(3) by (intro conjI allI impI) blast+
qed

lemma log_inv_layout:
  assumes "log_inv s"
  shows "layout (log_start s) (disksize s) (txn s)" "length (txn s) = nat (lh_n s)" "length (txn s) \<le> 29"
proof -
  show l: "length (txn s) = nat (lh_n s)" "length (txn s) \<le> 29" using assms by (auto simp: log_inv_def txn_def)
  show "layout (log_start s) (disksize s) (txn s)"
    using assms l by (intro layoutI) (auto simp: log_inv_def home_ok_def)
qed

lemma commit_writes_length:
  assumes "\<forall>x \<in> insert start (set xs). length (b x) = 512" "length xs \<le> 30"
  shows "\<forall>(x, c) \<in> set (commit_writes start xs b). length c = 512"
proof -
  have "length (header (b start) xs) = 512" using header_read(1) assms by blast
  then have "length (header (header (b start) xs) []) = 512" using header_read(1) [of _ "[]"] by auto
  then show ?thesis using assms \<open>length (header (b start) xs) = 512\<close> by (auto simp: commit_writes_def)
qed

lemma commit_writes_fst:
  "fst ` set (commit_writes start xs b) = set xs \<union> log_area start (length xs)"
  by (force simp: commit_writes_def log_area_def)

lemma log_inv_commit:
  assumes "log_inv s" "v_busy (view_of s) = {}"
  defines "ws \<equiv> if txn s = [] then [] else commit_writes (log_start s) (txn s) (block s)"
  shows "\<exists>t. commit s = Ret () t \<and> bio_ok t \<and> lh_n t = 0 \<and> bframe (s\<lparr>lh_n := 0\<rparr>) t \<and> view_of t = v_writes ws (view_of s)"
proof (cases "txn s = []")
  case True
  then have n: "lh_n s = 0" using assms(1) by (auto simp: log_inv_def txn_def)
  then have "s\<lparr>lh_n := 0\<rparr> = s" by simp
  then have "bframe (s\<lparr>lh_n := 0\<rparr>) s" by (simp only: bframe_refl)
  then show ?thesis using n assms(1) True by (simp add: commit_def ws_def log_inv_def bframe_refl)
next
  case False
  note l = log_inv_layout [OF assms(1)]
  have n: "lh_n s = int (nat (lh_n s))" "0 < nat (lh_n s)" "nat (lh_n s) < 30" "length (lh_sector s) = 30"
    "log_dev s = ROOTDEV" "bio_ok s" "v_dirty (view_of s) = set (txn s)"
    using assms(1) False by (auto simp: log_inv_def txn_def)
  have "log_layout (nat (lh_n s)) s" using l(1) n by (simp add: log_layout_def txn_def)
  then show ?thesis using commit_runs [of s "nat (lh_n s)"] assms(2) n False
    by (simp add: ws_def txn_def view_of_def)
qed

lemma log_area_not_1: "log_inv s \<Longrightarrow> 1 \<notin> log_area (log_start s) 29"
proof
  assume a: "log_inv s" "1 \<in> log_area (log_start s) 29"
  have b: "unat (log_start s) + 29 < unat (disksize s)" "1 < unat (log_start s)" "log_start s \<noteq> 1"
    using a(1) by (auto simp: log_inv_def word_less_nat_alt)
  then obtain i where i: "i < 29" "log_start s + of_nat i + 1 = 1"
    using a(2) by (auto simp: log_area_def)
  have "unat (log_start s + of_nat i + 1) = 1" by (simp only: i(2) unsigned_1)
  then show False using log_block_unat [OF b(1) i(1)] b(2) by linarith
qed

end
