(* ===== verification/Crash_Safety.thy ===== *)
theory Crash_Safety
  imports Log_Crash Vm_Map
begin

text \<open>
  What the log promises to the file system: \<open>log_write\<close> adds a block to the transaction, a commit
  is atomic under crashes, and the end of the last operation makes its writes durable.
\<close>

section \<open>Atomic commits\<close>

lemma log_inv_fields:
  assumes "log_inv s"
  shows "bio_ok s" "1 < disksize s" "log_start s = get32 (disk s 1) 0 - get32 (disk s 1) 12"
    "head_secs (log_start s) (disk s) = []" "\<forall>sec<disksize s. length (disk s sec) = 512"
    "1 \<notin> set (txn s)" "log_start s < disksize s" "v_dirty (view_of s) = set (txn s)"
proof -
  show i: "bio_ok s" "log_start s = get32 (disk s 1) 0 - get32 (disk s 1) 12"
    "head_secs (log_start s) (disk s) = []" "1 \<notin> set (txn s)" "v_dirty (view_of s) = set (txn s)"
    using assms by (auto simp: log_inv_def home_ok_def)
  show "log_start s < disksize s" "1 < disksize s"
    using assms by (auto simp: log_inv_def word_less_nat_alt)
  show "\<forall>sec<disksize s. length (disk s sec) = 512"
    using i(1) by (auto simp: bio_ok_def binv_def cinvD(6))
qed

lemma block_length:
  assumes "log_inv s" "x < disksize s"
  shows "length (block s x) = 512"
proof (cases "cached (bufs s) x")
  case (Some i)
  have c: "cinv (bufs s) (disk s) (disksize s)" using log_inv_fields(1) [OF assms(1)] by (simp add: bio_ok_def binv_def)
  have "i < 30" using Some cached_iff [OF c, of x i] by auto
  then show ?thesis using cinvD(1) [OF c] log_inv_fields(5) [OF assms(1)] Some assms(2) by (simp add: content_def)
qed (use log_inv_fields(5) [OF assms(1)] assms(2) in \<open>simp add: content_def\<close>)

text \<open>Recovery from the disk that a crash in the middle of the commit leaves behind.\<close>

lemma crash_in_commit:
  assumes inv: "log_inv s" "v_busy (view_of s) = {}"
    and d: "d = apply_writes (take k (commit_writes (log_start s) (txn s) (block s))) (disk s)"
  shows "\<exists>u. initlog (reboot d s) = Ret () u
    \<and> ((\<forall>x. x \<notin> log_area (log_start s) 29 \<longrightarrow> disk u x = disk s x)
       \<or> (\<forall>x. x \<notin> log_area (log_start s) 29 \<longrightarrow> disk u x = block s x))"
proof -
  let ?a = "log_start s" and ?xs = "txn s" and ?d = "disk s" and ?b = "block s"
  let ?ws = "commit_writes ?a ?xs ?b"
  note f = log_inv_fields [OF inv(1)] and l = log_inv_layout [OF inv(1)]
  have clean: "?b x = ?d x" if "x \<notin> set ?xs" for x using clean_block [OF f(1)] inv(2) f(8) that by simp
  have la: "length (?b ?a) = 512" by (rule block_length [OF inv(1) f(7)])
  have sub: "log_area ?a (length ?xs) \<subseteq> log_area ?a 29" by (rule log_area_mono [OF l(3)])
  have "length (?b x) = 512" if "x \<in> insert ?a (set ?xs)" for x
    using block_length [OF inv(1)] f(7) inv(1) that by (auto simp: log_inv_def home_ok_def)
  then have "\<forall>(x, c) \<in> set (take k ?ws). length c = 512"
    using commit_writes_length [of ?a ?xs ?b] l(3) set_take_subset [of k ?ws] by fastforce
  then have len: "\<forall>sec<disksize s. length (d sec) = 512" using apply_writes_length f(5) d by blast
  note r = reboot_ok [OF len]
  have "1 \<notin> fst ` set (take k ?ws)"
    using commit_writes_fst [of ?a ?xs ?b] log_area_not_1 [OF inv(1)] f(6) sub set_take_subset [of k ?ws] by blast
  then have d1: "d 1 = ?d 1" by (simp add: d apply_writes_other)
  have c: "head_secs ?a d = [] \<or> head_secs ?a d = ?xs"
    "(\<forall>x. x \<notin> log_area ?a (length ?xs) \<longrightarrow> apply_writes (recover_writes ?a d) d x = ?d x)
     \<or> (\<forall>x. x \<notin> log_area ?a (length ?xs) \<longrightarrow> apply_writes (recover_writes ?a d) d x = ?b x)"
    using crash_recovers [where d = ?d and b = ?b, OF l(1) _ f(4)] l(3) la clean by (auto simp: d)
  have "length (head_secs ?a d) \<le> 30" "layout ?a (disksize s) (head_secs ?a d)"
    using c(1) l layout_Nil by auto
  then obtain u where u: "initlog (reboot d s) = Ret () u" "disk u = apply_writes (recover_writes ?a d) d"
    using initlog_runs [OF r(1-3), of ?a] r(4-6) f(2,3) d1 by auto
  then show ?thesis using c(2) sub by (intro exI [of _ u]) (simp, blast)
qed

text \<open>
  C14: a commit returns; and if the machine crashes after any number of the sector writes of
  the commit, the boot that follows (\<open>binit\<close> and \<open>initlog\<close> on the disk as it is then) returns, and
  outside the log either every sector is as it was before the commit, or every sector holds what
  the transaction wrote.
\<close>

theorem commit_atomic:
  assumes "log_inv s" "v_busy (view_of s) = {}"
  shows "\<exists>t ws. commit s = Ret () t \<and> wtrace t = wtrace s @ ws \<and> disk t = apply_writes ws (disk s)
    \<and> (\<forall>k. \<exists>u. initlog (reboot (apply_writes (take k ws) (disk s)) s) = Ret () u
         \<and> ((\<forall>x. x \<notin> log_area (log_start s) 29 \<longrightarrow> disk u x = disk s x)
            \<or> (\<forall>x. x \<notin> log_area (log_start s) 29 \<longrightarrow> disk u x = block s x)))"
proof -
  let ?ws = "if txn s = [] then [] else commit_writes (log_start s) (txn s) (block s)"
  obtain t where t: "commit s = Ret () t" "view_of t = v_writes ?ws (view_of s)"
    using log_inv_commit [OF assms] by metis
  have tr: "wtrace t = wtrace s @ ?ws" "disk t = apply_writes ?ws (disk s)"
    using arg_cong [OF t(2), of v_trace] arg_cong [OF t(2), of v_disk] by (simp_all add: view_of_def v_writes_def)
  have r: "\<exists>u. initlog (reboot (apply_writes (take k ?ws) (disk s)) s) = Ret () u
         \<and> ((\<forall>x. x \<notin> log_area (log_start s) 29 \<longrightarrow> disk u x = disk s x)
            \<or> (\<forall>x. x \<notin> log_area (log_start s) 29 \<longrightarrow> disk u x = block s x))" for k
  proof (cases "txn s = []")
    case True
    then show ?thesis using crash_in_commit [OF assms, of "disk s" 0] by simp
  next
    case False
    then show ?thesis using crash_in_commit [OF assms, of _ k] by simp
  qed
  show ?thesis by (intro exI conjI) (rule t(1) tr r allI)+
qed

section \<open>Adding a block to the transaction\<close>

lemma log_index_old:
  assumes "sec \<in> set (take n xs)" "n \<le> length xs"
  shows "log_index sec xs n < n" "xs ! log_index sec xs n = sec"
proof -
  have "find_index (\<lambda>x. x = sec) (take n xs) \<noteq> None" using assms(1) by (simp add: find_index_None)
  then obtain i where i: "find_index (\<lambda>x. x = sec) (take n xs) = Some i" by auto
  then show "log_index sec xs n < n" "xs ! log_index sec xs n = sec"
    using find_index_Some [OF i] assms(2) by (auto simp: log_index_def)
qed

lemma log_index_new: "sec \<notin> set (take n xs) \<Longrightarrow> log_index sec xs n = n"
  using find_index_None [of "\<lambda>x. x = sec" "take n xs"] by (auto simp: log_index_def)

text \<open>The header after a \<open>log_write\<close> of sector \<open>sec\<close>.\<close>

lemma log_write_eq:
  assumes "0 \<le> lh_n s" "lh_n s < log_size s - 1" "lh_n s < 30" "length (lh_sector s) = 30" "1 \<le> outstanding s"
    and "b_sector (bufs s ! b) = sec"
  shows "log_write b s = Ret () (upd_buf b (\<lambda>x. x\<lparr>b_dirty := True\<rparr>)
      (if sec \<in> set (txn s) then s
       else s\<lparr>lh_sector := (lh_sector s)[nat (lh_n s) := sec], lh_n := lh_n s + 1\<rparr>))"
proof (cases "sec \<in> set (txn s)")
  case True
  then have "log_index sec (lh_sector s) (nat (lh_n s)) < nat (lh_n s)"
    "lh_sector s ! log_index sec (lh_sector s) (nat (lh_n s)) = sec"
    using log_index_old [of sec "nat (lh_n s)" "lh_sector s"] assms(3,4) by (auto simp: txn_def)
  then have "(lh_sector s)[log_index sec (lh_sector s) (nat (lh_n s)) := sec] = lh_sector s"
    by (metis list_update_id)
  then show ?thesis using True assms \<open>log_index sec _ _ < _\<close> by (auto simp: log_write_def Let_def)
next
  case False
  then show ?thesis using assms log_index_new [of sec "nat (lh_n s)" "lh_sector s"]
    by (simp add: log_write_def Let_def txn_def)
qed

lemma txn_upd_buf [simp]: "txn (upd_buf b f s) = txn s"
  by (simp add: txn_def upd_buf_def)

lemma pin_frame:
  assumes "log_inv s" "holds s b sec"
  defines "t \<equiv> upd_buf b (\<lambda>x. x\<lparr>b_dirty := True\<rparr>) s"
  shows "bio_ok t" "view_of t = v_pin sec (view_of s)" "disk t = disk s" "disksize t = disksize s"
    "log_start t = log_start s" "log_dev t = log_dev s" "log_size t = log_size s"
    "lh_n t = lh_n s" "lh_sector t = lh_sector s"
  using pin_law(1,2) [of s b sec] assms(2) log_inv_fields(1) [OF assms(1)]
  by (simp_all add: t_def bio_ok_def upd_buf_def)

lemma log_write_runs:
  assumes "log_inv s" "holds s b sec" "home_ok s sec" "lh_n s < log_size s - 1" "1 \<le> outstanding s"
  shows "\<exists>t. log_write b s = Ret () t \<and> log_inv t \<and> view_of t = v_pin sec (view_of s)
    \<and> txn t = (if sec \<in> set (txn s) then txn s else txn s @ [sec])"
proof -
  have i: "0 \<le> lh_n s" "lh_n s < 29" "length (lh_sector s) = 30" "lh_n s < 30" using assms(1,4) by (auto simp: log_inv_def)
  have sec: "b_sector (bufs s ! b) = sec" using assms(2) by (simp add: holds_def)
  let ?s = "if sec \<in> set (txn s) then s else s\<lparr>lh_sector := (lh_sector s)[nat (lh_n s) := sec], lh_n := lh_n s + 1\<rparr>"
  let ?t = "upd_buf b (\<lambda>x. x\<lparr>b_dirty := True\<rparr>) ?s"
  note e = log_write_eq [OF i(1) assms(4) i(4,3) assms(5) sec]
  have tx: "txn ?t = (if sec \<in> set (txn s) then txn s else txn s @ [sec])"
    using i by (simp add: upd_buf_def) (simp add: txn_def nat_add_distrib take_Suc_conv_app_nth)
  have v: "bio_ok ?t" "view_of ?t = v_pin sec (view_of s)"
    using pin_frame(1,2) [OF assms(1,2)]
    by (simp_all add: upd_buf_def bio_ok_def binv_def view_of_def)
  have "log_inv ?t" using assms(1,3) tx v i by (auto simp: log_inv_def upd_buf_def home_ok_def v_pin_def view_of_def split: if_splits)
  then show ?thesis using e tx v by auto
qed

text \<open>
  C16: \<open>log_write\<close> on a buffer that the caller holds returns while the transaction has
  fewer than \<open>log.size - 1\<close> blocks: it pins the block in the cache, leaves the contents of the blocks and the
  disk alone, adds the sector to the header unless it is there already, and keeps
  the invariant of the log.
\<close>

theorem log_write_correct:
  assumes "log_inv s" "holds s b sec" "home_ok s sec" "lh_n s < log_size s - 1" "1 \<le> outstanding s"
  shows "\<exists>t. log_write b s = Ret () t \<and> log_inv t \<and> view_of t = v_pin sec (view_of s)
    \<and> txn t = (if sec \<in> set (txn s) then txn s else txn s @ [sec])"
  using log_write_runs [OF assms] .

section \<open>The end of an operation\<close>

lemma commit_keeps:
  assumes "log_inv s" "v_busy (view_of s) = {}"
  shows "\<exists>t. commit s = Ret () t \<and> log_inv t \<and> lh_n t = 0 \<and> v_busy (view_of t) = {} \<and> bframe (s\<lparr>lh_n := 0\<rparr>) t
    \<and> (\<forall>x. x \<notin> log_area (log_start s) 29 \<longrightarrow> disk t x = block s x)"
proof -
  let ?a = "log_start s" and ?xs = "txn s" and ?d = "disk s" and ?b = "block s"
  let ?ws = "if ?xs = [] then [] else commit_writes ?a ?xs ?b"
  note f = log_inv_fields [OF assms(1)] and l = log_inv_layout [OF assms(1)]
  have clean: "?b x = ?d x" if "x \<notin> set ?xs" for x using clean_block [OF f(1)] assms(2) f(8) that by simp
  have sub: "log_area ?a (length ?xs) \<subseteq> log_area ?a 29" by (rule log_area_mono [OF l(3)])
  obtain t where t: "commit s = Ret () t" "bio_ok t" "lh_n t = 0" "bframe (s\<lparr>lh_n := 0\<rparr>) t" "view_of t = v_writes ?ws (view_of s)"
    using log_inv_commit [OF assms] by metis
  note g = bframe_log [OF t(4), simplified]
  have dt: "disk t = apply_writes ?ws ?d" using arg_cong [OF t(5), of v_disk] by (simp add: view_of_def v_writes_def)
  have d: "head_secs ?a (disk t) = [] \<and> (x \<notin> log_area ?a 29 \<longrightarrow> disk t x = ?b x)" for x
  proof (cases "?xs = []")
    case True
    then show ?thesis using dt f(4) clean by simp
  next
    case False
    then show ?thesis
      using commit_done [where d = ?d and b = ?b, OF l(1) _ block_length [OF assms(1) f(7)]] l(3) clean sub dt by auto
  qed
  have d1: "disk t 1 = ?d 1" using d [of 1] clean [OF f(6)] log_area_not_1 [OF assms(1)] by simp
  have "v_dirty (view_of t) = {}"
    using arg_cong [OF t(5), of v_dirty] f(8) commit_writes_fst [of ?a ?xs ?b] by (auto simp: v_writes_def split: if_splits)
  then have "log_inv t"
    using assms(1) t(2,3) g d d1 by (simp add: log_inv_def txn_def)
  then show ?thesis using t assms(2) d by (auto intro!: exI [of _ t])
qed

text \<open>
  C15: the end of the last outstanding operation returns with the transaction on the disk:
  outside the log, the disk holds what the cache held before, the log is empty and open for
  new operations.
\<close>

theorem end_op_durable:
  assumes "log_inv s" "v_busy (view_of s) = {}" "outstanding s = 1" "\<not> committing s"
  shows "\<exists>t. end_op s = Ret () t \<and> log_inv t \<and> outstanding t = 0 \<and> \<not> committing t \<and> txn t = []
    \<and> (\<forall>x. x \<notin> log_area (log_start s) 29 \<longrightarrow> disk t x = block s x)"
proof -
  let ?s = "s\<lparr>outstanding := 0, committing := True\<rparr>"
  have h: "held s = []" using log_inv_fields(1) [OF assms(1)] by (simp add: bio_ok_def)
  have v: "view_of ?s = view_of s" by (simp add: view_of_def)
  have i: "log_inv ?s" using assms(1) v by (simp add: log_inv_def txn_def home_ok_def bio_ok_def binv_def)
  obtain u where u: "commit ?s = Ret () u" "log_inv u" "lh_n u = 0" "bframe (?s\<lparr>lh_n := 0\<rparr>) u"
      "\<forall>x. x \<notin> log_area (log_start s) 29 \<longrightarrow> disk u x = block s x"
    using commit_keeps [OF i] v assms(2) by auto
  have hu: "held u = []" using log_inv_fields(1) [OF u(2)] by (simp add: bio_ok_def)
  let ?t = "wakeup1 Ch_log (u\<lparr>committing := False\<rparr>)"
  have e: "s\<lparr>outstanding := 0, committing := True, held := []\<rparr> = ?s" using h by simp
  have "end_op s = bindR (commit (s\<lparr>outstanding := 0, committing := True, held := []\<rparr>)) (\<lambda>_ s.
      bindR (acquire L_log s) (\<lambda>_ s. bindR (wakeup Ch_log (s\<lparr>committing := False\<rparr>)) (\<lambda>_ s. release L_log s)))"
    using h assms(3,4) by (simp add: end_op_def Let_def)
  also have "\<dots> = Ret () ?t" using hu by (simp add: e u(1) wakeup_Ret) (simp add: wakeup1_def)
  finally have "end_op s = Ret () ?t" .
  moreover have "log_inv ?t"
    using u(2) by (simp add: log_inv_def txn_def home_ok_def bio_ok_def binv_def view_of_def wakeup1_def)
  ultimately show ?thesis using u(3,5) bframe_log(6) [OF u(4)]
    by (intro exI [of _ ?t]) (simp add: wakeup1_def txn_def)
qed

section \<open>A running system\<close>

text \<open>
  The machine of the demonstrations after \<open>initlog\<close>, on a disk of 100 blocks whose last 30 are the log;
  an operation that has modified block 40; and the same after its buffer is released.
\<close>

definition demo_disk :: "u32 \<Rightarrow> u8 list" where
  "demo_disk = (\<lambda>_. replicate 512 0)(1 := put32 (put32 (replicate 512 0) 0 100) 12 30)"

definition log_on :: "(u32 \<Rightarrow> u8 list) \<Rightarrow> logst" where
  "log_on d = binit (bst.extend (vmst.extend demo (bst.fields (replicate 31 zero_buf) d 100 []))
     (logst.fields 70 30 1 False 1 0 (replicate 30 0)))"

lemma log_on_ok:
  assumes "\<forall>sec<100. length (d sec) = 512" "get32 (d 1) 0 - get32 (d 1) 12 = 70" "head_secs 70 d = []"
  shows "log_inv (log_on d)" "v_busy (view_of (log_on d)) = {}" "txn (log_on d) = []" "disksize (log_on d) = 100"
  "log_start (log_on d) = 70" "log_size (log_on d) = 30" "outstanding (log_on d) = 1" "\<not> committing (log_on d)"
  "disk (log_on d) = d" "held (log_on d) = []" "lh_n (log_on d) = 0"
proof -
  let ?l = "log_on d"
  let ?s = "bst.extend (vmst.extend demo (bst.fields (replicate 31 zero_buf) d 100 []))
     (logst.fields 70 30 1 False 1 0 (replicate 30 0)) :: logst"
  note ds = bst.defs vmst.defs logst.defs demo_def
  have "\<forall>sec<disksize ?s. length (disk ?s sec) = 512" using assms(1) by (simp add: ds)
  then obtain bs where bs: "binit ?s = ?s\<lparr>bufs := bs\<rparr>" "binv (?s\<lparr>bufs := bs\<rparr>)" "busy_secs bs = {}" "dirty_secs bs = {}"
    using binit_zero [of ?s] by (auto simp: ds)
  have e: "?l = ?s\<lparr>bufs := bs\<rparr>" by (simp only: log_on_def bs(1))
  have f: "disksize ?l = 100" "log_start ?l = 70" "log_size ?l = 30" "outstanding ?l = 1"
    "\<not> committing ?l" "disk ?l = d" "held ?l = []" "lh_n ?l = 0"
    "lh_sector ?l = replicate 30 0" "log_dev ?l = 1" "bufs ?l = bs"
    by (simp_all add: e ds)
  show "disksize ?l = 100" "log_start ?l = 70" "log_size ?l = 30" "outstanding ?l = 1"
    "\<not> committing ?l" "disk ?l = d" "held ?l = []" "lh_n ?l = 0" by (simp_all add: f)
  show "v_busy (view_of ?l) = {}" "txn ?l = []" by (simp_all add: f view_of_def txn_def bs)
  have "bio_ok ?l" using bs(2) f(7) by (simp add: bio_ok_def e)
  then show "log_inv ?l" using assms(2,3) by (simp add: log_inv_def f txn_def view_of_def bs)
qed

lemma demo_disk_sb: "get32 (demo_disk 1) 0 = 100" "get32 (demo_disk 1) 12 = 30"
  by (simp_all add: demo_disk_def get32_put32_same get32_put32_other)

lemma demo_disk_facts:
  "\<forall>sec<100. length (demo_disk sec) = 512" "get32 (demo_disk 1) 0 - get32 (demo_disk 1) 12 = 70" "head_secs 70 demo_disk = []"
  by (simp_all add: demo_disk_sb) (simp_all add: demo_disk_def head_secs_def get32_def get8_def)

definition demo_log :: logst where
  "demo_log = log_on demo_disk"

lemmas demo_log_ok =
  log_on_ok [OF demo_disk_facts, folded demo_log_def]

lemma log_inv_frame:
  assumes "log_inv s" "bframe s t" "bio_ok t" "v_disk (view_of t) = v_disk (view_of s)" "v_dirty (view_of t) = v_dirty (view_of s)"
  shows "log_inv t" "txn t = txn s"
proof -
  note f = bframe_log [OF assms(2)]
  show tx: "txn t = txn s" by (simp add: txn_def f)
  have "disk t = disk s" using assms(4) by (simp add: view_of_def)
  then show "log_inv t" using assms(1,3,5) f tx by (simp add: log_inv_def home_ok_def)
qed

text \<open>Block 40 in the hands of a process that has changed it, before and after \<open>log_write\<close>.\<close>

lemma demo_held:
  "\<exists>b s :: logst. log_inv s \<and> holds s b 40 \<and> home_ok s 40 \<and> lh_n s = 0 \<and> log_size s = 30 \<and> outstanding s = 1
    \<and> \<not> committing s \<and> txn s = [] \<and> block s 40 = replicate 512 7 \<and> disk s = demo_disk \<and> v_busy (view_of s) = {40} \<and> log_start s = 70"
proof -
  note i = demo_log_ok
  have "card (pinned (view_of demo_log)) < 30" using i(2,3) log_inv_fields(8) [OF i(1)] by (simp add: card_pinned)
  then obtain b t where t: "bread ROOTDEV 40 demo_log = Ret b t" "bio_ok t" "view_of t = v_read 40 (view_of demo_log)"
      "bframe demo_log t" "holds t b 40"
    using bio.rd_law [OF log_inv_fields(1) [OF i(1)], of 40] i(2,4) by auto
  let ?u = "put_data b (replicate 512 7) t"
  have u: "bio_ok ?u" "view_of ?u = v_modify 40 (replicate 512 7) (view_of t)" "bframe t ?u" "holds ?u b 40"
    using bio.put_law [OF t(2,5), of "replicate 512 7"] t(5) by auto
  have f: "bframe demo_log ?u" by (rule bframe_trans [OF t(4) u(3)])
  note g = bframe_log [OF f]
  have v: "v_disk (view_of ?u) = v_disk (view_of demo_log)" "v_dirty (view_of ?u) = v_dirty (view_of demo_log)"
    "v_busy (view_of ?u) = {40}" "v_block (view_of ?u) 40 = replicate 512 7"
    using i(2) by (simp_all add: u(2) t(3) v_modify_def v_read_def)
  note l = log_inv_frame [OF i(1) f u(1) v(1,2)]
  have "home_ok ?u 40" using i(4,5) g log_block_unat [of 70 100]
    by (auto simp: home_ok_def log_area_def dest: arg_cong [of _ _ unat])
  then show ?thesis using l u(4) i g v by (intro exI [of _ b] exI [of _ ?u]) (simp add: view_of_def)
qed

lemma demo_txn:
  "\<exists>s :: logst. log_inv s \<and> v_busy (view_of s) = {} \<and> txn s = [40] \<and> outstanding s = 1 \<and> \<not> committing s
    \<and> log_start s = 70 \<and> disk s = demo_disk \<and> block s 40 = replicate 512 7"
proof -
  obtain b and s :: logst where s: "log_inv s" "holds s b 40" "home_ok s 40" "lh_n s = 0" "log_size s = 30" "outstanding s = 1"
      "\<not> committing s" "txn s = []" "block s 40 = replicate 512 7" "disk s = demo_disk" "v_busy (view_of s) = {40}" "log_start s = 70"
    using demo_held by blast
  have len: "length (bufs s) = 31" using log_inv_fields(1) [OF s(1)] mru_length by (auto simp: bio_ok_def binv_def)
  have e: "log_write b s = Ret () (upd_buf b (\<lambda>x. x\<lparr>b_dirty := True\<rparr>)
      (s\<lparr>lh_sector := (lh_sector s)[0 := 40], lh_n := 1\<rparr>))"
    using log_write_eq [of s b 40] s by (simp add: holds_def log_inv_def)
  obtain t where t: "log_write b s = Ret () t" "log_inv t" "view_of t = v_pin 40 (view_of s)" "txn t = [40]"
    using log_write_runs [OF s(1-3)] s(4-6,8) by auto
  have tt: "outstanding t = 1" "\<not> committing t" "log_start t = 70" "holds t b 40"
    using e t(1) s(2,6,7,12) len by (auto simp: upd_buf_def holds_def nth_list_update)
  have "40 \<in> v_dirty (view_of t)" using t(3) by (simp add: v_pin_def)
  then obtain u where u: "brelse b t = Ret () u" "bio_ok u" "view_of u = v_release 40 (view_of t)" "bframe t u"
    using bio.rel_law [OF log_inv_fields(1) [OF t(2)] tt(4)] by blast
  have vs: "v_disk (view_of s) = demo_disk" "v_block (view_of s) 40 = replicate 512 7"
    using s(9,10) by (simp_all add: view_of_def)
  have v: "v_disk (view_of u) = v_disk (view_of t)" "v_dirty (view_of u) = v_dirty (view_of t)"
    "v_busy (view_of u) = {}" "v_disk (view_of u) = demo_disk" "v_block (view_of u) 40 = replicate 512 7"
    using s(11) vs by (simp_all add: u(3) t(3) v_release_def v_pin_def)
  show ?thesis using log_inv_frame [OF t(2) u(4,2) v(1,2)] bframe_log [OF u(4)] t(4) tt v(3-5)
    by (intro exI [of _ u]) (simp add: view_of_def)
qed

theorem commit_atomic_witness:
  "\<exists>s :: logst. txn s = [40] \<and> disk s = demo_disk \<and> block s 40 = replicate 512 7
    \<and> (\<exists>t ws. commit s = Ret () t \<and> wtrace t = wtrace s @ ws \<and> disk t = apply_writes ws (disk s)
    \<and> (\<forall>k. \<exists>u. initlog (reboot (apply_writes (take k ws) (disk s)) s) = Ret () u
         \<and> ((\<forall>x. x \<notin> log_area 70 29 \<longrightarrow> disk u x = disk s x)
            \<or> (\<forall>x. x \<notin> log_area 70 29 \<longrightarrow> disk u x = block s x))))"
proof -
  obtain s :: logst where s: "log_inv s" "v_busy (view_of s) = {}" "txn s = [40]" "log_start s = 70" "disk s = demo_disk"
      "block s 40 = replicate 512 7"
    using demo_txn by blast
  show ?thesis using commit_atomic [OF s(1,2), unfolded s(4)] s(3,5,6) by blast
qed

theorem log_write_correct_witness:
  "\<exists>b s t :: logst. log_write b s = Ret () t \<and> log_inv t \<and> view_of t = v_pin 40 (view_of s) \<and> txn t = [40]"
proof -
  obtain b and s :: logst where "log_inv s" "holds s b 40" "home_ok s 40" "lh_n s = 0" "log_size s = 30" "outstanding s = 1" "txn s = []"
    using demo_held by blast
  then show ?thesis using log_write_correct [of s b 40] by auto
qed

theorem end_op_durable_witness:
  "\<exists>s t :: logst. end_op s = Ret () t \<and> log_inv t \<and> txn t = [] \<and> disk t 40 = replicate 512 7 \<and> disk s 40 = replicate 512 0"
proof -
  obtain s :: logst where s: "log_inv s" "v_busy (view_of s) = {}" "txn s = [40]" "outstanding s = 1" "\<not> committing s"
      "disk s = demo_disk" "block s 40 = replicate 512 7"
    using demo_txn by blast
  have "40 \<notin> log_area (log_start s) 29" using s(1,3) by (simp add: log_inv_def home_ok_def)
  moreover have "disk s 40 = replicate 512 0" by (simp add: s(6) demo_disk_def)
  ultimately show ?thesis using end_op_durable [OF s(1,2,4,5)] s(7) by metis
qed

end
