(* ===== verification/Bio_Spec.thy ===== *)
theory Bio_Spec
  imports Bio_Cache Vm_Map
begin

text \<open>
  What the buffer cache promises: a block that is read is the block that was last written, and
  the buffers are recycled in the order of their last use.
\<close>

section \<open>The cache as a list in the order of use\<close>

text \<open>
  The specification of the replacement policy: \<open>xs\<close> has the buffers in the order of their
  last use. A buffer with the sector is taken where there is one; otherwise the buffer that
  has not been used for longest among those that are neither held nor dirty.
\<close>

datatype choice = Hit nat | Busy nat | Recycle nat | Full

definition lru_choice :: "buf list \<Rightarrow> u32 \<Rightarrow> u32 \<Rightarrow> nat list \<Rightarrow> choice" where
  "lru_choice bs dev sec xs =
     (case find (\<lambda>i. b_dev (bs ! i) = dev \<and> b_sector (bs ! i) = sec) xs of
        Some i \<Rightarrow> if b_busy (bs ! i) then Busy i else Hit i
      | None \<Rightarrow>
          (case filter (\<lambda>i. \<not> b_busy (bs ! i) \<and> \<not> b_dirty (bs ! i)) xs of
             [] \<Rightarrow> Full
           | ys \<Rightarrow> Recycle (List.last ys)))"

lemma lru_choice_Recycle:
  assumes "find (\<lambda>i. b_dev (bs ! i) = dev \<and> b_sector (bs ! i) = sec) xs = None"
    and "filter (\<lambda>i. \<not> b_busy (bs ! i) \<and> \<not> b_dirty (bs ! i)) xs = ys" "ys \<noteq> []"
  shows "lru_choice bs dev sec xs = Recycle (List.last ys)"
  using assms by (simp add: lru_choice_def split: list.split)

lemma find_rev_last:
  "find P (rev xs) = (if filter P xs = [] then None else Some (List.last (filter P xs)))"
proof (induction xs rule: rev_induct)
  case (snoc x xs)
  then show ?case by simp
qed simp

lemma bget_choice:
  assumes "held s = []" "mru (bufs s) xs"
  shows "bget dev sec s =
    (case lru_choice (bufs s) dev sec xs of
       Hit b \<Rightarrow> Ret b (upd_buf b (\<lambda>x. x\<lparr>b_busy := True\<rparr>) s)
     | Busy b \<Rightarrow> bindR (sleep (Ch_buf b) L_bcache (s\<lparr>held := [L_bcache]\<rparr>)) (\<lambda>_ s. NoFuel)
     | Recycle b \<Rightarrow> Ret b (upd_buf b (\<lambda>x. x\<lparr>b_dev := dev, b_sector := sec, b_busy := True,
                        b_valid := False, b_dirty := False\<rparr>) s)
     | Full \<Rightarrow> Panic ''bget: no buffers'')"
proof -
  have e: "s\<lparr>held := [], bufs := x\<rparr> = s\<lparr>bufs := x\<rparr>" for x using assms(1) by simp
  show ?thesis using assms(1) scan_mru [OF assms(2)]
    by (auto simp: bget_def lru_choice_def find_rev_last upd_buf_def e split: option.split list.split)
qed

lemma brelse_front:
  assumes "held s = []" "mru (bufs s) xs" "b < 30" "b_busy (bufs s ! b)"
  shows "\<exists>t. brelse b s = Ret () t \<and> mru (bufs t) (b # remove1 b xs)"
proof -
  have len: "length (bufs s) = 31" by (rule mru_length [OF assms(2)])
  show ?thesis using brelse_eq [OF assms(1,4,3) len] mru_upd [OF mru_move_front [OF assms(2,3)]]
    by (auto simp: wakeup1_def)
qed

text \<open>
  C17: the doubly linked list of \<open>bcache\<close> implements the replacement policy: \<open>bget\<close> takes
  the cached buffer, sleeps when it is busy, recycles the least recently used buffer that is free and
  clean, and panics when there is none; it leaves the order alone, and \<open>brelse\<close> moves the
  buffer to the front.
\<close>

theorem bcache_refines_lru:
  assumes "held s = []" "mru (bufs s) xs"
  shows "(case lru_choice (bufs s) dev sec xs of
       Hit b \<Rightarrow> bget dev sec s = Ret b (upd_buf b (\<lambda>x. x\<lparr>b_busy := True\<rparr>) s)
     | Busy b \<Rightarrow> bget dev sec s = bindR (sleep (Ch_buf b) L_bcache (s\<lparr>held := [L_bcache]\<rparr>)) (\<lambda>_ s. NoFuel)
     | Recycle b \<Rightarrow> bget dev sec s = Ret b (upd_buf b (\<lambda>x. x\<lparr>b_dev := dev, b_sector := sec, b_busy := True,
                        b_valid := False, b_dirty := False\<rparr>) s)
     | Full \<Rightarrow> bget dev sec s = Panic ''bget: no buffers'')
    \<and> (\<forall>b t. bget dev sec s = Ret b t \<longrightarrow> mru (bufs t) xs)
    \<and> (\<forall>b<30. b_busy (bufs s ! b) \<longrightarrow> (\<exists>t. brelse b s = Ret () t \<and> mru (bufs t) (b # remove1 b xs)))"
proof (intro conjI allI impI)
  show "case lru_choice (bufs s) dev sec xs of
       Hit b \<Rightarrow> bget dev sec s = Ret b (upd_buf b (\<lambda>x. x\<lparr>b_busy := True\<rparr>) s)
     | Busy b \<Rightarrow> bget dev sec s = bindR (sleep (Ch_buf b) L_bcache (s\<lparr>held := [L_bcache]\<rparr>)) (\<lambda>_ s. NoFuel)
     | Recycle b \<Rightarrow> bget dev sec s = Ret b (upd_buf b (\<lambda>x. x\<lparr>b_dev := dev, b_sector := sec, b_busy := True,
                        b_valid := False, b_dirty := False\<rparr>) s)
     | Full \<Rightarrow> bget dev sec s = Panic ''bget: no buffers''"
    by (simp add: bget_choice [OF assms] split: choice.split)
  show "mru (bufs t) xs" if "bget dev sec s = Ret b t" for b t
    using that mru_upd [OF assms(2)]
    by (auto simp: bget_choice [OF assms] upd_buf_def bindR_eq_Ret split: choice.splits)
  show "\<exists>t. brelse b s = Ret () t \<and> mru (bufs t) (b # remove1 b xs)" if "b < 30" "b_busy (bufs s ! b)" for b
    by (rule brelse_front [OF assms that])
qed

section \<open>Reading and writing blocks\<close>

lemma finite_pinned: "finite (pinned (view_of s))"
proof -
  have "pinned (view_of s) \<subseteq> (\<lambda>i. b_sector (bufs s ! i)) ` {..<30}"
    by (auto simp: pinned_def view_of_def busy_secs_def dirty_secs_def cached_def find_Some_iff)
  then show ?thesis by (rule finite_subset) simp
qed

text \<open>
  C18: \<open>bread\<close> of a sector that nobody holds returns while fewer than \<open>NBUF\<close> sectors are held
  or dirty; the buffer has the block as it was last written through the cache, and the
  contents of all blocks and the disk stay as they are.
\<close>

theorem bread_correct:
  assumes "bio_ok s" "sec < disksize s" "sec \<notin> v_busy (view_of s)" "card (pinned (view_of s)) < 30"
  shows "\<exists>b t. bread ROOTDEV sec s = Ret b t \<and> bio_ok t \<and> holds t b sec \<and> b_data (bufs t ! b) = block s sec
    \<and> block t = block s \<and> disk t = disk s \<and> wtrace t = wtrace s
    \<and> v_busy (view_of t) = insert sec (v_busy (view_of s)) \<and> v_dirty (view_of t) = v_dirty (view_of s)"
proof -
  obtain b t where t: "bread ROOTDEV sec s = Ret b t" "bio_ok t" "view_of t = v_read sec (view_of s)" "holds t b sec"
    using bio.rd_law [OF assms(1-3)] assms(4) by blast
  have v: "block t = block s" "disk t = disk s" "wtrace t = wtrace s"
    using arg_cong [OF t(3), of v_block] arg_cong [OF t(3), of v_disk] arg_cong [OF t(3), of v_trace]
    by (simp_all add: view_of_def v_read_def)
  have "b_data (bufs t ! b) = block s sec" using bio.get_law [OF t(2,4)] v(1) by (simp add: view_of_def)
  then show ?thesis using t v by (intro exI [of _ b] exI [of _ t]) (simp add: v_read_def)
qed

text \<open>
  C19: a block that is read, overwritten, written with \<open>bwrite\<close> and released is on the disk, alone of all
  sectors; what the other sectors contain is unchanged, and reading the sector again gives the new data.
\<close>

theorem write_then_read:
  assumes "bio_ok s" "sec < disksize s" "sec \<notin> v_busy (view_of s)" "card (pinned (view_of s)) < 30" "length d = 512"
  shows "\<exists>b t1 t2 t c u. bread ROOTDEV sec s = Ret b t1 \<and> bwrite b (put_data b d t1) = Ret () t2 \<and> brelse b t2 = Ret () t
    \<and> disk t = (disk s)(sec := d) \<and> block t = (block s)(sec := d) \<and> wtrace t = wtrace s @ [(sec, d)]
    \<and> bread ROOTDEV sec t = Ret c u \<and> b_data (bufs u ! c) = d"
proof -
  obtain b t1 where t1: "bread ROOTDEV sec s = Ret b t1" "bio_ok t1" "view_of t1 = v_read sec (view_of s)" "bframe s t1" "holds t1 b sec"
    using bio.rd_law [OF assms(1-3)] assms(4) by blast
  let ?u = "put_data b d t1"
  have u: "bio_ok ?u" "view_of ?u = v_modify sec d (view_of t1)" "bframe t1 ?u" "holds ?u b sec"
    using bio.put_law [OF t1(2,5) assms(5)] t1(5) by auto
  have "sec < disksize ?u" using assms(2) bframeD(2) [OF bframe_trans [OF t1(4) u(3)]] by simp
  then obtain t2 where t2: "bwrite b ?u = Ret () t2" "bio_ok t2" "view_of t2 = v_write sec (view_of ?u)" "bframe ?u t2" "holds t2 b sec"
    using bio.wr_law [OF u(1,4)] u(4) by blast
  have "v_block (view_of t2) sec = v_disk (view_of t2) sec" by (simp add: t2(3) v_write_def)
  then obtain t where t: "brelse b t2 = Ret () t" "bio_ok t" "view_of t = v_release sec (view_of t2)" "bframe t2 t"
    using bio.rel_law [OF t2(2,5)] by blast
  have w: "view_of t = (view_of s)\<lparr>v_block := (v_block (view_of s))(sec := d), v_disk := (v_disk (view_of s))(sec := d),
      v_trace := v_trace (view_of s) @ [(sec, d)], v_dirty := v_dirty (view_of s) - {sec}\<rparr>"
    using assms(3) by (simp add: t(3) t2(3) u(2) t1(3) v_release_def v_write_def v_modify_def v_read_def)
  have vt: "block t = (block s)(sec := d)" "disk t = (disk s)(sec := d)" "wtrace t = wtrace s @ [(sec, d)]"
    using arg_cong [OF w, of v_block] arg_cong [OF w, of v_disk] arg_cong [OF w, of v_trace] by (simp_all add: view_of_def)
  have n: "sec < disksize t" using assms(2) bframeD(2) t1(4) u(3) t2(4) t(4) by metis
  have "pinned (view_of t) \<subseteq> pinned (view_of s)" by (auto simp: w pinned_def)
  from card_mono [OF finite_pinned this] have "card (pinned (view_of t)) < 30" using assms(4) by simp
  then obtain c v where v: "bread ROOTDEV sec t = Ret c v" "bio_ok v" "view_of v = v_read sec (view_of t)" "holds v c sec"
    using bio.rd_law [OF t(2) n] assms(3) w by auto
  have "b_data (bufs v ! c) = d" using bio.get_law [OF v(2,4)] v(3) w by (simp add: v_read_def)
  then show ?thesis using t1(1) t2(1) t(1) v(1) vt by blast
qed

section \<open>A running system\<close>

definition demo_bst :: bst where
  "demo_bst = vmst.extend demo (bst.fields (replicate 31 zero_buf) (\<lambda>_. replicate 512 0) 100 [])"

lemma demo_bst_ok:
  "bio_ok (binit demo_bst) \<and> pinned (view_of (binit demo_bst)) = {}
    \<and> disksize (binit demo_bst) = 100 \<and> block (binit demo_bst) = (\<lambda>_. replicate 512 0) \<and> disk (binit demo_bst) = (\<lambda>_. replicate 512 0)"
proof -
  note ds = bst.defs vmst.defs demo_def demo_bst_def
  obtain bs where bs: "binit demo_bst = demo_bst\<lparr>bufs := bs\<rparr>" "binv (demo_bst\<lparr>bufs := bs\<rparr>)" "content bs (disk demo_bst) = disk demo_bst"
      "busy_secs bs = {}" "dirty_secs bs = {}"
    using binit_zero [of demo_bst] by (auto simp: ds)
  have f: "disksize demo_bst = 100" "disk demo_bst = (\<lambda>_. replicate 512 0)" "held demo_bst = []" by (simp_all add: ds)
  show ?thesis using bs by (simp add: f bio_ok_def pinned_def view_of_def)
qed

theorem bread_correct_witness:
  "\<exists>b t. bread ROOTDEV 7 (binit demo_bst) = Ret b t \<and> b_data (bufs t ! b) = replicate 512 0"
proof -
  have d: "bio_ok (binit demo_bst)" "pinned (view_of (binit demo_bst)) = {}" "disksize (binit demo_bst) = 100"
      "block (binit demo_bst) = (\<lambda>_. replicate 512 0)"
    using demo_bst_ok by blast+
  have "7 \<notin> v_busy (view_of (binit demo_bst))" using d(2) by (simp add: pinned_def)
  then show ?thesis using bread_correct [OF d(1), of 7] d(2-4) by auto
qed

theorem write_then_read_witness:
  "\<exists>b t1 t2 t c u. bread ROOTDEV 7 (binit demo_bst) = Ret b t1
    \<and> bwrite b (put_data b (replicate 512 9) t1) = Ret () t2 \<and> brelse b t2 = Ret () t
    \<and> disk t = (\<lambda>_. replicate 512 0)(7 := replicate 512 9) \<and> bread ROOTDEV 7 t = Ret c u \<and> b_data (bufs u ! c) = replicate 512 9"
proof -
  have d: "bio_ok (binit demo_bst)" "pinned (view_of (binit demo_bst)) = {}" "disksize (binit demo_bst) = 100"
      "disk (binit demo_bst) = (\<lambda>_. replicate 512 0)"
    using demo_bst_ok by blast+
  have n: "7 \<notin> v_busy (view_of (binit demo_bst))" using d(2) by (simp add: pinned_def)
  from write_then_read [OF d(1) _ n, of "replicate 512 9"] d(2,3)
  have "\<exists>b t1 t2 t c u. bread ROOTDEV 7 (binit demo_bst) = Ret b t1
    \<and> bwrite b (put_data b (replicate 512 9) t1) = Ret () t2 \<and> brelse b t2 = Ret () t
    \<and> disk t = (disk (binit demo_bst))(7 := replicate 512 9)
    \<and> block t = (block (binit demo_bst))(7 := replicate 512 9) \<and> wtrace t = wtrace (binit demo_bst) @ [(7, replicate 512 9)]
    \<and> bread ROOTDEV 7 t = Ret c u \<and> b_data (bufs u ! c) = replicate 512 9" by simp
  then show ?thesis unfolding d(4) by blast
qed

theorem bcache_refines_lru_witness:
  "bget 1 7 (binit demo_bst) = Ret 0 (upd_buf 0 (\<lambda>x. x\<lparr>b_dev := 1, b_sector := 7, b_busy := True,
      b_valid := False, b_dirty := False\<rparr>) (binit demo_bst))"
proof -
  have "length (bufs demo_bst) = 31" by (simp add: demo_bst_def bst.defs vmst.defs demo_def)
  from binit_mru [OF this] obtain bs where bs: "binit demo_bst = demo_bst\<lparr>bufs := bs\<rparr>" "mru bs (rev [0..<30])"
      "\<forall>i<30. core (bs ! i) = (core (bufs demo_bst ! i))\<lparr>b_dev := -1\<rparr>" by blast
  have c: "core (bs ! i) = zero_buf\<lparr>b_dev := -1\<rparr>" if "i < 30" for i
    using bs(3) that by (simp add: demo_bst_def bst.defs vmst.defs demo_def core_def zero_buf_def)
  have x: "b_dev (bs ! i) = -1" "\<not> b_busy (bs ! i)" "\<not> b_dirty (bs ! i)" if "i < 30" for i
    using arg_cong [OF c [OF that], of b_dev] arg_cong [OF c [OF that], of b_busy] arg_cong [OF c [OF that], of b_dirty]
    by (simp_all add: zero_buf_def)
  let ?xs = "rev [0..<30]"
  have a: "find (\<lambda>i. b_dev (bs ! i) = 1 \<and> b_sector (bs ! i) = 7) ?xs = None" using x(1) by (auto simp: find_None_iff)
  have f: "filter (\<lambda>i. \<not> b_busy (bs ! i) \<and> \<not> b_dirty (bs ! i)) ?xs = ?xs" using x(2,3) by (intro filter_True) auto
  have l: "List.last ?xs = 0" "?xs \<noteq> []" by (simp_all add: last_rev)
  have "lru_choice bs 1 7 ?xs = Recycle 0" by (rule lru_choice_Recycle [OF a f l(2), unfolded l(1)])
  then have ch: "lru_choice (bufs (binit demo_bst)) 1 7 ?xs = Recycle 0" by (simp add: bs(1))
  have "held (binit demo_bst) = []" "mru (bufs (binit demo_bst)) ?xs"
    using bs(2) by (simp_all add: bs(1)) (simp add: demo_bst_def bst.defs vmst.defs demo_def)
  from bcache_refines_lru [OF this, of 1 7] show ?thesis by (simp add: ch)
qed

end
