(* ===== verification/Demo.thy ===== *)
theory Demo
  imports Process Vm_Map
begin

text \<open>
  A machine with one running process, an empty file system cache and empty tables, at which the
  properties of the upper layers are instantiated.
\<close>

definition zero_inode :: inode where
  "zero_inode = \<lparr>i_dev = 0, i_inum = 0, i_ref = 0, i_busy = False, i_valid = False, i_type = 0, i_major = 0,
     i_minor = 0, i_nlink = 0, i_size = 0, i_addrs = replicate 13 0\<rparr>"

definition zero_file :: ofile_entry where
  "zero_file = \<lparr>f_type = FD_NONE, f_ref = 0, f_readable = False, f_writable = False, f_pipe = 0, f_ip = 0, f_off = 0\<rparr>"

definition demo_sys :: sysst where
  "demo_sys =
     ftst.extend (cnst.extend (icst.extend (logst.extend (bst.extend
       (vmst.extend demo (bst.fields (replicate 31 zero_buf) (\<lambda>_. replicate 512 0) 100 []))
       (logst.fields 70 30 0 False 1 0 (replicate 30 0)))
       (icst.fields (replicate 50 zero_inode)))
       (cnst.fields (replicate 128 0) 0 0 0 True False (\<lambda>_. 0x0720) 0 True [] [] [] 0 (replicate 10 None) (replicate 10 None)))
       (ftst.fields (\<lambda>_. zero_pipe) (replicate 100 zero_file)))
       (sysst.fields 0 0 0 True 0 [])"

lemma demo_sys_fields [simp]:
  "held demo_sys = []" "mem demo_sys = demo_mem" "ptable demo_sys = [demo_proc]" "cur demo_sys = Some 0"
  "initproc demo_sys = Some 0" "nextpid demo_sys = 2" "freelist demo_sys = 0x80101000" "use_lock demo_sys"
  "bufs demo_sys = replicate 31 zero_buf" "disk demo_sys = (\<lambda>_. replicate 512 0)" "disksize demo_sys = 100"
  "outstanding demo_sys = 0" "\<not> committing demo_sys" "log_size demo_sys = 30" "lh_n demo_sys = 0"
  "icache demo_sys = replicate 50 zero_inode" "in_buf demo_sys = replicate 128 0"
  "in_r demo_sys = 0" "in_w demo_sys = 0" "in_e demo_sys = 0" "\<not> panicked demo_sys" "crt_pos demo_sys = 0"
  "uart_on demo_sys" "uart_out demo_sys = []" "uart_in demo_sys = []" "kbd_in demo_sys = []" "kbd_shift demo_sys = 0"
  "pipes demo_sys = (\<lambda>_. zero_pipe)" "ftable demo_sys = replicate 100 zero_file" "ticks demo_sys = 0" "cr3 demo_sys = 0"
  by (simp_all add: demo_sys_def demo_def ftst.defs cnst.defs icst.defs logst.defs bst.defs vmst.defs sysst.defs)

end
