(* ===== verification/Ring.thy ===== *)
theory Ring
  imports Prelude
begin

text \<open>
  Ring buffers with 32-bit counters that only grow and wrap around: the input buffer of the
  console and the pipes. The contents of the ring is a queue, whatever the values of the counters
  are, because the size of the ring divides \<open>2 ^ 32\<close>.
\<close>

definition ring_list :: "nat \<Rightarrow> 'a list \<Rightarrow> u32 \<Rightarrow> u32 \<Rightarrow> 'a list" where
  "ring_list N d r w = map (\<lambda>i. d ! (unat (r + of_nat i) mod N)) [0..<unat (w - r)]"

lemma length_ring_list [simp]: "length (ring_list N d r w) = unat (w - r)"
  by (simp add: ring_list_def)

lemma ring_list_Nil [simp]: "ring_list N d r r = []"
  by (simp add: ring_list_def)

locale ring =
  fixes N :: nat
  assumes pos: "0 < N" and dvd: "N dvd 4294967296" and small: "N < 4294967296"
begin

text \<open>The place of the element at distance \<open>i\<close> from the counter \<open>r\<close>.\<close>

lemma place: "unat (r + of_nat i :: u32) mod N = (unat r + i) mod N"
proof -
  have "unat (r + of_nat i) = (unat r + i) mod 4294967296"
    by (simp add: unat_word_ariths unat_of_nat mod_add_right_eq)
  then show ?thesis using dvd by (simp add: mod_mod_cancel)
qed

lemma place_distinct:
  assumes "i < N" "j < N" "unat (r + of_nat i :: u32) mod N = unat (r + of_nat j :: u32) mod N"
  shows "i = j"
proof -
  have "(unat r + i) mod N = (unat r + j) mod N" using assms(3) by (simp only: place)
  then obtain p q where "unat r + i + N * p = unat r + j + N * q" by (auto simp: nat_mod_eq_iff)
  then have "i + N * p = j + N * q" by simp
  then have "i mod N = j mod N" by (metis mod_mult_self2)
  then show ?thesis using assms(1,2) by simp
qed

lemma diff_Suc: "unat (w - r :: u32) < N \<Longrightarrow> unat (w + 1 - r) = Suc (unat (w - r))"
proof -
  assume a: "unat (w - r) < N"
  have e: "w + 1 - r = (w - r) + 1" by simp
  show ?thesis unfolding e using unat_plus_no_wrap [of "w - r" 1] a small by simp
qed

lemma diff_pred: "r \<noteq> w \<Longrightarrow> unat (w - r :: u32) = Suc (unat (w - (r + 1)))"
proof -
  assume a: "r \<noteq> w"
  have e: "w - (r + 1) = (w - r) - 1" by (simp add: diff_diff_eq)
  have n: "w - r \<noteq> 0" using a by simp
  then have "unat (w - r) \<noteq> 0" by (simp only: unat_eq_zero not_False_eq_True)
  then show ?thesis unfolding e unat_minus_one [OF n] by linarith
qed

text \<open>Putting an element behind the last one, and taking the first.\<close>

lemma put:
  assumes "length d = N" "unat (w - r) < N"
  shows "ring_list N (d[unat w mod N := c]) r (w + 1) = ring_list N d r w @ [c]"
proof -
  let ?n = "unat (w - r)"
  have w: "r + of_nat ?n = w" by simp
  have "d[unat w mod N := c] ! (unat (r + of_nat i) mod N) = d ! (unat (r + of_nat i) mod N)" if "i < ?n" for i
  proof -
    have "unat w mod N \<noteq> unat (r + of_nat i) mod N"
      using place_distinct [of i ?n r] that assms(2) unfolding w by auto
    then show ?thesis by simp
  qed
  moreover have "d[unat w mod N := c] ! (unat (r + of_nat ?n) mod N) = c"
    unfolding w using assms(1) pos by simp
  ultimately show ?thesis by (simp add: ring_list_def diff_Suc [OF assms(2)])
qed

lemma get:
  assumes "r \<noteq> w"
  shows "ring_list N d r w = d ! (unat r mod N) # ring_list N d (r + 1) w"
proof -
  have "[0..<unat (w - r)] = 0 # map Suc [0..<unat (w - (r + 1))]"
    unfolding diff_pred [OF assms] by (simp only: map_Suc_upt upt_conv_Cons)
  then show ?thesis by (simp add: ring_list_def add.assoc)
qed

text \<open>Dropping the element that was put last.\<close>

lemma unput:
  assumes "r \<noteq> w"
  shows "ring_list N d r w = ring_list N d r (w - 1) @ [d ! (unat (w - 1) mod N)]"
proof -
  have e: "unat (w - r) = Suc (unat (w - 1 - r))" using diff_pred [OF assms] by (simp add: diff_diff_eq add.commute)
  have "r + of_nat (unat (w - 1 - r)) = w - 1" by simp
  then show ?thesis unfolding ring_list_def e by (simp only: upt_Suc_append le0 map_append list.map)
qed

end

interpretation pipe_ring: ring 512
  by unfold_locales simp_all

interpretation input_ring: ring 128
  by unfold_locales simp_all

end
