(* ===== verification/Pipe_Spec.thy ===== *)
theory Pipe_Spec
  imports Demo Ring
begin

text \<open>
  A pipe is a bounded queue of bytes: what is read is what was written, in order, also when
  the counters wrap around; writers wait when it is full and readers when it is empty.
\<close>

section \<open>The queue in a pipe\<close>

definition pipe_inv :: "pipe \<Rightarrow> bool" where
  "pipe_inv x \<longleftrightarrow> length (p_data x) = 512 \<and> unat (nwrite x - nread x) \<le> 512"

definition pipe_queue :: "pipe \<Rightarrow> u8 list" where
  "pipe_queue x = ring_list 512 (p_data x) (nread x) (nwrite x)"

definition pipe_put :: "u8 \<Rightarrow> pipe \<Rightarrow> pipe" where
  "pipe_put c x = x\<lparr>p_data := (p_data x)[unat (nwrite x mod 512) := c], nwrite := nwrite x + 1\<rparr>"

definition pipe_get :: "pipe \<Rightarrow> pipe" where
  "pipe_get x = x\<lparr>nread := nread x + 1\<rparr>"

lemma pipe_full: "pipe_inv x \<Longrightarrow> nwrite x = nread x + 512 \<longleftrightarrow> length (pipe_queue x) = 512"
proof -
  assume "pipe_inv x"
  have "nwrite x = nread x + 512 \<longleftrightarrow> nwrite x - nread x = 512" by (auto simp: algebra_simps)
  also have "\<dots> \<longleftrightarrow> unat (nwrite x - nread x) = 512" using word_unat_eq_iff [of "nwrite x - nread x" 512] by simp
  finally show ?thesis by (simp add: pipe_queue_def)
qed

lemma pipe_empty: "nread x = nwrite x \<longleftrightarrow> pipe_queue x = []"
proof -
  have "pipe_queue x = [] \<longleftrightarrow> unat (nwrite x - nread x) = 0" by (simp add: pipe_queue_def flip: length_0_conv)
  also have "\<dots> \<longleftrightarrow> nwrite x - nread x = 0" by (rule unat_eq_zero)
  finally show ?thesis by auto
qed

lemma pipe_put:
  assumes "pipe_inv x" "length (pipe_queue x) < 512"
  shows "pipe_inv (pipe_put c x)" "pipe_queue (pipe_put c x) = pipe_queue x @ [c]"
proof -
  have m: "unat (nwrite x mod 512) = unat (nwrite x) mod 512" by (simp add: unat_mod)
  have l: "unat (nwrite x - nread x) < 512" "length (p_data x) = 512"
    using assms by (simp_all add: pipe_queue_def pipe_inv_def)
  show "pipe_queue (pipe_put c x) = pipe_queue x @ [c]"
    using pipe_ring.put [OF l(2,1)] by (simp add: pipe_put_def pipe_queue_def m)
  show "pipe_inv (pipe_put c x)" using pipe_ring.diff_Suc [OF l(1)] l by (simp add: pipe_put_def pipe_inv_def)
qed

lemma pipe_get:
  assumes "pipe_inv x" "pipe_queue x \<noteq> []"
  shows "pipe_inv (pipe_get x)" "pipe_queue x = p_data x ! unat (nread x mod 512) # pipe_queue (pipe_get x)"
proof -
  have m: "unat (nread x mod 512) = unat (nread x) mod 512" by (simp add: unat_mod)
  have n: "nread x \<noteq> nwrite x" using assms(2) pipe_empty by auto
  show "pipe_queue x = p_data x ! unat (nread x mod 512) # pipe_queue (pipe_get x)"
    using pipe_ring.get [OF n, of "p_data x"] by (simp add: pipe_get_def pipe_queue_def m)
  show "pipe_inv (pipe_get x)" using pipe_ring.diff_pred [OF n] assms(1) by (simp add: pipe_get_def pipe_inv_def)
qed

section \<open>The loops\<close>

lemma upd_pipe_simps [simp]:
  "pipes (upd_pipe p f s) p = f (pipes s p)" "q \<noteq> p \<Longrightarrow> pipes (upd_pipe p f s) q = pipes s q"
  "held (upd_pipe p f s) = held s" "cur (upd_pipe p f s) = cur s" "ptable (upd_pipe p f s) = ptable s"
  "upd_pipe p f (upd_pipe p g s) = upd_pipe p (f \<circ> g) s"
  by (simp_all add: upd_pipe_def comp_def)

lemma upd_pipe_id [simp]: "upd_pipe p (\<lambda>x. x) s = s"
  by (simp add: upd_pipe_def)

text \<open>As long as there is room, the loop of \<open>pipewrite\<close> appends its bytes.\<close>

lemma pipewrite_loop_room:
  assumes "pipe_inv (pipes s p)" "length (pipe_queue (pipes s p)) + length bs \<le> 512"
  shows "\<exists>x. pipewrite_loop p (bs @ cs) s = pipewrite_loop p cs (upd_pipe p (\<lambda>_. x) s)
    \<and> pipe_inv x \<and> pipe_queue x = pipe_queue (pipes s p) @ bs \<and> readopen x = readopen (pipes s p)"
  using assms
proof (induction bs arbitrary: s)
  case Nil
  have "upd_pipe p (\<lambda>_. pipes s p) s = s" by (simp add: upd_pipe_def)
  then show ?case using Nil.prems by (intro exI [of _ "pipes s p"]) simp
next
  case (Cons b bs)
  let ?x = "pipe_put b (pipes s p)"
  have r: "length (pipe_queue (pipes s p)) < 512" using Cons.prems(2) by simp
  note p = pipe_put [OF Cons.prems(1) r, of b]
  obtain y where y: "pipewrite_loop p (bs @ cs) (upd_pipe p (pipe_put b) s) = pipewrite_loop p cs (upd_pipe p (\<lambda>_. y) (upd_pipe p (pipe_put b) s))"
      "pipe_inv y" "pipe_queue y = pipe_queue ?x @ bs" "readopen y = readopen ?x"
    using Cons.IH [of "upd_pipe p (pipe_put b) s"] p Cons.prems(2) by auto
  have "pipewrite_loop p ((b # bs) @ cs) s = pipewrite_loop p (bs @ cs) (upd_pipe p (pipe_put b) s)"
    using pipe_full [OF Cons.prems(1)] r by (simp add: pipe_put_def [abs_def])
  then show ?case using y p(2) by (intro exI [of _ y]) (simp add: comp_def pipe_put_def)
qed

lemma piperead_loop_takes:
  assumes "pipe_inv (pipes s p)"
  shows "\<exists>x. piperead_loop n p acc s = (acc @ take n (pipe_queue (pipes s p)), upd_pipe p (\<lambda>_. x) s)
    \<and> pipe_inv x \<and> pipe_queue x = drop n (pipe_queue (pipes s p))"
  using assms
proof (induction n arbitrary: acc s)
  case 0
  have "upd_pipe p (\<lambda>_. pipes s p) s = s" by (simp add: upd_pipe_def)
  then show ?case using 0 by (intro exI [of _ "pipes s p"]) simp
next
  case (Suc n)
  show ?case
  proof (cases "pipe_queue (pipes s p) = []")
    case True
    have "upd_pipe p (\<lambda>_. pipes s p) s = s" by (simp add: upd_pipe_def)
    then show ?thesis using Suc.prems True pipe_empty [of "pipes s p"] by (intro exI [of _ "pipes s p"]) simp
  next
    case False
    note g = pipe_get [OF Suc.prems False]
    obtain y where y: "piperead_loop n p (acc @ [p_data (pipes s p) ! unat (nread (pipes s p) mod 512)]) (upd_pipe p pipe_get s)
        = (acc @ take (Suc n) (pipe_queue (pipes s p)), upd_pipe p (\<lambda>_. y) (upd_pipe p pipe_get s))"
        "pipe_inv y" "pipe_queue y = drop (Suc n) (pipe_queue (pipes s p))"
      using Suc.IH [of "upd_pipe p pipe_get s" "acc @ [p_data (pipes s p) ! unat (nread (pipes s p) mod 512)]"] g(1)
      unfolding g(2) by auto
    have "piperead_loop (Suc n) p acc s = piperead_loop n p (acc @ [p_data (pipes s p) ! unat (nread (pipes s p) mod 512)]) (upd_pipe p pipe_get s)"
      using False pipe_empty [of "pipes s p"] by (simp add: pipe_get_def [abs_def])
    then show ?thesis using y by (intro exI [of _ y]) (simp add: comp_def)
  qed
qed

section \<open>Writing and reading\<close>

lemma pipewrite_fits:
  assumes "held s = []" "pipe_inv (pipes s p)" "length (pipe_queue (pipes s p)) + length bs \<le> 512"
  shows "\<exists>t. pipewrite p bs n s = Ret n t \<and> held t = [] \<and> pipe_inv (pipes t p)
    \<and> pipe_queue (pipes t p) = pipe_queue (pipes s p) @ bs"
proof -
  let ?s = "s\<lparr>held := [L_pipe p]\<rparr>"
  obtain x where x: "pipewrite_loop p (bs @ []) ?s = pipewrite_loop p [] (upd_pipe p (\<lambda>_. x) ?s)"
      "pipe_inv x" "pipe_queue x = pipe_queue (pipes s p) @ bs"
    using pipewrite_loop_room [of ?s p bs "[]"] assms(2,3) by auto
  let ?t = "(wakeup1 (Ch_pipe_nread p) (upd_pipe p (\<lambda>_. x) ?s))\<lparr>held := []\<rparr>"
  have "pipewrite p bs n s = Ret n ?t"
    using x(1) assms(1) by (simp add: pipewrite_def wakeup_Ret) (simp add: wakeup1_def upd_pipe_def)
  moreover have "pipes ?t p = x" by (simp add: wakeup1_def upd_pipe_def)
  ultimately show ?thesis using x(2,3) by (intro exI [of _ ?t]) simp
qed

lemma pipewrite_full:
  assumes "held s = []" "cur s = Some i" "i < length (ptable s)"
    and "pipe_inv (pipes s p)" "length (pipe_queue (pipes s p)) + length bs > 512"
  defines "q \<equiv> pipe_queue (pipes s p)"
  shows "if readopen (pipes s p) \<and> \<not> killed (ptable s ! i)
    then \<exists>t. pipewrite p bs n s = Sleep t \<and> pipe_inv (pipes t p) \<and> pipe_queue (pipes t p) = q @ take (512 - length q) bs
      \<and> state (ptable t ! i) = SLEEPING \<and> wchan (ptable t ! i) = Some (Ch_pipe_nwrite p)
    else \<exists>t. pipewrite p bs n s = Ret (-1) t \<and> held t = [] \<and> pipe_inv (pipes t p)
      \<and> pipe_queue (pipes t p) = q @ take (512 - length q) bs"
proof -
  let ?s = "s\<lparr>held := [L_pipe p]\<rparr>" and ?k = "512 - length q"
  have q: "length q \<le> 512" using assms(4) by (simp add: q_def pipe_queue_def pipe_inv_def)
  then have le: "length (pipe_queue (pipes ?s p)) + length (take ?k bs) \<le> 512" by (simp add: q_def)
  obtain c cs where c: "drop ?k bs = c # cs" using assms(5) q by (cases "drop ?k bs") (auto simp: q_def)
  obtain x where x: "pipewrite_loop p (take ?k bs @ c # cs) ?s = pipewrite_loop p (c # cs) (upd_pipe p (\<lambda>_. x) ?s)"
      "pipe_inv x" "pipe_queue x = q @ take ?k bs" "readopen x = readopen (pipes s p)"
    using pipewrite_loop_room [OF _ le, of "c # cs"] assms(4) by (auto simp: q_def simp del: pipewrite_loop.simps)
  have bs: "take ?k bs @ c # cs = bs" using c by (metis append_take_drop_id)
  have "length (pipe_queue x) = 512" using x(3) q assms(5) by (simp add: q_def)
  then have full: "nwrite x = nread x + 512" using pipe_full [OF x(2)] by simp
  let ?u = "upd_pipe p (\<lambda>_. x) ?s"
  have w: "pipewrite p bs n s = bindR (pipewrite_loop p (c # cs) ?u) (\<lambda>ok s.
     if \<not> ok then Ret (-1) s
     else bindR (wakeup (Ch_pipe_nread p) s) (\<lambda>_ s. bindR (release (L_pipe p) s) (\<lambda>_ s. Ret n s)))"
    using x(1) bs assms(1) by (simp add: pipewrite_def)
  show ?thesis
  proof (cases "readopen (pipes s p) \<and> \<not> killed (ptable s ! i)")
    case True
    let ?v = "wakeup1 (Ch_pipe_nread p) ?u"
    let ?t = "?v\<lparr>held := [L_ptable], ptable := (ptable ?v)[i := (ptable ?v ! i)\<lparr>wchan := Some (Ch_pipe_nwrite p), state := SLEEPING\<rparr>]\<rparr>"
    have v: "held ?v = [L_pipe p]" "cur ?v = Some i" "i < length (ptable ?v)" "pipes ?v p = x"
      using assms(2,3) by (simp_all add: wakeup1_def upd_pipe_def)
    have "pipewrite_loop p (c # cs) ?u = Sleep ?t"
      using full True x(4) assms(2) sleep_Sleep [OF v(1) _ v(2,3), of "Ch_pipe_nwrite p"]
      by (simp add: with_cur_def wakeup_Ret)
    then have "pipewrite p bs n s = Sleep ?t" using w by simp
    moreover have "pipes ?t p = x" using v(4) by simp
    ultimately show ?thesis using True x v(3) by auto
  next
    case False
    then have "pipewrite_loop p (c # cs) ?u = Ret False (?u\<lparr>held := []\<rparr>)"
      using full x(4) assms(2) by (simp add: with_cur_def release_def upd_pipe_def)
    then have "pipewrite p bs n s = Ret (-1) (?u\<lparr>held := []\<rparr>)" using w by simp
    moreover have "pipes (?u\<lparr>held := []\<rparr>) p = x" by (simp add: upd_pipe_def)
    ultimately show ?thesis using False x by auto
  qed
qed

text \<open>
  C23: \<open>pipewrite\<close> appends its bytes to the queue and returns their number when they fit. When
  they do not, it fills the pipe; then it sleeps until a reader makes room, or fails when there is
  no reader or the process is killed.
\<close>

theorem pipewrite_correct:
  assumes "held s = []" "cur s = Some i" "i < length (ptable s)" "pipe_inv (pipes s p)"
  defines "q \<equiv> pipe_queue (pipes s p)"
  shows "if length q + length bs \<le> 512
    then \<exists>t. pipewrite p bs n s = Ret n t \<and> held t = [] \<and> pipe_inv (pipes t p) \<and> pipe_queue (pipes t p) = q @ bs
    else if readopen (pipes s p) \<and> \<not> killed (ptable s ! i)
    then \<exists>t. pipewrite p bs n s = Sleep t \<and> pipe_inv (pipes t p) \<and> pipe_queue (pipes t p) = q @ take (512 - length q) bs
      \<and> state (ptable t ! i) = SLEEPING \<and> wchan (ptable t ! i) = Some (Ch_pipe_nwrite p)
    else \<exists>t. pipewrite p bs n s = Ret (-1) t \<and> held t = [] \<and> pipe_inv (pipes t p)
      \<and> pipe_queue (pipes t p) = q @ take (512 - length q) bs"
  using pipewrite_fits [OF assms(1,4)] pipewrite_full [OF assms(1-4), of bs n] unfolding q_def by auto

lemma piperead_takes:
  assumes "held s = []" "pipe_inv (pipes s p)" "pipe_queue (pipes s p) \<noteq> [] \<or> \<not> writeopen (pipes s p)"
  defines "q \<equiv> pipe_queue (pipes s p)"
  shows "\<exists>t. piperead p n s = Ret (int (min (nat n) (length q)), take (nat n) q) t \<and> held t = []
    \<and> pipe_inv (pipes t p) \<and> pipe_queue (pipes t p) = drop (nat n) q"
proof -
  let ?s = "s\<lparr>held := [L_pipe p]\<rparr>"
  obtain x where x: "piperead_loop (nat n) p [] ?s = (take (nat n) q, upd_pipe p (\<lambda>_. x) ?s)"
      "pipe_inv x" "pipe_queue x = drop (nat n) q"
    using piperead_loop_takes [of ?s p "nat n" "[]"] assms(2) by (auto simp: q_def)
  let ?t = "(wakeup1 (Ch_pipe_nwrite p) (upd_pipe p (\<lambda>_. x) ?s))\<lparr>held := []\<rparr>"
  have n: "(nread (pipes s p) = nwrite (pipes s p) \<and> writeopen (pipes s p)) = False"
    using assms(3) pipe_empty [of "pipes s p"] by simp
  have "piperead p n s = Ret (int (length (take (nat n) q)), take (nat n) q) ?t"
    using x(1) assms(1) by (simp add: piperead_def n wakeup_Ret) (simp add: wakeup1_def upd_pipe_def)
  moreover have "pipes ?t p = x" by (simp add: wakeup1_def upd_pipe_def)
  ultimately show ?thesis using x(2,3) by (intro exI [of _ ?t]) (simp add: min.commute)
qed

text \<open>
  C24: \<open>piperead\<close> takes at most \<open>n\<close> bytes from the front of the queue; from an empty pipe it
  returns nothing when there is no writer left, and otherwise sleeps, or fails when the process is killed.
\<close>

theorem piperead_correct:
  assumes "held s = []" "cur s = Some i" "i < length (ptable s)" "pipe_inv (pipes s p)"
  defines "q \<equiv> pipe_queue (pipes s p)"
  shows "if q \<noteq> [] \<or> \<not> writeopen (pipes s p)
    then \<exists>t. piperead p n s = Ret (int (min (nat n) (length q)), take (nat n) q) t \<and> held t = []
      \<and> pipe_inv (pipes t p) \<and> pipe_queue (pipes t p) = drop (nat n) q
    else if killed (ptable s ! i) then piperead p n s = Ret (-1, []) s
    else piperead p n s = Sleep (s\<lparr>held := [L_ptable],
      ptable := (ptable s)[i := (ptable s ! i)\<lparr>wchan := Some (Ch_pipe_nread p), state := SLEEPING\<rparr>]\<rparr>)"
proof (cases "q \<noteq> [] \<or> \<not> writeopen (pipes s p)")
  case True
  then show ?thesis using piperead_takes [OF assms(1,4)] by (simp add: q_def)
next
  case False
  then have "nread (pipes s p) = nwrite (pipes s p)" "writeopen (pipes s p)"
    using pipe_empty [of "pipes s p"] by (simp_all add: q_def)
  then show ?thesis
    using False assms(1-3) sleep_Sleep [of "s\<lparr>held := [L_pipe p]\<rparr>" "L_pipe p" i "Ch_pipe_nread p"]
    by (simp add: piperead_def with_cur_def release_def)
qed

section \<open>Sequences of operations\<close>

text \<open>
  The specification is a list: \<open>queue_run\<close> gives the bytes that a sequence of writes and
  reads delivers and the bytes that are left, or \<open>None\<close> when an operation would have to wait.
  \<open>pipe_run\<close> runs the code for the same sequence.
\<close>

datatype pipe_op = Wr "u8 list" | Rd nat

primrec queue_run :: "pipe_op list \<Rightarrow> u8 list \<Rightarrow> (u8 list \<times> u8 list) option" where
  "queue_run [] q = Some ([], q)"
| "queue_run (x # xs) q =
     (case x of
        Wr bs \<Rightarrow> if length q + length bs \<le> 512 then queue_run xs (q @ bs) else None
      | Rd n \<Rightarrow> if q = [] then None
          else map_option (\<lambda>(out, q'). (take n q @ out, q')) (queue_run xs (drop n q)))"

primrec pipe_run :: "u32 \<Rightarrow> pipe_op list \<Rightarrow> 'a ftst_scheme \<Rightarrow> ('a ftst_scheme, u8 list) res" where
  "pipe_run p [] s = Ret [] s"
| "pipe_run p (x # xs) s =
     (case x of
        Wr bs \<Rightarrow> bindR (pipewrite p bs (int (length bs)) s) (\<lambda>_ s. pipe_run p xs s)
      | Rd n \<Rightarrow> bindR (piperead p (int n) s) (\<lambda>(_, bs) s. bindR (pipe_run p xs s) (\<lambda>out s. Ret (bs @ out) s)))"

text \<open>Nothing is lost, invented or reordered in the specification.\<close>

definition written :: "pipe_op list \<Rightarrow> u8 list" where
  "written xs = concat (map (\<lambda>x. case x of Wr bs \<Rightarrow> bs | Rd n \<Rightarrow> []) xs)"

lemma queue_run_conserves: "queue_run xs q = Some (out, q') \<Longrightarrow> q @ written xs = out @ q'"
proof (induction xs arbitrary: q out)
  case (Cons x xs)
  show ?case
  proof (cases x)
    case (Wr bs)
    then show ?thesis using Cons.IH [of "q @ bs" out] Cons.prems by (simp add: written_def split: if_splits)
  next
    case (Rd n)
    then obtain o' where o: "queue_run xs (drop n q) = Some (o', q')" "out = take n q @ o'"
      using Cons.prems by (auto split: if_splits)
    have "q @ written (x # xs) = take n q @ (drop n q @ written xs)" using Rd by (simp add: written_def)
    also have "\<dots> = out @ q'" using Cons.IH [OF o(1)] o(2) by simp
    finally show ?thesis .
  qed
qed (simp add: written_def)

lemma pipe_run_refines:
  assumes "held s = []" "pipe_inv (pipes s p)" "queue_run xs (pipe_queue (pipes s p)) = Some (out, q)"
  shows "\<exists>t. pipe_run p xs s = Ret out t \<and> pipe_inv (pipes t p) \<and> pipe_queue (pipes t p) = q"
  using assms
proof (induction xs arbitrary: s out)
  case (Cons x xs)
  show ?case
  proof (cases x)
    case (Wr bs)
    then have fits: "length (pipe_queue (pipes s p)) + length bs \<le> 512"
      and r: "queue_run xs (pipe_queue (pipes s p) @ bs) = Some (out, q)"
      using Cons.prems(3) by (auto split: if_splits)
    obtain t where "pipewrite p bs (int (length bs)) s = Ret (int (length bs)) t" "held t = []"
        "pipe_inv (pipes t p)" "pipe_queue (pipes t p) = pipe_queue (pipes s p) @ bs"
      using pipewrite_fits [OF Cons.prems(1,2) fits] by blast
    then show ?thesis using Cons.IH [of t out] r Wr by simp
  next
    case (Rd n)
    then obtain o' where o: "queue_run xs (drop n (pipe_queue (pipes s p))) = Some (o', q)"
        "out = take n (pipe_queue (pipes s p)) @ o'" "pipe_queue (pipes s p) \<noteq> []"
      using Cons.prems(3) by (auto split: if_splits)
    obtain t k where "piperead p (int n) s = Ret (k, take n (pipe_queue (pipes s p))) t" "held t = []"
        "pipe_inv (pipes t p)" "pipe_queue (pipes t p) = drop n (pipe_queue (pipes s p))"
      using piperead_takes [OF Cons.prems(1,2), of "int n"] o(3) by auto
    then show ?thesis using Cons.IH [of t o'] o Rd by auto
  qed
qed simp

text \<open>
  C25: a sequence of writes and reads that the bounded queue can serve without waiting is served
  by the code, with the bytes of the queue: what was in the pipe and what was written comes out
  in order, and the rest is left.
\<close>

theorem pipe_fifo:
  assumes "held s = []" "pipe_inv (pipes s p)" "queue_run xs (pipe_queue (pipes s p)) = Some (out, q)"
  shows "\<exists>t. pipe_run p xs s = Ret out t \<and> pipe_inv (pipes t p) \<and> pipe_queue (pipes t p) = q
    \<and> pipe_queue (pipes s p) @ written xs = out @ q"
  using pipe_run_refines [OF assms] queue_run_conserves [OF assms(3)] by blast

lemma demo_pipe: "pipe_inv zero_pipe" "pipe_queue zero_pipe = []" "readopen zero_pipe" "writeopen zero_pipe"
  by (simp_all add: pipe_inv_def pipe_queue_def zero_pipe_def)

theorem pipewrite_correct_witness:
  "\<exists>t. pipewrite 0x80101000 (replicate 600 5) 600 demo_sys = Sleep t
    \<and> pipe_queue (pipes t 0x80101000) = replicate 512 5 \<and> state (ptable t ! 0) = SLEEPING"
  using pipewrite_correct [of demo_sys 0 "0x80101000" "replicate 600 5" 600] demo_pipe
  by (auto simp: demo_proc_def)

theorem piperead_correct_witness:
  "piperead 0x80101000 10 demo_sys = Sleep (demo_sys\<lparr>held := [L_ptable],
     ptable := [demo_proc\<lparr>wchan := Some (Ch_pipe_nread 0x80101000), state := SLEEPING\<rparr>]\<rparr>)"
  using piperead_correct [of demo_sys 0 "0x80101000" 10] demo_pipe by (simp add: demo_proc_def)

theorem pipe_fifo_witness:
  "\<exists>t. pipe_run 0x80101000 [Wr [1, 2, 3], Rd 2, Wr [4], Rd 5] demo_sys = Ret [1, 2, 3, 4] t
    \<and> pipe_queue (pipes t 0x80101000) = []"
  using pipe_fifo [of demo_sys "0x80101000" "[Wr [1, 2, 3], Rd 2, Wr [4], Rd 5]" "[1, 2, 3, 4]" "[]"] demo_pipe
  by auto

end
