(* ===== verification/Console_Spec.thy ===== *)
theory Console_Spec
  imports Demo Ring
begin

text \<open>
  What the console promises: numbers are printed so that they can be read back, the cursor
  stays on the screen, the interrupt handlers of the serial line and of the keyboard return and
  edit a line the way a list editor does, and a reader gets the lines in order.
\<close>

section \<open>Printing numbers\<close>

definition digit_value :: "int \<Rightarrow> int" where
  "digit_value c = (if c < 58 then c - 48 else c - 87)"

definition read_number :: "int \<Rightarrow> int list \<Rightarrow> int" where
  "read_number base cs =
     (case cs of
        c # ds \<Rightarrow> if c = 45 then - foldl (\<lambda>v c. v * base + digit_value c) 0 ds
                   else foldl (\<lambda>v c. v * base + digit_value c) 0 cs
      | [] \<Rightarrow> 0)"

lemma digit_value_char: "uint d < 16 \<Longrightarrow> digit_value (digit_char d) = uint d \<and> digit_char d \<noteq> 45"
proof -
  define n where "n = uint d"
  have "0 \<le> n" by (simp add: n_def)
  then show ?thesis by (simp add: digit_value_def digit_char_def word_less_def flip: n_def)
qed

lemma printint_loop_value:
  assumes "1 < uint base" "uint base \<le> 16" "uint x < uint base ^ k" "0 < k"
  shows "foldl (\<lambda>v c. v * uint base + digit_value c) 0 (rev (printint_loop k x base)) = uint x"
    "45 \<notin> set (printint_loop k x base)" "printint_loop k x base \<noteq> []"
proof -
  have "foldl (\<lambda>v c. v * uint base + digit_value c) 0 (rev (printint_loop k x base)) = uint x \<and> 45 \<notin> set (printint_loop k x base)"
    using assms(3,4)
  proof (induction k arbitrary: x)
    case (Suc k)
    have d: "uint (x mod base) = uint x mod uint base" "uint (x div base) = uint x div uint base"
      by (simp_all add: uint_mod uint_div)
    have m: "uint (x mod base) < 16" unfolding d using assms(1,2) pos_mod_bound [of "uint base" "uint x"] by linarith
    note dv = digit_value_char [OF m]
    show ?case
    proof (cases "x div base = 0")
      case True
      then have "uint x div uint base = 0" using d(2) by (metis unsigned_0)
      then have "uint x mod uint base = uint x" using div_mult_mod_eq [of "uint x" "uint base"] by simp
      then show ?thesis using True dv d(1) by simp
    next
      case False
      have "uint x div uint base < uint base ^ k"
      proof (rule ccontr)
        assume "\<not> ?thesis"
        then have "uint base * uint base ^ k \<le> uint base * (uint x div uint base)"
          using assms(1) by (intro mult_left_mono) simp_all
        also have "\<dots> \<le> uint x" using assms(1) by (simp flip: minus_mod_eq_mult_div)
        finally show False using Suc.prems(1) by simp
      qed
      moreover have "k \<noteq> 0"
      proof
        assume "k = 0"
        then have "uint x < uint base" using Suc.prems(1) by simp
        then have "uint x div uint base = 0" by (intro div_pos_pos_trivial) simp_all
        then show False using False d(2) by (metis uint_0_iff)
      qed
      ultimately have "foldl (\<lambda>v c. v * uint base + digit_value c) 0 (rev (printint_loop k (x div base) base)) = uint (x div base)"
        "45 \<notin> set (printint_loop k (x div base) base)"
        using Suc.IH [of "x div base"] d(2) by simp_all
      then show ?thesis using False dv d by simp
    qed
  qed simp
  then show "foldl (\<lambda>v c. v * uint base + digit_value c) 0 (rev (printint_loop k x base)) = uint x"
    "45 \<notin> set (printint_loop k x base)" by blast+
  show "printint_loop k x base \<noteq> []" using assms(4) by (cases k) simp_all
qed

text \<open>
  C35: what \<open>printint\<close> prints in base 10 or 16, with or without sign, reads back as the number, for
  all 32-bit arguments; the least negative number is included.
\<close>

theorem printint_roundtrip:
  assumes "base = 10 \<or> base = 16"
  shows "read_number (uint base) (printint_chars x base sign) = (if sign then sint x else uint x)"
proof -
  define neg where "neg \<longleftrightarrow> sign \<and> sint x < 0"
  define y where "y = (if neg then - x else x)"
  have u: "uint y < 4294967296" using uint_lt2p [of y] by simp
  have b: "1 < uint base" "uint base \<le> 16" "uint y < uint base ^ 16" using assms u by auto
  note l = printint_loop_value [OF b]
  have e: "printint_chars x base sign = (if neg then 45 # rev (printint_loop 16 y base) else rev (printint_loop 16 y base))"
    by (simp add: printint_chars_def neg_def y_def Let_def)
  have r: "read_number (uint base) (printint_chars x base sign) = (if neg then - uint y else uint y)"
  proof (cases "rev (printint_loop 16 y base)")
    case Nil
    then show ?thesis using l(3) by simp
  next
    case (Cons c cs)
    then have "c \<noteq> 45" using l(2) by (metis list.set_intros(1) set_rev zero_less_numeral)
    then show ?thesis using l(1) Cons by (simp add: e read_number_def)
  qed
  have "- uint (- x) = sint x" if "sint x < 0"
  proof -
    have "uint (- x) = - uint x mod 4294967296" by (simp add: uint_word_ariths(4))
    also have "\<dots> = - sint x mod 4294967296"
      using that by (simp add: uint_eq_sint)
    also have "\<dots> = - sint x" using that sint_ge [of x] by (intro mod_pos_pos_trivial) simp_all
    finally show ?thesis by simp
  qed
  then show ?thesis using r by (auto simp: neg_def y_def uint_eq_sint [of x])
qed

theorem printint_roundtrip_witness:
  "read_number 10 (printint_chars 0x80000000 10 True) = - 2147483648
    \<and> read_number 16 (printint_chars 0xDEADBEEF 16 False) = 3735928559"
  using printint_roundtrip [of 10 "0x80000000" True] printint_roundtrip [of 16 "0xDEADBEEF" False] by simp

section \<open>The screen\<close>

text \<open>
  The cursor starts on the first 24 lines and stays there; then \<open>cgaputc\<close> writes only to the 25 lines
  of the screen.
\<close>

definition on_screen :: "'a cnst_scheme \<Rightarrow> bool" where
  "on_screen s \<longleftrightarrow> unat (crt_pos s) < 1920"

lemma cgaputc_runs:
  assumes "on_screen s"
  shows "\<exists>m pos. cgaputc c s = Ret () (s\<lparr>crt := m, crt_pos := pos\<rparr>) \<and> unat pos < 1920
    \<and> (\<forall>i\<ge>2000. m i = crt s i)"
proof -
  define pos where "pos = unat (crt_pos s)"
  have p: "pos < 1920" using assms by (simp add: on_screen_def pos_def)
  define pm where "pm = (if c = 10 then (pos + (80 - pos mod 80), crt s)
             else if c = 0x100 then (if pos > 0 then pos - 1 else pos, crt s)
             else (pos + 1, (crt s)(pos := (word_of_int c AND 0xFF) OR 0x0700)))"
  obtain q m where qm: "pm = (q, m)" by (cases pm)
  have nl: "pos + (80 - pos mod 80) \<le> 1920"
  proof -
    define d r where "d = pos div 80" and "r = pos mod 80"
    have "pos = 80 * d + r" "r < 80" by (simp_all add: d_def r_def)
    then show ?thesis using p by (simp add: r_def [symmetric])
  qed
  have q: "q \<le> 1920" "\<forall>i\<ge>2000. m i = crt s i"
    using qm p nl by (auto simp: pm_def split: if_splits)
  define q' m' where "q' = (if q div 80 \<ge> 24 then q - 80 else q)"
    and "m' = (if q div 80 \<ge> 24 then cga_scroll (q - 80) m else m)"
  have e: "cgaputc c s = Ret () (s\<lparr>crt := m'(q' := 0x0720), crt_pos := of_nat q'\<rparr>)"
    using q(1) by (simp add: cgaputc_def flip: pos_def pm_def) (auto simp: qm q'_def m'_def)
  have q': "q' < 1920"
  proof (cases "q = 1920")
    case False
    then show ?thesis using q(1) by (auto simp: q'_def)
  qed (simp add: q'_def)
  have "\<forall>i\<ge>2000. (m'(q' := 0x0720)) i = crt s i" using q(2) q' by (auto simp: m'_def cga_scroll_def)
  moreover have "unat (of_nat q' :: u16) < 1920" using q' by (simp add: unat_of_nat)
  ultimately show ?thesis using e by blast
qed

text \<open>
  C34: from a cursor on the first 24 lines \<open>cgaputc\<close> returns, whatever the character, leaves the cursor there,
  and changes no cell beyond the 25 lines of 80 of the screen.
\<close>

theorem cgaputc_in_bounds:
  assumes "on_screen s"
  shows "\<exists>t. cgaputc c s = Ret () t \<and> on_screen t \<and> (\<forall>i\<ge>2000. crt t i = crt s i)"
  using cgaputc_runs [OF assms, of c] by (force simp: on_screen_def)

theorem cgaputc_in_bounds_witness:
  "\<exists>t. cgaputc 65 demo_sys = Ret () t \<and> on_screen t \<and> (\<forall>i\<ge>2000. crt t i = crt demo_sys i)"
  using cgaputc_in_bounds [of demo_sys 65] by (simp add: on_screen_def)

text \<open>What output changes: the serial line and the screen.\<close>

definition out_frame :: "'a cnst_scheme \<Rightarrow> 'a cnst_scheme \<Rightarrow> bool" where
  "out_frame s t \<longleftrightarrow> t = s\<lparr>crt := crt t, crt_pos := crt_pos t, uart_out := uart_out t\<rparr> \<and> on_screen t"

lemma out_frame_refl: "on_screen s \<Longrightarrow> out_frame s s"
  by (simp add: out_frame_def)

lemma out_frame_trans: "out_frame s t \<Longrightarrow> out_frame t u \<Longrightarrow> out_frame s u"
proof -
  assume a: "out_frame s t" "out_frame t u"
  have u: "u = t\<lparr>crt := crt u, crt_pos := crt_pos u, uart_out := uart_out u\<rparr>"
    and t: "t = s\<lparr>crt := crt t, crt_pos := crt_pos t, uart_out := uart_out t\<rparr>"
    using a by (simp_all add: out_frame_def)
  have "u = s\<lparr>crt := crt u, crt_pos := crt_pos u, uart_out := uart_out u\<rparr>" by (subst u, subst t) simp
  then show ?thesis using a by (simp add: out_frame_def)
qed

lemma out_frameD:
  assumes "out_frame s t"
  shows "held t = held s" "ptable t = ptable s" "panicked t = panicked s" "in_buf t = in_buf s" "in_r t = in_r s"
    "in_w t = in_w s" "in_e t = in_e s" "cons_locking t = cons_locking s" "uart_on t = uart_on s" "uart_in t = uart_in s"
    "kbd_in t = kbd_in s" "kbd_shift t = kbd_shift s" "mem t = mem s" "on_screen t" "cur t = cur s"
proof -
  have e: "t = s\<lparr>crt := crt t, crt_pos := crt_pos t, uart_out := uart_out t\<rparr>" using assms by (simp add: out_frame_def)
  show "held t = held s" "ptable t = ptable s" "panicked t = panicked s" "in_buf t = in_buf s" "in_r t = in_r s"
    "in_w t = in_w s" "in_e t = in_e s" "cons_locking t = cons_locking s" "uart_on t = uart_on s" "uart_in t = uart_in s"
    "kbd_in t = kbd_in s" "kbd_shift t = kbd_shift s" "mem t = mem s" "cur t = cur s" by (subst e, simp)+
  show "on_screen t" using assms by (simp add: out_frame_def)
qed

lemma consputc_runs:
  assumes "on_screen s" "\<not> panicked s"
  shows "\<exists>t. consputc c s = Ret () t \<and> out_frame s t"
proof -
  let ?s = "if c = 0x100 then uartputc 8 (uartputc 32 (uartputc 8 s)) else uartputc c s"
  have "?s = s\<lparr>uart_out := (if uart_on s then uart_out s @ (if c = 0x100 then [8, 32, 8] else [word_of_int c]) else uart_out s)\<rparr>"
    by (simp add: uartputc_def)
  then obtain o' where o': "?s = s\<lparr>uart_out := o'\<rparr>" by blast
  have "on_screen (s\<lparr>uart_out := o'\<rparr>)" using assms(1) by (simp add: on_screen_def)
  then obtain m pos where "cgaputc c (s\<lparr>uart_out := o'\<rparr>) = Ret () (s\<lparr>uart_out := o', crt := m, crt_pos := pos\<rparr>)" "unat pos < 1920"
    using cgaputc_runs by blast
  then show ?thesis using assms(2) o' by (auto simp: consputc_def Let_def out_frame_def on_screen_def)
qed

lemma consputs_runs:
  "on_screen s \<Longrightarrow> \<not> panicked s \<Longrightarrow> \<exists>t. consputs cs s = Ret () t \<and> out_frame s t"
proof (induction cs arbitrary: s)
  case (Cons c cs)
  obtain t where t: "consputc c s = Ret () t" "out_frame s t" using consputc_runs [OF Cons.prems] by blast
  then obtain u where "consputs cs t = Ret () u" "out_frame t u"
    using Cons.IH [of t] Cons.prems out_frameD(3,14) [OF t(2)] by auto
  then show ?case using t out_frame_trans by fastforce
qed (simp add: out_frame_refl)

lemma out_frame_held: "out_frame (s\<lparr>held := h\<rparr>) t \<Longrightarrow> out_frame s (t\<lparr>held := held s\<rparr>)"
proof -
  assume a: "out_frame (s\<lparr>held := h\<rparr>) t"
  then have e: "t = s\<lparr>held := h, crt := crt t, crt_pos := crt_pos t, uart_out := uart_out t\<rparr>" by (simp add: out_frame_def)
  have "t\<lparr>held := held s\<rparr> = s\<lparr>crt := crt t, crt_pos := crt_pos t, uart_out := uart_out t\<rparr>" by (subst e) simp
  then show ?thesis using a by (simp add: out_frame_def on_screen_def)
qed

lemma cprintf_runs:
  assumes "on_screen s" "\<not> panicked s" "L_cons \<notin> set (held s)" "cprintf_chars (ascii fmt) args = Some cs"
  shows "\<exists>t. cprintf fmt args s = Ret () t \<and> out_frame s t"
proof (cases "cons_locking s")
  case True
  let ?s = "s\<lparr>held := L_cons # held s\<rparr>"
  obtain t where t: "consputs cs ?s = Ret () t" "out_frame ?s t"
    using consputs_runs [of ?s cs] assms(1,2) by (auto simp: on_screen_def)
  then have "cprintf fmt args s = Ret () (t\<lparr>held := held s\<rparr>)"
    using True assms(3,4) out_frameD(1) [OF t(2)] by (simp add: cprintf_def)
  then show ?thesis using out_frame_held [OF t(2)] by blast
next
  case False
  then show ?thesis using consputs_runs [OF assms(1,2)] assms(4) by (auto simp: cprintf_def)
qed

lemma print_pcs_runs:
  "on_screen s \<Longrightarrow> \<not> panicked s \<Longrightarrow> L_cons \<notin> set (held s) \<Longrightarrow> \<exists>t. print_pcs ps s = Ret () t \<and> out_frame s t"
proof (induction ps arbitrary: s)
  case (Cons p ps)
  obtain cs where "cprintf_chars (ascii '' %p'') [Word_arg p] = Some cs" by (simp add: ascii_def)
  from cprintf_runs [OF Cons.prems this] obtain t where t: "cprintf '' %p'' [Word_arg p] s = Ret () t" "out_frame s t" by blast
  then obtain u where "print_pcs ps t = Ret () u" "out_frame t u"
    using Cons.IH [of t] Cons.prems out_frameD [OF t(2)] by auto
  then show ?case using t out_frame_trans by fastforce
qed (simp add: out_frame_refl)

lemma procdump_loop_runs:
  "on_screen s \<Longrightarrow> \<not> panicked s \<Longrightarrow> L_cons \<notin> set (held s) \<Longrightarrow> \<exists>t. procdump_loop ps s = Ret () t \<and> out_frame s t"
proof (induction ps arbitrary: s)
  case (Cons p ps)
  show ?case
  proof (cases "state p = UNUSED")
    case False
    define args where "args = [Word_arg (pid p), Str_arg (Some (map (\<lambda>c. word_of_int (int (of_char c))) (state_name (state p)))),
                 Str_arg (Some (takeWhile (\<lambda>c. c \<noteq> 0) (name p)))]"
    obtain cs where "cprintf_chars (ascii ''%d %s %s'') args = Some cs" by (simp add: ascii_def args_def)
    from cprintf_runs [OF Cons.prems this] obtain t where t: "cprintf ''%d %s %s'' args s = Ret () t" "out_frame s t" by blast
    note ft = out_frameD [OF t(2)]
    let ?pcs = "takeWhile (\<lambda>a. a \<noteq> 0) (getcallerpcs (mem t) (ctx_ebp (ctx p) + 8))"
    obtain u where u: "(if state p = SLEEPING then print_pcs ?pcs t else Ret () t) = Ret () u" "out_frame t u"
      using print_pcs_runs [of t ?pcs] out_frame_refl [of t] ft Cons.prems by (cases "state p = SLEEPING") auto
    note fu = out_frameD [OF u(2)]
    obtain cs where "cprintf_chars (ascii [CHR 0x0A]) [] = Some cs" by (simp add: ascii_def)
    from cprintf_runs [OF _ _ _ this, of u] obtain v where v: "cprintf [CHR 0x0A] [] u = Ret () v" "out_frame u v"
      using ft fu Cons.prems by auto
    note fv = out_frameD [OF v(2)]
    obtain w where w: "procdump_loop ps v = Ret () w" "out_frame v w"
      using Cons.IH [of v] ft fu fv Cons.prems by auto
    have "procdump_loop (p # ps) s = Ret () w" using False t(1) u(1) v(1) w(1) by (simp add: args_def)
    then show ?thesis using t(2) u(2) v(2) w(2) out_frame_trans by blast
  qed (use Cons in simp)
qed (simp add: out_frame_refl)

section \<open>The line editor\<close>

text \<open>
  The bytes of the ring: those of finished lines, which a reader may take, and those of the
  line that is being edited.
\<close>

definition ring_bytes :: "'a cnst_scheme \<Rightarrow> u8 list" where
  "ring_bytes s = ring_list 128 (in_buf s) (in_r s) (in_e s)"

definition avail :: "'a cnst_scheme \<Rightarrow> u8 list" where
  "avail s = take (unat (in_w s - in_r s)) (ring_bytes s)"

definition typed :: "'a cnst_scheme \<Rightarrow> u8 list" where
  "typed s = drop (unat (in_w s - in_r s)) (ring_bytes s)"

definition cons_inv :: "'a cnst_scheme \<Rightarrow> bool" where
  "cons_inv s \<longleftrightarrow> length (in_buf s) = 128 \<and> unat (in_w s - in_r s) \<le> unat (in_e s - in_r s)
     \<and> unat (in_e s - in_r s) \<le> 128 \<and> 10 \<notin> set (typed s)"

text \<open>The specification of the editor on finished and unfinished bytes.\<close>

definition edit :: "int \<Rightarrow> u8 list \<times> u8 list \<Rightarrow> u8 list \<times> u8 list" where
  "edit c al =
     (let (a, l) = al in
      if c = 16 then (a, l)
      else if c = 21 then (a, [])
      else if c = 8 \<or> c = 127 then (a, butlast l)
      else if c \<noteq> 0 \<and> length a + length l < 128 then
        let c = (if c = 13 then 10 else c); l = l @ [word_of_int c] in
        if c = 10 \<or> c = 4 \<or> length a + length l = 128 then (a @ l, []) else (a, l)
      else (a, l))"

lemma ring_bytes_split: "ring_bytes s = avail s @ typed s"
  by (simp add: avail_def typed_def)

lemma lengths:
  assumes "cons_inv s"
  shows "length (avail s) = unat (in_w s - in_r s)" "length (typed s) = unat (in_e s - in_w s)"
    "length (avail s) + length (typed s) = unat (in_e s - in_r s)"
proof -
  show a: "length (avail s) = unat (in_w s - in_r s)"
    using assms by (simp add: avail_def ring_bytes_def cons_inv_def)
  show b: "length (avail s) + length (typed s) = unat (in_e s - in_r s)"
    using arg_cong [OF ring_bytes_split [of s], of length] by (simp add: ring_bytes_def)
  have "in_w s - in_r s \<le> in_e s - in_r s" using assms by (simp add: cons_inv_def word_le_nat_alt)
  from unat_minus_le [OF this] have "unat (in_e s - in_w s) = unat (in_e s - in_r s) - unat (in_w s - in_r s)" by simp
  then show "length (typed s) = unat (in_e s - in_w s)" using a b by simp
qed

lemma typed_Nil:
  assumes "cons_inv s"
  shows "typed s = [] \<longleftrightarrow> in_e s = in_w s"
  using lengths(2) [OF assms] by (metis length_0_conv right_minus_eq unat_eq_zero)

lemma unput_typed:
  assumes "cons_inv s" "in_e s \<noteq> in_w s"
  shows "in_buf s ! unat ((in_e s - 1) mod 128) = List.last (typed s)"
    "cons_inv (s\<lparr>in_e := in_e s - 1\<rparr>)" "avail (s\<lparr>in_e := in_e s - 1\<rparr>) = avail s"
    "typed (s\<lparr>in_e := in_e s - 1\<rparr>) = butlast (typed s)"
proof -
  let ?t = "s\<lparr>in_e := in_e s - 1\<rparr>"
  have l: "length (avail s) = unat (in_w s - in_r s)" by (rule lengths(1) [OF assms(1)])
  have ne: "typed s \<noteq> []" using typed_Nil [OF assms(1)] assms(2) by simp
  have "in_r s \<noteq> in_e s"
  proof
    assume "in_r s = in_e s"
    then have "unat (in_e s - in_r s) = 0" by simp
    then show False using lengths(3) [OF assms(1)] ne by simp
  qed
  from input_ring.unput [OF this, of "in_buf s"]
  have "ring_bytes s = ring_bytes ?t @ [in_buf s ! unat ((in_e s - 1) mod 128)]" by (simp add: ring_bytes_def unat_mod)
  moreover have "ring_bytes s = (avail s @ butlast (typed s)) @ [List.last (typed s)]" using ne by (simp add: ring_bytes_split)
  ultimately have b: "ring_bytes ?t = avail s @ butlast (typed s)" "in_buf s ! unat ((in_e s - 1) mod 128) = List.last (typed s)"
    by (simp_all only: append1_eq_conv)
  show "in_buf s ! unat ((in_e s - 1) mod 128) = List.last (typed s)" by (rule b(2))
  show a: "avail ?t = avail s" "typed ?t = butlast (typed s)"
    using b(1) l by (simp_all add: avail_def [of ?t] typed_def [of ?t])
  have "unat (in_e s - 1 - in_r s) = length (ring_bytes ?t)" by (simp add: ring_bytes_def)
  also have "\<dots> = length (avail s) + length (butlast (typed s))" using b(1) by simp
  finally have "unat (in_e s - 1 - in_r s) = length (avail s) + length (butlast (typed s))" .
  then show "cons_inv ?t" using assms(1) a(2) l lengths(3) [OF assms(1)] in_set_butlastD [of 10 "typed s"]
    by (auto simp: cons_inv_def)
qed

lemma put_typed:
  fixes c :: u8
  assumes "cons_inv s" "in_e s - in_r s < 128"
  defines "t \<equiv> s\<lparr>in_buf := (in_buf s)[unat (in_e s mod 128) := c], in_e := in_e s + 1\<rparr>"
  shows "length (in_buf t) = 128" "avail t = avail s" "typed t = typed s @ [c]"
    "unat (in_e t - in_r t) = Suc (unat (in_e s - in_r s))" "unat (in_w t - in_r t) \<le> unat (in_e t - in_r t)"
    "unat (in_e t - in_r t) \<le> 128"
proof -
  have u: "unat (in_e s - in_r s) < 128" using assms(2) by (simp add: word_less_nat_alt)
  have l: "length (in_buf s) = 128" using assms(1) by (simp add: cons_inv_def)
  show "length (in_buf t) = 128" using l by (simp add: t_def)
  show e: "unat (in_e t - in_r t) = Suc (unat (in_e s - in_r s))" using input_ring.diff_Suc [OF u] by (simp add: t_def)
  then show "unat (in_e t - in_r t) \<le> 128" using u by simp
  show "unat (in_w t - in_r t) \<le> unat (in_e t - in_r t)" using e assms(1) by (simp add: t_def cons_inv_def)
  have b: "ring_bytes t = ring_bytes s @ [c]" using input_ring.put [OF l u] by (simp add: ring_bytes_def t_def unat_mod)
  have "unat (in_w s - in_r s) \<le> length (ring_bytes s)" using assms(1) by (simp add: cons_inv_def ring_bytes_def)
  moreover have "in_w t = in_w s" "in_r t = in_r s" by (simp_all add: t_def)
  ultimately show "avail t = avail s" "typed t = typed s @ [c]" using b by (simp_all add: avail_def typed_def)
qed

text \<open>The other fields that the reader of the input relies on.\<close>

definition in_frame :: "'a cnst_scheme \<Rightarrow> 'a cnst_scheme \<Rightarrow> bool" where
  "in_frame s t \<longleftrightarrow> held t = held s \<and> panicked t = panicked s \<and> on_screen t \<and> uart_on t = uart_on s
     \<and> uart_in t = uart_in s \<and> kbd_in t = kbd_in s \<and> kbd_shift t = kbd_shift s"

lemma in_frame_trans: "in_frame s t \<Longrightarrow> in_frame t u \<Longrightarrow> in_frame s u"
  by (simp add: in_frame_def)

lemma out_ring:
  assumes "out_frame s t"
  shows "cons_inv t = cons_inv s" "avail t = avail s" "typed t = typed s" "in_frame s t"
  using out_frameD [OF assms]
  by (simp_all add: cons_inv_def avail_def typed_def ring_bytes_def in_frame_def)

lemma kill_line_runs:
  assumes "cons_inv s" "on_screen s" "\<not> panicked s" "length (typed s) < k"
  shows "\<exists>t. kill_line k s = Ret () t \<and> cons_inv t \<and> avail t = avail s \<and> typed t = [] \<and> in_frame s t"
  using assms
proof (induction k arbitrary: s)
  case (Suc k)
  show ?case
  proof (cases "in_e s = in_w s")
    case True
    then show ?thesis using Suc.prems typed_Nil [of s] by (simp add: in_frame_def)
  next
    case False
    note u = unput_typed [OF Suc.prems(1) False]
    have ne: "typed s \<noteq> []" using typed_Nil [OF Suc.prems(1)] False by simp
    then have "List.last (typed s) \<noteq> 10" using Suc.prems(1) last_in_set by (metis cons_inv_def)
    moreover obtain t where t: "consputc 0x100 (s\<lparr>in_e := in_e s - 1\<rparr>) = Ret () t" "out_frame (s\<lparr>in_e := in_e s - 1\<rparr>) t"
      using consputc_runs [of "s\<lparr>in_e := in_e s - 1\<rparr>" "0x100"] Suc.prems(2,3) by (auto simp: on_screen_def)
    note r = out_ring [OF t(2)]
    have "length (typed t) = length (typed s) - 1" "0 < length (typed s)" using ne by (simp_all add: r u)
    then have "length (typed t) < k" using Suc.prems(4) by linarith
    then obtain v where v: "kill_line k t = Ret () v" "cons_inv v" "avail v = avail t" "typed v = []" "in_frame t v"
      using Suc.IH [of t] r u Suc.prems(3) out_frameD(3,14) [OF t(2)] by auto
    ultimately have "kill_line (Suc k) s = Ret () v" using False t(1) u(1) by (simp add: Let_def)
    moreover have "in_frame s t" using r(4) by (simp add: in_frame_def)
    ultimately show ?thesis using v r u in_frame_trans by auto
  qed
qed simp

lemma in_frame_refl: "on_screen s \<Longrightarrow> in_frame s s"
  by (simp add: in_frame_def)

text \<open>A character is put behind the others; the line is finished by a newline, by control-D, or when the ring is full.\<close>

lemma console_put:
  assumes "cons_inv s" "on_screen s" "\<not> panicked s" "L_ptable \<notin> set (held s)" "in_e s - in_r s < 128" "0 \<le> d" "d < 256"
  defines "t \<equiv> s\<lparr>in_buf := (in_buf s)[unat (in_e s mod 128) := word_of_int d], in_e := in_e s + 1\<rparr>"
    and "l \<equiv> typed s @ [word_of_int d]"
  shows "\<exists>u. bindR (consputc d t) (\<lambda>_ s. if d = 10 \<or> d = 4 \<or> in_e s = in_r s + 128
        then wakeup Ch_input (s\<lparr>in_w := in_e s\<rparr>) else Ret () s) = Ret () u \<and> cons_inv u \<and> in_frame s u
    \<and> (avail u, typed u) = (if d = 10 \<or> d = 4 \<or> length (avail s) + length l = 128 then (avail s @ l, []) else (avail s, l))"
proof -
  note p = put_typed [OF assms(1,5), of "word_of_int d", folded t_def]
  obtain v where v: "consputc d t = Ret () v" "out_frame t v"
    using consputc_runs [of t d] assms(2,3) by (auto simp: t_def on_screen_def)
  note r = out_ring [OF v(2)] and f = out_frameD [OF v(2)]
  have fv: "in_frame s v" using r(4) by (simp add: in_frame_def t_def)
  have "in_e v = in_r v + 128 \<longleftrightarrow> in_e v - in_r v = 128" by (auto simp: algebra_simps)
  also have "\<dots> \<longleftrightarrow> unat (in_e v - in_r v) = 128" using word_unat_eq_iff [of "in_e v - in_r v" 128] by simp
  finally have full: "in_e v = in_r v + 128 \<longleftrightarrow> length (avail s) + length l = 128"
    using p(4) lengths(3) [OF assms(1)] f by (simp add: l_def)
  show ?thesis
  proof (cases "d = 10 \<or> d = 4 \<or> in_e v = in_r v + 128")
    case True
    let ?u = "wakeup1 Ch_input (v\<lparr>in_w := in_e v\<rparr>)"
    have "L_ptable \<notin> set (held (v\<lparr>in_w := in_e v\<rparr>))" using assms(4) fv by (simp add: in_frame_def)
    then have "wakeup Ch_input (v\<lparr>in_w := in_e v\<rparr>) = Ret () ?u" by (simp add: wakeup_def wakeup1_def)
    moreover have "ring_bytes ?u = avail s @ l"
      using ring_bytes_split [of v] r p(2,3) by (simp add: ring_bytes_def wakeup1_def l_def)
    moreover have "unat (in_w ?u - in_r ?u) = length (ring_bytes ?u)" by (simp add: ring_bytes_def wakeup1_def)
    ultimately have "wakeup Ch_input (v\<lparr>in_w := in_e v\<rparr>) = Ret () ?u" "avail ?u = avail s @ l" "typed ?u = []"
      by (simp_all only: avail_def typed_def take_all drop_all order_refl)
    moreover have "cons_inv ?u" using p(1,6) f calculation(3) by (simp add: cons_inv_def wakeup1_def)
    moreover have "in_frame s ?u" using fv by (simp add: in_frame_def wakeup1_def on_screen_def)
    ultimately show ?thesis using v(1) True full by simp
  next
    case False
    have "(word_of_int d :: u8) \<noteq> 10"
    proof
      assume "(word_of_int d :: u8) = 10"
      then have "uint (word_of_int d :: u8) = 10" by simp
      then show False using False assms(6,7) by (simp add: uint_word_of_int_eq take_bit_int_eq_self)
    qed
    then have "cons_inv v" using p f assms(1) by (simp add: r cons_inv_def)
    then show ?thesis using v(1) False full fv r p(2,3) by (simp add: l_def)
  qed
qed

text \<open>One character: the code does what the editor does.\<close>

lemma console_char_edits:
  assumes "cons_inv s" "on_screen s" "\<not> panicked s" "L_cons \<notin> set (held s)" "L_ptable \<notin> set (held s)" "0 \<le> c" "c < 256"
  shows "\<exists>t. console_char c s = Ret () t \<and> cons_inv t \<and> (avail t, typed t) = edit c (avail s, typed s) \<and> in_frame s t"
proof -
  consider "c = 16" | "c = 21" | "c = 8 \<or> c = 127" | "c \<notin> {16, 21, 8, 127}" by blast
  then show ?thesis
  proof cases
    case 1
    then show ?thesis using procdump_loop_runs [OF assms(2-4), of "ptable s"] out_ring [of s] assms(1)
      by (auto simp: console_char_def procdump_def edit_def)
  next
    case 2
    then show ?thesis using kill_line_runs [OF assms(1-3), of "Suc (unat (in_e s - in_w s))"] lengths(2) [OF assms(1)]
      by (auto simp: console_char_def edit_def)
  next
    case 3
    then have c: "edit c (avail s, typed s) = (avail s, butlast (typed s))" by (auto simp: edit_def)
    show ?thesis
    proof (cases "in_e s = in_w s")
      case True
      then show ?thesis using 3 c assms(1,2) typed_Nil [OF assms(1)] in_frame_refl by (auto simp: console_char_def)
    next
      case False
      note u = unput_typed [OF assms(1) False]
      obtain t where t: "consputc 0x100 (s\<lparr>in_e := in_e s - 1\<rparr>) = Ret () t" "out_frame (s\<lparr>in_e := in_e s - 1\<rparr>) t"
        using consputc_runs [of "s\<lparr>in_e := in_e s - 1\<rparr>" "0x100"] assms(2,3) by (auto simp: on_screen_def)
      note r = out_ring [OF t(2)]
      have "in_frame s t" using r(4) by (simp add: in_frame_def)
      then show ?thesis using 3 c False t(1) r u by (auto simp: console_char_def)
    qed
  next
    case 4
    show ?thesis
    proof (cases "c \<noteq> 0 \<and> in_e s - in_r s < 128")
      case False
      then have "edit c (avail s, typed s) = (avail s, typed s)"
        using 4 lengths(3) [OF assms(1)] by (auto simp: edit_def word_less_nat_alt)
      then show ?thesis using 4 False assms(1,2) in_frame_refl by (auto simp: console_char_def)
    next
      case True
      define d where "d = (if c = 13 then 10 else c)"
      let ?s = "s\<lparr>in_buf := (in_buf s)[unat (in_e s mod 128) := word_of_int d], in_e := in_e s + 1\<rparr>"
      let ?l = "typed s @ [word_of_int d]"
      have e: "edit c (avail s, typed s) = (if d = 10 \<or> d = 4 \<or> length (avail s) + length ?l = 128
          then (avail s @ ?l, []) else (avail s, ?l))"
        using 4 True lengths(3) [OF assms(1)] by (auto simp: edit_def d_def word_less_nat_alt Let_def)
      have d: "0 \<le> d" "d < 256" using assms(6,7) by (simp_all add: d_def)
      have "console_char c s = bindR (consputc d ?s) (\<lambda>_ s. if d = 10 \<or> d = 4 \<or> in_e s = in_r s + 128
        then wakeup Ch_input (s\<lparr>in_w := in_e s\<rparr>) else Ret () s)"
        using 4 True by (simp add: console_char_def d_def Let_def)
      then show ?thesis
        using console_put [OF assms(1-3,5) conjunct2 [OF True] d] unfolding e by (metis (no_types, lifting))
    qed
  qed
qed

section \<open>Input devices\<close>

text \<open>
  \<open>consoleintr\<close> takes its characters from a function \<open>getc\<close>. The devices that it is called with
  deliver a finite sequence of characters, which output and editing do not change.
\<close>

definition same_dev :: "'a cnst_scheme \<Rightarrow> 'a cnst_scheme \<Rightarrow> bool" where
  "same_dev s t \<longleftrightarrow> uart_on t = uart_on s \<and> uart_in t = uart_in s \<and> kbd_in t = kbd_in s \<and> kbd_shift t = kbd_shift s"

definition dev_frame :: "'a cnst_scheme \<Rightarrow> 'a cnst_scheme \<Rightarrow> bool" where
  "dev_frame s t \<longleftrightarrow> t = s\<lparr>uart_in := uart_in t, kbd_in := kbd_in t, kbd_shift := kbd_shift t\<rparr>"

lemma dev_frame_ring:
  assumes "dev_frame s t"
  shows "cons_inv t = cons_inv s" "avail t = avail s" "typed t = typed s" "on_screen t = on_screen s"
    "panicked t = panicked s" "held t = held s"
proof -
  have e: "t = s\<lparr>uart_in := uart_in t, kbd_in := kbd_in t, kbd_shift := kbd_shift t\<rparr>" using assms by (simp add: dev_frame_def)
  show "cons_inv t = cons_inv s" "avail t = avail s" "typed t = typed s" "on_screen t = on_screen s"
    "panicked t = panicked s" "held t = held s"
    by (subst e, simp add: cons_inv_def avail_def typed_def ring_bytes_def on_screen_def)+
qed

locale char_device =
  fixes getc :: "'a cnst_scheme \<Rightarrow> int \<times> 'a cnst_scheme"
    and todo :: "'a cnst_scheme \<Rightarrow> int list"
  assumes none: "todo s = [] \<Longrightarrow> getc s = (-1, s)"
    and next_char: "todo s = c # cs \<Longrightarrow> \<exists>t. getc s = (c, t) \<and> dev_frame s t \<and> todo t = cs \<and> 0 \<le> c \<and> c < 256"
    and stable: "same_dev s t \<Longrightarrow> todo t = todo s"
begin

lemma loop_edits:
  assumes "cons_inv s" "on_screen s" "\<not> panicked s" "L_cons \<notin> set (held s)" "L_ptable \<notin> set (held s)" "length (todo s) < k"
  shows "\<exists>t. consoleintr_loop k getc s = Ret () t \<and> cons_inv t \<and> on_screen t \<and> held t = held s \<and> todo t = []
    \<and> (avail t, typed t) = fold edit (todo s) (avail s, typed s)"
  using assms
proof (induction k arbitrary: s)
  case (Suc k)
  show ?case
  proof (cases "todo s")
    case Nil
    then show ?thesis using none Suc.prems by simp
  next
    case (Cons c cs)
    obtain t where t: "getc s = (c, t)" "dev_frame s t" "todo t = cs" "0 \<le> c" "c < 256" using next_char [OF Cons] by blast
    note f = dev_frame_ring [OF t(2)]
    obtain u where u: "console_char c t = Ret () u" "cons_inv u" "(avail u, typed u) = edit c (avail t, typed t)" "in_frame t u"
      using console_char_edits [of t c] f t(4,5) Suc.prems by auto
    have "same_dev t u" "held u = held s" "panicked u = panicked s" "on_screen u"
      using u(4) f by (simp_all add: in_frame_def same_dev_def)
    then show ?thesis using Suc.IH [of u] Suc.prems u t Cons f stable by auto
  qed
qed simp

lemma intr_edits:
  assumes "cons_inv s" "on_screen s" "\<not> panicked s" "set (held s) \<inter> {L_input, L_cons, L_ptable} = {}" "length (todo s) < k"
  shows "\<exists>t. consoleintr k getc s = Ret () t \<and> cons_inv t \<and> on_screen t \<and> held t = held s \<and> todo t = []
    \<and> (avail t, typed t) = fold edit (todo s) (avail s, typed s)"
proof -
  let ?s = "s\<lparr>held := L_input # held s\<rparr>"
  have e: "cons_inv ?s = cons_inv s" "on_screen ?s = on_screen s" "avail ?s = avail s" "typed ?s = typed s" "todo ?s = todo s"
    by (simp_all add: cons_inv_def on_screen_def avail_def typed_def ring_bytes_def stable [of s ?s, unfolded same_dev_def, simplified])
  obtain t where t: "consoleintr_loop k getc ?s = Ret () t" "cons_inv t" "on_screen t" "held t = held ?s" "todo t = []"
      "(avail t, typed t) = fold edit (todo ?s) (avail ?s, typed ?s)"
    using loop_edits [of ?s k] assms e by auto
  let ?t = "t\<lparr>held := held s\<rparr>"
  have "consoleintr k getc s = Ret () ?t" using t(1,4) assms(4) by (simp add: consoleintr_def)
  moreover have "cons_inv ?t = cons_inv t" "on_screen ?t = on_screen t" "avail ?t = avail t" "typed ?t = typed t" "todo ?t = todo t"
    by (simp_all add: cons_inv_def on_screen_def avail_def typed_def ring_bytes_def stable [of t ?t, unfolded same_dev_def, simplified])
  ultimately show ?thesis using t e by simp
qed

end

definition uart_todo :: "'a cnst_scheme \<Rightarrow> int list" where
  "uart_todo s = (if uart_on s then map uint (uart_in s) else [])"

interpretation uart: char_device uartgetc uart_todo
proof
  fix s t :: "'a cnst_scheme" and c cs
  show "uart_todo s = [] \<Longrightarrow> uartgetc s = (-1, s)"
    by (auto simp: uart_todo_def uartgetc_def split: if_splits list.splits)
  show "\<exists>t. uartgetc s = (c, t) \<and> dev_frame s t \<and> uart_todo t = cs \<and> 0 \<le> c \<and> c < 256" if a: "uart_todo s = c # cs"
  proof -
    obtain x xs where x: "uart_on s" "uart_in s = x # xs" "c = uint x" "cs = map uint xs"
      using a by (auto simp: uart_todo_def map_eq_Cons_conv split: if_splits)
    then show ?thesis using uint_lt2p [of x] by (auto simp: uartgetc_def dev_frame_def uart_todo_def)
  qed
  show "same_dev s t \<Longrightarrow> uart_todo t = uart_todo s" by (simp add: uart_todo_def same_dev_def)
qed

text \<open>What the keyboard driver makes of the scan codes that wait, from a state of the shift keys.\<close>

primrec kbd_chars :: "u8 list \<Rightarrow> u8 \<Rightarrow> int list" where
  "kbd_chars [] shift = []"
| "kbd_chars (d # ds) shift = fst (kbd_decode d shift) # kbd_chars ds (snd (kbd_decode d shift))"

definition kbd_todo :: "'a cnst_scheme \<Rightarrow> int list" where
  "kbd_todo s = kbd_chars (kbd_in s) (kbd_shift s)"

lemma kbd_decode_range: "0 \<le> fst (kbd_decode d shift)" "fst (kbd_decode d shift) < 256"
  using uint_lt2p [where 'a = 8] by (simp_all add: kbd_decode_def Let_def case_prod_beta)

interpretation kbd: char_device kbdgetc kbd_todo
proof
  fix s t :: "'a cnst_scheme" and c cs
  show "kbd_todo s = [] \<Longrightarrow> kbdgetc s = (-1, s)"
    by (cases "kbd_in s") (simp_all add: kbd_todo_def kbdgetc_def)
  show "\<exists>t. kbdgetc s = (c, t) \<and> dev_frame s t \<and> kbd_todo t = cs \<and> 0 \<le> c \<and> c < 256" if "kbd_todo s = c # cs"
    using that kbd_decode_range [of "hd (kbd_in s)" "kbd_shift s"]
    by (cases "kbd_in s") (auto simp: kbd_todo_def kbdgetc_def dev_frame_def case_prod_beta)
  show "same_dev s t \<Longrightarrow> kbd_todo t = kbd_todo s" by (simp add: kbd_todo_def same_dev_def)
qed

lemma length_kbd_chars [simp]: "length (kbd_chars ds shift) = length ds"
  by (induction ds arbitrary: shift) simp_all

text \<open>
  C32: the interrupt handlers of the serial port and of the keyboard return, having taken
  every byte that was waiting, and the finished lines and the line being edited are
  what the editor makes of the characters.
\<close>

theorem console_input_edits:
  assumes "cons_inv s" "on_screen s" "\<not> panicked s" "set (held s) \<inter> {L_input, L_cons, L_ptable} = {}"
  shows "(\<exists>t. uartintr s = Ret () t \<and> cons_inv t \<and> on_screen t \<and> held t = held s \<and> uart_todo t = []
      \<and> (avail t, typed t) = fold edit (uart_todo s) (avail s, typed s))
    \<and> (\<exists>t. kbdintr s = Ret () t \<and> cons_inv t \<and> on_screen t \<and> held t = held s \<and> kbd_in t = []
      \<and> (avail t, typed t) = fold edit (kbd_chars (kbd_in s) (kbd_shift s)) (avail s, typed s))"
proof
  show "\<exists>t. uartintr s = Ret () t \<and> cons_inv t \<and> on_screen t \<and> held t = held s \<and> uart_todo t = []
      \<and> (avail t, typed t) = fold edit (uart_todo s) (avail s, typed s)"
    unfolding uartintr_def by (rule uart.intr_edits [OF assms]) (simp add: uart_todo_def)
  obtain t where t: "kbdintr s = Ret () t" "cons_inv t" "on_screen t" "held t = held s" "kbd_todo t = []"
      "(avail t, typed t) = fold edit (kbd_todo s) (avail s, typed s)"
    using kbd.intr_edits [OF assms, of "Suc (length (kbd_in s))"] by (auto simp: kbdintr_def kbd_todo_def)
  have "kbd_in t = []" using t(5) by (cases "kbd_in t") (simp_all add: kbd_todo_def)
  then show "\<exists>t. kbdintr s = Ret () t \<and> cons_inv t \<and> on_screen t \<and> held t = held s \<and> kbd_in t = []
      \<and> (avail t, typed t) = fold edit (kbd_chars (kbd_in s) (kbd_shift s)) (avail s, typed s)"
    using t by (auto simp: kbd_todo_def)
qed

theorem console_input_edits_witness:
  "\<exists>t. uartintr (demo_sys\<lparr>uart_in := [104, 106, 8, 105, 13, 120]\<rparr>) = Ret () t
    \<and> avail t = [104, 105, 10] \<and> typed t = [120]"
proof -
  let ?s = "demo_sys\<lparr>uart_in := [104, 106, 8, 105, 13, 120]\<rparr>"
  have a: "cons_inv ?s" "on_screen ?s" "\<not> panicked ?s" "set (held ?s) \<inter> {L_input, L_cons, L_ptable} = {}"
    "avail ?s = []" "typed ?s = []" "uart_todo ?s = [104, 106, 8, 105, 13, 120]"
    by (simp_all add: cons_inv_def on_screen_def avail_def typed_def ring_bytes_def uart_todo_def)
  have "fold edit (uart_todo ?s) (avail ?s, typed ?s) = ([104, 105, 10], [120])"
    by (simp add: a edit_def)
  then show ?thesis using console_input_edits [OF a(1-4)] by auto
qed

section \<open>Reading a line\<close>

lemma consoleread_byte:
  assumes "cons_inv s" "avail s = c # a"
  shows "in_r s \<noteq> in_w s" "in_buf s ! unat (in_r s mod 128) = c" "cons_inv (s\<lparr>in_r := in_r s + 1\<rparr>)"
    "avail (s\<lparr>in_r := in_r s + 1\<rparr>) = a" "typed (s\<lparr>in_r := in_r s + 1\<rparr>) = typed s"
proof -
  let ?t = "s\<lparr>in_r := in_r s + 1\<rparr>"
  have l: "unat (in_w s - in_r s) = Suc (length a)" using lengths(1) [OF assms(1)] assms(2) by simp
  then show rw: "in_r s \<noteq> in_w s" by auto
  have "unat (in_e s - in_r s) \<noteq> 0" using lengths(3) [OF assms(1)] assms(2) by simp
  then have re: "in_r s \<noteq> in_e s" by auto
  have dw: "unat (in_w s - (in_r s + 1)) = length a" using input_ring.diff_pred [OF rw] l by simp
  have de: "unat (in_e s - in_r s) = Suc (unat (in_e s - (in_r s + 1)))" by (rule input_ring.diff_pred [OF re])
  have "ring_bytes s = in_buf s ! unat (in_r s mod 128) # ring_bytes ?t"
    using input_ring.get [OF re, of "in_buf s"] by (simp add: ring_bytes_def unat_mod)
  moreover have "ring_bytes s = c # a @ typed s" using ring_bytes_split [of s] assms(2) by simp
  ultimately have b: "in_buf s ! unat (in_r s mod 128) = c" "ring_bytes ?t = a @ typed s" by simp_all
  show "in_buf s ! unat (in_r s mod 128) = c" by (rule b(1))
  show t: "avail ?t = a" "typed ?t = typed s" using b(2) dw by (simp_all add: avail_def typed_def [of ?t])
  show "cons_inv ?t" using assms(1) l dw de t(2) by (simp add: cons_inv_def)
qed

text \<open>The part of the finished bytes that one call of \<open>consoleread\<close> delivers: at most a line.\<close>

lemma consoleread_loop_line:
  assumes "cons_inv s" "avail s = l @ 10 # rest" "10 \<notin> set l" "4 \<notin> set l" "length l < n"
  shows "\<exists>t. consoleread_loop n target acc s = Ret (Some (int (n - Suc (length l)), acc @ l @ [10])) t \<and> cons_inv t
    \<and> avail t = rest \<and> typed t = typed s \<and> t = s\<lparr>in_r := in_r t\<rparr>"
  using assms
proof (induction l arbitrary: n acc s)
  case Nil
  then obtain m where n: "n = Suc m" by (cases n) auto
  have av: "avail s = 10 # rest" using Nil.prems(2) by simp
  note r = consoleread_byte [OF Nil.prems(1) av]
  then show ?case using n by (intro exI [of _ "s\<lparr>in_r := in_r s + 1\<rparr>"]) (simp add: Let_def)
next
  case (Cons c l)
  then obtain m where n: "n = Suc m" by (cases n) auto
  have av: "avail s = c # l @ 10 # rest" using Cons.prems(2) by simp
  note r = consoleread_byte [OF Cons.prems(1) av]
  let ?s = "s\<lparr>in_r := in_r s + 1\<rparr>"
  obtain t where t: "consoleread_loop m target (acc @ [c]) ?s = Ret (Some (int (m - Suc (length l)), (acc @ [c]) @ l @ [10])) t"
      "cons_inv t" "avail t = rest" "typed t = typed ?s" "t = ?s\<lparr>in_r := in_r t\<rparr>"
    using Cons.IH [of ?s m "acc @ [c]"] r Cons.prems n by auto
  have "t = s\<lparr>in_r := in_r t\<rparr>" by (subst t(5)) simp
  then show ?case using t r n Cons.prems(3,4) by (intro exI [of _ t]) (auto simp: Let_def)
qed

lemma iunlock_runs:
  assumes "held s = []" "i_busy (icache s ! ip)" "1 \<le> i_ref (icache s ! ip)"
  shows "iunlock ip s = Ret () (wakeup1 (Ch_inode ip) (upd_inode ip (\<lambda>x. x\<lparr>i_busy := False\<rparr>) s))"
  using assms by (simp add: iunlock_def wakeup_Ret upd_inode_def) (simp add: wakeup1_def)

lemma ilock_runs:
  assumes "held s = []" "\<not> i_busy (icache s ! ip)" "1 \<le> i_ref (icache s ! ip)" "i_valid (icache s ! ip)" "ip < length (icache s)"
  shows "ilock ip s = Ret () (upd_inode ip (\<lambda>x. x\<lparr>i_busy := True\<rparr>) s)"
  using assms by (simp add: ilock_def upd_inode_def) 

text \<open>
  C33: \<open>consoleread\<close> into a buffer that is long enough returns the first finished line with its
  newline, leaves the following lines for the next reader and the line being edited alone, and
  returns with the inode locked again.
\<close>

theorem consoleread_line:
  assumes "held s = []" "ip < length (icache s)" "i_busy (icache s ! ip)" "1 \<le> i_ref (icache s ! ip)" "i_valid (icache s ! ip)"
    and "cons_inv s" "avail s = l @ 10 # rest" "10 \<notin> set l" "4 \<notin> set l" "int (length l) < n"
  shows "\<exists>t. consoleread ip n s = Ret (int (length l) + 1, l @ [10]) t \<and> cons_inv t \<and> avail t = rest
    \<and> typed t = typed s \<and> icache t = icache s \<and> held t = []"
proof -
  let ?u = "wakeup1 (Ch_inode ip) (upd_inode ip (\<lambda>x. x\<lparr>i_busy := False\<rparr>) s)"
  let ?v = "?u\<lparr>held := [L_input]\<rparr>"
  have v: "cons_inv ?v" "avail ?v = l @ 10 # rest" "typed ?v = typed s" "held ?u = []"
    using assms(1,6,7) by (simp_all add: cons_inv_def avail_def typed_def ring_bytes_def upd_inode_def wakeup1_def)
  have ln: "length l < nat n" using assms(10) by simp
  obtain w where w: "consoleread_loop (nat n) n [] ?v = Ret (Some (int (nat n - Suc (length l)), l @ [10])) w"
      "cons_inv w" "avail w = rest" "typed w = typed s" "w = ?v\<lparr>in_r := in_r w\<rparr>"
    using consoleread_loop_line [OF v(1,2) assms(8,9) ln, of n "[]"] v(3) by auto
  have busy: "(icache s ! ip)\<lparr>i_busy := True\<rparr> = icache s ! ip" using assms(3) by (cases "icache s ! ip") simp
  define x where "x = w\<lparr>held := []\<rparr>"
  have ic: "icache x = (icache s)[ip := (icache s ! ip)\<lparr>i_busy := False\<rparr>]" "held w = [L_input]"
    unfolding x_def by (subst w(5), simp add: upd_inode_def wakeup1_def)+
  let ?t = "upd_inode ip (\<lambda>x. x\<lparr>i_busy := True\<rparr>) x"
  have "ilock ip x = Ret () ?t" using assms(2-5) ic by (intro ilock_runs) (simp_all add: x_def)
  then have "consoleread ip n s = Ret (int (length l) + 1, l @ [10]) ?t"
    using iunlock_runs [OF assms(1,3,4)] w(1) assms(10) v(4) ic(2) by (simp add: consoleread_def x_def)
  moreover have "icache ?t = icache s"
    using busy ic(1) assms(2) by (simp add: upd_inode_def)
  moreover have "cons_inv ?t" "avail ?t = rest" "typed ?t = typed s" "held ?t = []"
    using w(2-4) by (simp_all add: x_def cons_inv_def avail_def typed_def ring_bytes_def upd_inode_def)
  ultimately show ?thesis by blast
qed

theorem consoleread_line_witness:
  "\<exists>t. consoleread 0 100 (demo_sys\<lparr>icache := [zero_inode\<lparr>i_busy := True, i_ref := 1, i_valid := True\<rparr>],
       in_buf := [104, 105, 10, 120] @ replicate 124 0, in_w := 3, in_e := 4\<rparr>) = Ret (3, [104, 105, 10]) t
     \<and> avail t = [] \<and> typed t = [120]"
proof -
  let ?s = "demo_sys\<lparr>icache := [zero_inode\<lparr>i_busy := True, i_ref := 1, i_valid := True\<rparr>],
       in_buf := [104, 105, 10, 120] @ replicate 124 0, in_w := 3, in_e := 4\<rparr>"
  have "[0..<4] = [0, 1, 2, 3 :: nat]" by code_simp
  then have b: "ring_bytes ?s = [104, 105, 10, 120]" by (simp add: ring_bytes_def ring_list_def)
  have a: "avail ?s = [104, 105] @ 10 # []" "typed ?s = [120]" unfolding avail_def typed_def b by simp_all
  have "cons_inv ?s" using a(2) by (simp add: cons_inv_def)
  then show ?thesis using consoleread_line [OF _ _ _ _ _ _ a(1), of 0 100] a(2) by (auto simp: zero_inode_def)
qed

end
