(* ===== verification/Inode_Spec.thy ===== *)
theory Inode_Spec
  imports Demo
begin

text \<open>
  The formats of inodes and directory entries, the inode cache as a set of references to
  different inodes, and the elements of path names.
\<close>

section \<open>On-disk formats\<close>

lemma put_words_other16: "j + 2 \<le> i \<or> i + 4 * length xs \<le> j \<Longrightarrow> get16 (put_words d i xs) j = get16 d j"
  by (induction xs arbitrary: d i) (auto simp: get16_put32_other)

lemma put_words_other32: "j + 4 \<le> i \<or> i + 4 * length xs \<le> j \<Longrightarrow> get32 (put_words d i xs) j = get32 d j"
  by (induction xs arbitrary: d i) (auto simp: get32_put32_other)

lemma length_put_words [simp]: "length (put_words d i xs) = length d"
  by (induction xs arbitrary: d i) simp_all

lemma put_words_nth:
  "i + 4 * length xs \<le> length d \<Longrightarrow> j < length xs \<Longrightarrow> get32 (put_words d i xs) (i + 4 * j) = xs ! j"
proof (induction xs arbitrary: d i j)
  case (Cons x xs)
  show ?case
  proof (cases j)
    case 0
    then show ?thesis using Cons.prems by (simp add: put_words_other32)
  next
    case (Suc k)
    then show ?thesis using Cons.IH [of "i + 4" "put32 d i x" k] Cons.prems by (simp add: add.assoc)
  qed
qed simp

lemma dinode_same:
  assumes "i + 64 \<le> length d" "length (di_addrs di) = 13"
  shows "get_dinode (put_dinode d i di) i = di"
proof -
  have "map (\<lambda>j. get32 (put_dinode d i di) (i + 12 + 4 * j)) [0..<13] = di_addrs di"
  proof (rule nth_equalityI)
    fix j assume "j < length (map (\<lambda>j. get32 (put_dinode d i di) (i + 12 + 4 * j)) [0..<13])"
    then show "map (\<lambda>j. get32 (put_dinode d i di) (i + 12 + 4 * j)) [0..<13] ! j = di_addrs di ! j"
      using assms by (simp add: put_dinode_def put_words_nth)
  qed (simp add: assms)
  then show ?thesis using assms
    by (cases di) (simp add: get_dinode_def put_dinode_def put_words_other16 put_words_other32 get_put)
qed

lemma dinode_other:
  assumes "j + 64 \<le> i \<or> i + 64 \<le> j" "length (di_addrs di) = 13"
  shows "get_dinode (put_dinode d i di) j = get_dinode d j"
proof -
  have "map (\<lambda>k. get32 (put_dinode d i di) (j + 12 + 4 * k)) [0..<13] = map (\<lambda>k. get32 d (j + 12 + 4 * k)) [0..<13]"
    using assms by (intro map_cong refl) (auto simp: put_dinode_def put_words_other32 get_put)
  then show ?thesis using assms
    by (auto simp: get_dinode_def put_dinode_def put_words_other16 put_words_other32 get_put)
qed

text \<open>
  C31: writing an inode into one of the eight places of a block and reading it back gives the
  inode, and the inodes in the other places stay as they are.
\<close>

theorem dinode_roundtrip:
  assumes "length d = 512" "k < 8" "length (di_addrs di) = 13"
  shows "\<forall>j<8. get_dinode (put_dinode d (64 * k) di) (64 * j) = (if j = k then di else get_dinode d (64 * j))"
proof (intro allI impI)
  fix j :: nat assume "j < 8"
  show "get_dinode (put_dinode d (64 * k) di) (64 * j) = (if j = k then di else get_dinode d (64 * j))"
    using assms dinode_same [of "64 * k" d di] dinode_other [of "64 * j" "64 * k" di d] by (cases j k rule: linorder_cases) auto
qed

theorem dinode_roundtrip_witness:
  "get_dinode (put_dinode (replicate 512 0) 64 \<lparr>di_type = 2, di_major = 0, di_minor = 0, di_nlink = 1, di_size = 700,
      di_addrs = 31 # 32 # replicate 11 0\<rparr>) 64
    = \<lparr>di_type = 2, di_major = 0, di_minor = 0, di_nlink = 1, di_size = 700, di_addrs = 31 # 32 # replicate 11 0\<rparr>"
  using dinode_roundtrip [of "replicate 512 0" 1 "\<lparr>di_type = 2, di_major = 0, di_minor = 0, di_nlink = 1, di_size = 700,
      di_addrs = 31 # 32 # replicate 11 0\<rparr>", THEN spec, of 1] by simp

section \<open>Path names\<close>

text \<open>A path read byte by byte: the pieces between slashes, without the empty ones.\<close>

fun pieces :: "u8 list \<Rightarrow> u8 list list" where
  "pieces [] = [[]]"
| "pieces (c # cs) = (if c = 47 then [] # pieces cs else (c # hd (pieces cs)) # tl (pieces cs))"

definition elements :: "u8 list \<Rightarrow> u8 list list" where
  "elements path = filter (\<lambda>e. e \<noteq> []) (pieces path)"

lemma pieces_ne [simp]: "pieces p \<noteq> []"
  by (cases p) auto

lemma pieces_elem:
  "47 \<notin> set e \<Longrightarrow> pieces (e @ p) = (e @ hd (pieces p)) # tl (pieces p)"
  by (induction e) auto

lemma elements_slash: "elements (47 # p) = elements p"
  by (simp add: elements_def)

lemma elements_slashes: "elements (dropWhile (\<lambda>c. c = 47) p) = elements p"
  by (induction p) (auto simp: elements_slash)

lemma elements_elem:
  assumes "47 \<notin> set e" "e \<noteq> []" "p = [] \<or> hd p = 47"
  shows "elements (e @ p) = e # elements p"
proof (cases p)
  case Nil
  then show ?thesis using assms pieces_elem [of e "[]"] by (simp add: elements_def)
next
  case (Cons c q)
  then have "c = 47" using assms(3) by simp
  then show ?thesis using assms Cons pieces_elem [of e p] by (simp add: elements_def)
qed

text \<open>
  C30: \<open>skipelem\<close> finds the first element of the path, cut to 14 bytes, and the rest has the other
  elements; it fails exactly when the path has none.
\<close>

theorem skipelem_elements:
  "case skipelem path of
     None \<Rightarrow> elements path = []
   | Some (rest, nm) \<Rightarrow> \<exists>e es. elements path = e # es \<and> nm = take 14 e \<and> elements rest = es
       \<and> length rest < length path \<and> takeWhile (\<lambda>c. c = 47) rest = []"
proof -
  define p where "p = dropWhile (\<lambda>c. c = 47) path"
  define e where "e = takeWhile (\<lambda>c. c \<noteq> 47) p"
  define q where "q = dropWhile (\<lambda>c. c \<noteq> 47) p"
  have ep: "elements path = elements p" by (simp add: p_def elements_slashes)
  show ?thesis
  proof (cases "p = []")
    case True
    then show ?thesis using ep by (simp add: skipelem_def flip: p_def) (simp add: elements_def)
  next
    case False
    have "hd p \<noteq> 47" using False hd_dropWhile [of "\<lambda>c. c = 47" path] by (simp add: p_def)
    then have e: "e \<noteq> []" "47 \<notin> set e" using False by (cases p; auto simp: e_def dest: set_takeWhileD)+
    have q: "q = [] \<or> hd q = 47" using hd_dropWhile [of "\<lambda>c. c \<noteq> 47" p] by (auto simp: q_def)
    have pq: "p = e @ q" by (simp add: e_def q_def)
    have "elements p = e # elements q" unfolding pq by (rule elements_elem [OF e(2,1) q])
    moreover have "skipelem path = Some (dropWhile (\<lambda>c. c = 47) q, take 14 e)"
      using False by (simp add: skipelem_def Let_def flip: p_def e_def q_def)
    moreover have "length (dropWhile (\<lambda>c. c = 47) q) < length path"
    proof -
      have "length (dropWhile (\<lambda>c. c = 47) q) \<le> length q" by (rule length_dropWhile_le)
      also have "\<dots> < length p" using pq e(1) by (metis length_append length_greater_0_conv less_add_same_cancel2)
      also have "\<dots> \<le> length path" unfolding p_def by (rule length_dropWhile_le)
      finally show ?thesis .
    qed
    moreover have "takeWhile (\<lambda>c. c = 47) (dropWhile (\<lambda>c. c = 47) q) = []"
      by (induction q) simp_all
    ultimately show ?thesis using ep elements_slashes by simp
  qed
qed

section \<open>The inode cache\<close>

text \<open>
  Entries in use have different inodes, and reference counts are never negative. \<open>irefs\<close> is the
  number of references to an inode.
\<close>

definition icache_inv :: "inode list \<Rightarrow> bool" where
  "icache_inv xs \<longleftrightarrow> (\<forall>i<length xs. 0 \<le> i_ref (xs ! i)) \<and>
     (\<forall>i<length xs. \<forall>j<length xs. i_ref (xs ! i) > 0 \<longrightarrow> i_ref (xs ! j) > 0 \<longrightarrow> i_dev (xs ! i) = i_dev (xs ! j) \<longrightarrow>
        i_inum (xs ! i) = i_inum (xs ! j) \<longrightarrow> i = j)"

definition used :: "u32 \<Rightarrow> u32 \<Rightarrow> inode \<Rightarrow> bool" where
  "used dev inum x \<longleftrightarrow> i_ref x > 0 \<and> i_dev x = dev \<and> i_inum x = inum"

definition irefs :: "inode list \<Rightarrow> u32 \<Rightarrow> u32 \<Rightarrow> int" where
  "irefs xs dev inum = (\<Sum>x\<leftarrow>xs. if i_dev x = dev \<and> i_inum x = inum then i_ref x else 0)"

lemma icache_unique:
  "icache_inv xs \<Longrightarrow> i < length xs \<Longrightarrow> j < length xs \<Longrightarrow> i_ref (xs ! i) > 0 \<Longrightarrow> i_ref (xs ! j) > 0 \<Longrightarrow>
   i_dev (xs ! i) = i_dev (xs ! j) \<Longrightarrow> i_inum (xs ! i) = i_inum (xs ! j) \<Longrightarrow> i = j"
  by (simp add: icache_inv_def)

lemma irefs_upd:
  assumes "i < length xs"
  shows "irefs (xs[i := x]) dev inum = irefs xs dev inum
    + (if i_dev x = dev \<and> i_inum x = inum then i_ref x else 0)
    - (if i_dev (xs ! i) = dev \<and> i_inum (xs ! i) = inum then i_ref (xs ! i) else 0)"
proof -
  define f :: "inode \<Rightarrow> int" where "f = (\<lambda>x. if i_dev x = dev \<and> i_inum x = inum then i_ref x else 0)"
  have "sum_list (map f (xs[i := x])) = sum_list (map f xs) + f x - f (xs ! i)"
    using assms by (induction xs arbitrary: i) (auto split: nat.split)
  then show ?thesis by (simp add: irefs_def f_def)
qed

text \<open>Giving an entry a new reference count, and a new inode when it was free.\<close>

lemma icache_inv_upd:
  assumes "icache_inv xs" "i < length xs" "0 \<le> i_ref x"
    and "i_ref x > 0 \<Longrightarrow> (\<forall>j<length xs. j \<noteq> i \<longrightarrow> i_ref (xs ! j) > 0 \<longrightarrow> \<not> (i_dev (xs ! j) = i_dev x \<and> i_inum (xs ! j) = i_inum x))"
  shows "icache_inv (xs[i := x])"
  unfolding icache_inv_def
proof (intro conjI allI impI)
  fix j assume "j < length (xs[i := x])"
  then show "0 \<le> i_ref (xs[i := x] ! j)" using assms(1,3) by (cases "j = i") (auto simp: icache_inv_def)
next
  fix j k assume a: "j < length (xs[i := x])" "k < length (xs[i := x])" "i_ref (xs[i := x] ! j) > 0" "i_ref (xs[i := x] ! k) > 0"
    "i_dev (xs[i := x] ! j) = i_dev (xs[i := x] ! k)" "i_inum (xs[i := x] ! j) = i_inum (xs[i := x] ! k)"
  show "j = k"
  proof (rule ccontr)
    assume ne: "j \<noteq> k"
    consider "j = i" | "k = i" | "j \<noteq> i" "k \<noteq> i" by blast
    then show False
    proof cases
      case 1
      then show False using a ne assms(2,4) by auto
    next
      case 2
      then show False using a ne assms(2,4) by auto
    next
      case 3
      then show False using a ne icache_unique [OF assms(1), of j k] by simp
    qed
  qed
qed

lemma icache_inv_ref:
  assumes "icache_inv xs" "i < length xs" "i_ref (xs ! i) > 0" "0 \<le> r"
  shows "icache_inv (xs[i := (xs ! i)\<lparr>i_ref := r\<rparr>])"
proof (rule icache_inv_upd [OF assms(1,2)])
  show "\<forall>j<length xs. j \<noteq> i \<longrightarrow> i_ref (xs ! j) > 0 \<longrightarrow>
      \<not> (i_dev (xs ! j) = i_dev ((xs ! i)\<lparr>i_ref := r\<rparr>) \<and> i_inum (xs ! j) = i_inum ((xs ! i)\<lparr>i_ref := r\<rparr>))"
  proof (intro allI impI notI)
    fix j assume "j < length xs" "j \<noteq> i" "i_ref (xs ! j) > 0"
      "i_dev (xs ! j) = i_dev ((xs ! i)\<lparr>i_ref := r\<rparr>) \<and> i_inum (xs ! j) = i_inum ((xs ! i)\<lparr>i_ref := r\<rparr>)"
    then show False using icache_unique [OF assms(1), of j i] assms(2,3) by simp
  qed
qed (simp add: assms(4))

text \<open>
  C29: \<open>iget\<close> returns an entry for the inode with one more reference, the one that is in use
  for the inode when there is one; it keeps entries for different inodes apart and the references to other
  inodes unchanged, and panics exactly when there is neither such an entry nor a free one.
\<close>

theorem iget_correct:
  assumes "held s = []" "icache_inv (icache s)"
  shows "if (\<exists>x \<in> set (icache s). used dev inum x \<or> i_ref x = 0)
    then \<exists>ip t. iget dev inum s = Ret ip t \<and> held t = [] \<and> ip < length (icache t) \<and> icache_inv (icache t)
      \<and> i_dev (icache t ! ip) = dev \<and> i_inum (icache t ! ip) = inum \<and> i_ref (icache t ! ip) > 0
      \<and> (used dev inum (icache s ! ip) \<or> (\<forall>x \<in> set (icache s). \<not> used dev inum x) \<and> \<not> i_valid (icache t ! ip))
      \<and> (\<forall>d n. irefs (icache t) d n = irefs (icache s) d n + (if d = dev \<and> n = inum then 1 else 0))
    else iget dev inum s = Panic ''iget: no inodes''"
proof (cases "find_index (used dev inum) (icache s)")
  case (Some ip)
  note f = find_index_Some(1,2) [OF Some]
  let ?x = "(icache s ! ip)\<lparr>i_ref := i_ref (icache s ! ip) + 1\<rparr>"
  let ?t = "s\<lparr>icache := (icache s)[ip := ?x]\<rparr>"
  have "iget dev inum s = Ret ip ?t"
    using Some assms(1) by (simp add: iget_def upd_inode_def used_def [abs_def])
  moreover have "icache_inv (icache ?t)"
    using f icache_inv_ref [OF assms(2) f(1), of "i_ref (icache s ! ip) + 1"] by (simp add: used_def)
  moreover have "irefs (icache ?t) d n = irefs (icache s) d n + (if d = dev \<and> n = inum then 1 else 0)" for d n
    using f by (auto simp: irefs_upd used_def)
  moreover have "icache s ! ip \<in> set (icache s)" using f(1) by simp
  ultimately show ?thesis using f assms(1) by (auto simp: used_def)
next
  case None
  then have nu: "\<forall>x \<in> set (icache s). \<not> used dev inum x" by (simp add: find_index_None)
  show ?thesis
  proof (cases "find_index (\<lambda>x. i_ref x = 0) (icache s)")
    case None2: None
    then have "\<forall>x \<in> set (icache s). i_ref x \<noteq> 0" by (simp add: find_index_None)
    moreover have "iget dev inum s = Panic ''iget: no inodes''"
      using None None2 assms(1) by (simp add: iget_def used_def [abs_def])
    ultimately show ?thesis using nu by auto
  next
    case (Some ip)
    note f = find_index_Some(1,2) [OF Some]
    let ?x = "(icache s ! ip)\<lparr>i_dev := dev, i_inum := inum, i_ref := 1, i_busy := False, i_valid := False\<rparr>"
    let ?t = "s\<lparr>icache := (icache s)[ip := ?x]\<rparr>"
    have "iget dev inum s = Ret ip ?t"
      using None Some assms(1) by (simp add: iget_def upd_inode_def used_def [abs_def])
    moreover have "icache_inv (icache ?t)"
      using f(1) nu nth_mem [of _ "icache s"] by (simp, intro icache_inv_upd [OF assms(2)]) (auto simp: used_def)
    moreover have "irefs (icache ?t) d n = irefs (icache s) d n + (if d = dev \<and> n = inum then 1 else 0)" for d n
      using f by (auto simp: irefs_upd)
    moreover have "icache s ! ip \<in> set (icache s)" using f(1) by simp
    ultimately show ?thesis using f nu assms(1) by auto
  qed
qed

theorem iget_correct_witness:
  "\<exists>ip t. iget 1 7 demo_sys = Ret ip t \<and> i_dev (icache t ! ip) = 1 \<and> i_inum (icache t ! ip) = 7 \<and> irefs (icache t) 1 7 = 1"
proof -
  have "icache_inv (icache demo_sys)" by (simp add: icache_inv_def zero_inode_def)
  moreover have "irefs (icache demo_sys) 1 7 = 0" by (simp add: irefs_def zero_inode_def sum_list_replicate)
  ultimately show ?thesis using iget_correct [of demo_sys 1 7] by (auto simp: zero_inode_def)
qed

end
