(* ===== verification/Block_Spec.thy ===== *)
theory Block_Spec
  imports Crash_Safety Demo
begin

text \<open>
  Operations that change blocks inside a transaction: all of them read a block, change it, pass it to
  \<open>log_write\<close> and release it. The bitmap of free blocks, the zeroing of a block, and the inodes on the disk.
\<close>

section \<open>Changing a block in a transaction\<close>

text \<open>
  What such operations need: the invariant of the log, nothing held, an open operation, and
  room for \<open>k\<close> more blocks in the log.
\<close>

definition log_ready :: "nat \<Rightarrow> 'a logst_scheme \<Rightarrow> bool" where
  "log_ready k s \<longleftrightarrow> log_inv s \<and> v_busy (view_of s) = {} \<and> 1 \<le> outstanding s \<and> lh_n s + int k \<le> log_size s - 1"

text \<open>Operations change only the log and the cache.\<close>

definition lframe :: "'a logst_scheme \<Rightarrow> 'a logst_scheme \<Rightarrow> bool" where
  "lframe s t \<longleftrightarrow> t = s\<lparr>bufs := bufs t, ptable := ptable t, lh_n := lh_n t, lh_sector := lh_sector t\<rparr>"

lemma lframe_trans: "lframe s t \<Longrightarrow> lframe t u \<Longrightarrow> lframe s u"
proof -
  assume a: "lframe s t" "lframe t u"
  have u: "u = t\<lparr>bufs := bufs u, ptable := ptable u, lh_n := lh_n u, lh_sector := lh_sector u\<rparr>"
    and t: "t = s\<lparr>bufs := bufs t, ptable := ptable t, lh_n := lh_n t, lh_sector := lh_sector t\<rparr>"
    using a by (simp_all add: lframe_def)
  have "u = s\<lparr>bufs := bufs u, ptable := ptable u, lh_n := lh_n u, lh_sector := lh_sector u\<rparr>" by (subst u, subst t) simp
  then show ?thesis by (simp add: lframe_def)
qed

lemma lframe_refl [simp]: "lframe s s"
  by (simp add: lframe_def)

lemma lframeD:
  assumes "lframe s t"
  shows "log_start t = log_start s" "disksize t = disksize s" "outstanding t = outstanding s" "log_size t = log_size s"
    "disk t = disk s" "wtrace t = wtrace s"
proof -
  have e: "t = s\<lparr>bufs := bufs t, ptable := ptable t, lh_n := lh_n t, lh_sector := lh_sector t\<rparr>" using assms by (simp add: lframe_def)
  show "log_start t = log_start s" "disksize t = disksize s" "outstanding t = outstanding s" "log_size t = log_size s"
    "disk t = disk s" "wtrace t = wtrace s" by (subst e, simp)+
qed

lemma home_ok_frame: "lframe s t \<Longrightarrow> home_ok t x = home_ok s x"
  by (simp add: home_ok_def lframeD)

text \<open>A state with the same disk is a frame of the cache operations.\<close>

lemma bframe_lframe:
  assumes "bframe s (t :: 'a logst_scheme)" "disk t = disk s" "wtrace t = wtrace s"
  shows "lframe s t"
proof -
  have e: "t = s\<lparr>bufs := bufs t, disk := disk t, wtrace := wtrace t, ptable := ptable t\<rparr>" using assms(1) by (simp add: bframe_def)
  have "t = s\<lparr>bufs := bufs t, ptable := ptable t, lh_n := lh_n t, lh_sector := lh_sector t\<rparr>"
    using assms(2,3) bframe_log(4,5) [OF assms(1)] by (subst e) simp
  then show ?thesis by (simp add: lframe_def)
qed

lemma view_sel:
  "v_disk (view_of t) = disk t" "v_trace (view_of t) = wtrace t" "v_block (view_of t) = block t"
  by (simp_all add: view_of_def)

lemma view_frame:
  assumes "bframe s (t :: 'a logst_scheme)" "v_disk (view_of t) = v_disk (view_of s)" "v_trace (view_of t) = v_trace (view_of s)"
  shows "lframe s t"
  using bframe_lframe [OF assms(1)] assms(2,3) by (simp add: view_sel)

text \<open>Reading a block that one may then change.\<close>

lemma txn_read:
  assumes "log_inv s" "sec < disksize s" "v_busy (view_of s) = {}"
  obtains b t where "bread ROOTDEV sec s = Ret b t" "log_inv t" "holds t b sec" "b_data (bufs t ! b) = block s sec"
    "view_of t = v_read sec (view_of s)" "lframe s t" "txn t = txn s" "lh_n t = lh_n s"
proof -
  have "card (pinned (view_of s)) \<le> 29"
    using card_length [of "txn s"] log_inv_layout(3) [OF assms(1)] log_inv_fields(8) [OF assms(1)] assms(3)
    by (simp add: card_pinned)
  then obtain b t where t: "bread ROOTDEV sec s = Ret b t" "bio_ok t" "view_of t = v_read sec (view_of s)" "bframe s t" "holds t b sec"
    using bio.rd_law [OF log_inv_fields(1) [OF assms(1)] assms(2)] assms(3) by force
  have g: "b_data (bufs t ! b) = block s sec"
    using bio.get_law [OF t(2,5)] arg_cong [OF t(3), of v_block] by (simp add: v_read_def) (simp add: view_of_def)
  have f: "lframe s t" by (rule view_frame [OF t(4)]) (simp_all add: t(3) v_read_def)
  show ?thesis
    using that [OF t(1) _ t(5) g t(3) f] log_inv_frame [OF assms(1) t(4,2)] t(3) bframe_log(4) [OF t(4)]
    by (simp add: v_read_def)
qed

text \<open>Changing a block that one holds: the rest of the round.\<close>

lemma log_write_lframe:
  assumes "log_inv s" "holds s b sec" "home_ok s sec" "lh_n s < log_size s - 1" "1 \<le> outstanding s"
  obtains t where "log_write b s = Ret () t" "log_inv t" "view_of t = v_pin sec (view_of s)" "lframe s t"
    "lh_n t \<le> lh_n s + 1" "set (txn t) = insert sec (set (txn s))" "holds t b sec"
proof -
  have i: "0 \<le> lh_n s" "lh_n s < 30" "length (lh_sector s) = 30" using assms(1,4) by (auto simp: log_inv_def)
  have sec: "b_sector (bufs s ! b) = sec" using assms(2) by (simp add: holds_def)
  note e = log_write_eq [OF i(1) assms(4) i(2,3) assms(5) sec]
  obtain t where t: "log_write b s = Ret () t" "log_inv t" "view_of t = v_pin sec (view_of s)"
      "txn t = (if sec \<in> set (txn s) then txn s else txn s @ [sec])"
    using log_write_runs [OF assms] by auto
  let ?u = "if sec \<in> set (txn s) then s else s\<lparr>lh_sector := (lh_sector s)[nat (lh_n s) := sec], lh_n := lh_n s + 1\<rparr>"
  have tt: "t = upd_buf b (\<lambda>x. x\<lparr>b_dirty := True\<rparr>) ?u" using e t(1) by simp
  have f: "lframe s t" "lh_n t \<le> lh_n s + 1" unfolding tt by (simp_all add: upd_buf_def lframe_def)
  have "length (bufs s) = 31" using log_inv_fields(1) [OF assms(1)] mru_length by (auto simp: bio_ok_def binv_def)
  then have h: "holds t b sec" using assms(2) unfolding tt by (auto simp: upd_buf_def holds_def)
  show ?thesis by (rule that [OF t(1-3) f _ h]) (auto simp: t(4))
qed

lemma log_write_other: "log_write b s = Ret () t \<Longrightarrow> i \<noteq> b \<Longrightarrow> bufs t ! i = bufs s ! i"
  by (auto simp: log_write_def Let_def upd_buf_def split: if_splits)

lemma txn_write:
  assumes "log_inv t" "holds t b sec" "home_ok t sec" "lh_n t < log_size t - 1" "1 \<le> outstanding t" "length d = 512"
  obtains u where "bindR (log_write b (put_data b d t)) (\<lambda>_ s. brelse b s) = Ret () u" "log_inv u"
    "v_busy (view_of u) = v_busy (view_of t) - {sec}" "block u = (block t)(sec := d)" "lframe t u" "lh_n u \<le> lh_n t + 1"
    "set (txn u) = insert sec (set (txn t))" "\<forall>i sc. i \<noteq> b \<longrightarrow> holds t i sc \<longrightarrow> holds u i sc"
proof -
  let ?p = "put_data b d t"
  note pl = bio.put_law [OF log_inv_fields(1) [OF assms(1)] assms(2,6)]
  have p: "bio_ok ?p" "view_of ?p = v_modify sec d (view_of t)" "bframe t ?p" "holds ?p b sec" using pl assms(2) by auto
  have fp: "lframe t ?p" by (simp add: lframe_def put_data_def upd_buf_def)
  note lp = lframeD [OF fp]
  have ip: "log_inv ?p" "txn ?p = txn t" using log_inv_frame [OF assms(1) p(3,1)] p(2) by (simp_all add: v_modify_def)
  have n: "lh_n ?p = lh_n t" by (simp add: put_data_def upd_buf_def)
  obtain v where v: "log_write b ?p = Ret () v" "log_inv v" "view_of v = v_pin sec (view_of ?p)" "lframe ?p v"
      "lh_n v \<le> lh_n ?p + 1" "set (txn v) = insert sec (set (txn ?p))" "holds v b sec"
    using log_write_lframe [OF ip(1) p(4)] assms(3-5) home_ok_frame [OF fp] lp n by metis
  have "sec \<in> v_dirty (view_of v)" using v(3) by (simp add: v_pin_def)
  then obtain u where u: "brelse b v = Ret () u" "bio_ok u" "view_of u = v_release sec (view_of v)" "bframe v u"
      "\<forall>i sc. i \<noteq> b \<longrightarrow> holds v i sc \<longrightarrow> holds u i sc"
    using bio.rel_law [OF log_inv_fields(1) [OF v(2)] v(7)] by blast
  have fu: "lframe v u" by (rule view_frame [OF u(4)]) (simp_all add: u(3) v_release_def)
  have "log_inv u" "txn u = txn v" using log_inv_frame [OF v(2) u(4,2)] u(3) by (simp_all add: v_release_def)
  moreover have "v_busy (view_of u) = v_busy (view_of t) - {sec}" "v_block (view_of u) = (v_block (view_of t))(sec := d)"
    using u(3) v(3) p(2) by (simp_all add: v_release_def v_pin_def v_modify_def)
  moreover have "lframe t u" using fp v(4) fu lframe_trans by blast
  moreover have "holds u i sc" if "i \<noteq> b" "holds t i sc" for i sc
  proof -
    have "holds ?p i sc" using pl that by blast
    moreover have "bufs v ! i = bufs ?p ! i"
      using log_write_other [OF v(1) that(1)] .
    ultimately show ?thesis using u(5) that(1) by (simp add: holds_def)
  qed
  ultimately show ?thesis
    using that [of u] v(1,5,6) u(1) bframe_log(4) [OF u(4)] n ip(2) by (simp add: view_sel)
qed

text \<open>Looking at a block without changing it.\<close>

lemma txn_peek:
  assumes "log_inv s" "sec < disksize s" "v_busy (view_of s) = {}"
  obtains b t u where "bread ROOTDEV sec s = Ret b t" "b_data (bufs t ! b) = block s sec" "brelse b t = Ret () u" "log_inv u"
    "v_busy (view_of u) = {}" "block u = block s" "lframe s u" "lh_n u = lh_n s" "txn u = txn s"
proof -
  obtain b t where t: "bread ROOTDEV sec s = Ret b t" "log_inv t" "holds t b sec" "b_data (bufs t ! b) = block s sec"
      "view_of t = v_read sec (view_of s)" "lframe s t" "txn t = txn s" "lh_n t = lh_n s"
    using txn_read [OF assms] by metis
  have "sec \<in> v_dirty (view_of t) \<or> v_block (view_of t) sec = v_disk (view_of t) sec"
    using clean_block [OF log_inv_fields(1) [OF assms(1)], of sec] assms(3) t(5) by (auto simp: v_read_def view_sel)
  then obtain u where u: "brelse b t = Ret () u" "bio_ok u" "view_of u = v_release sec (view_of t)" "bframe t u"
    using bio.rel_law [OF log_inv_fields(1) [OF t(2)] t(3)] by blast
  have f: "lframe t u" by (rule view_frame [OF u(4)]) (simp_all add: u(3) v_release_def)
  have v: "v_busy (view_of u) = {}" "v_block (view_of u) = v_block (view_of s)"
    using assms(3) by (simp_all add: u(3) t(5) v_release_def v_read_def)
  have "log_inv u" "txn u = txn t" using log_inv_frame [OF t(2) u(4,2)] u(3) by (simp_all add: v_release_def)
  then show ?thesis
    using that [OF t(1,4) u(1)] v t(7,8) lframe_trans [OF t(6) f] bframe_log(4) [OF u(4)] by (simp add: view_sel)
qed

lemma log_ready_frame:
  assumes "log_ready (Suc k) s" "log_inv t" "v_busy (view_of t) = {}" "lframe s t" "lh_n t \<le> lh_n s + 1"
  shows "log_ready k t"
  using assms lframeD(3,4) [OF assms(4)] by (simp add: log_ready_def)

lemma log_readyD:
  assumes "log_ready k s"
  shows "log_inv s" "v_busy (view_of s) = {}" "1 \<le> outstanding s" "0 < k \<Longrightarrow> lh_n s < log_size s - 1"
  using assms by (simp_all add: log_ready_def)

lemma readsb_reads:
  assumes "log_ready k s"
  obtains sb t where "readsb ROOTDEV s = Ret sb t" "log_ready k t" "block t = block s" "lframe s t" "txn t = txn s"
    "sb_size sb = get32 (block s 1) 0" "sb_ninodes sb = get32 (block s 1) 8"
proof -
  note r = log_readyD [OF assms]
  have "1 < disksize s" by (rule log_inv_fields(2) [OF r(1)])
  then obtain b t u where t: "bread ROOTDEV 1 s = Ret b t" "b_data (bufs t ! b) = block s 1" "brelse b t = Ret () u" "log_inv u"
      "v_busy (view_of u) = {}" "block u = block s" "lframe s u" "lh_n u = lh_n s" "txn u = txn s"
    using txn_peek [OF r(1) _ r(2)] by metis
  have "log_ready k u" using assms t(4,5,8) lframeD(3,4) [OF t(7)] by (simp add: log_ready_def)
  moreover have "readsb ROOTDEV s = Ret \<lparr>sb_size = get32 (block s 1) 0, sb_nblocks = get32 (block s 1) 4,
      sb_ninodes = get32 (block s 1) 8, sb_nlog = get32 (block s 1) 12\<rparr> u"
    using t(1-3) by (simp add: readsb_def Let_def)
  ultimately show ?thesis using that t(6,7,9) by simp
qed

text \<open>Reading a block that may be changed or not: both ways on.\<close>

lemma txn_modify:
  assumes "log_ready (Suc k) s" "home_ok s sec"
  obtains b t where "bread ROOTDEV sec s = Ret b t" "b_data (bufs t ! b) = block s sec"
    "\<And>d. length d = 512 \<Longrightarrow> \<exists>u. bindR (log_write b (put_data b d t)) (\<lambda>_ s. brelse b s) = Ret () u
       \<and> log_ready k u \<and> block u = (block s)(sec := d) \<and> lframe s u"
    "\<exists>u. brelse b t = Ret () u \<and> log_ready (Suc k) u \<and> block u = block s \<and> lframe s u"
proof -
  note r = log_readyD [OF assms(1)]
  have sec: "sec < disksize s" using assms(2) by (simp add: home_ok_def)
  obtain b t where t: "bread ROOTDEV sec s = Ret b t" "log_inv t" "holds t b sec" "b_data (bufs t ! b) = block s sec"
      "view_of t = v_read sec (view_of s)" "lframe s t" "txn t = txn s" "lh_n t = lh_n s"
    using txn_read [OF r(1) sec r(2)] by metis
  note f = lframeD [OF t(6)]
  have h: "home_ok t sec" "lh_n t < log_size t - 1" "1 \<le> outstanding t"
    using assms(2) r home_ok_frame [OF t(6)] f t(8) by simp_all
  have "v_block (view_of t) = v_block (view_of s)" using t(5) by (simp add: v_read_def)
  note bt = this [unfolded view_sel]
  have w: "\<exists>u. bindR (log_write b (put_data b d t)) (\<lambda>_ s. brelse b s) = Ret () u
       \<and> log_ready k u \<and> block u = (block s)(sec := d) \<and> lframe s u" if d: "length d = 512" for d
  proof -
    obtain u where u: "bindR (log_write b (put_data b d t)) (\<lambda>_ s. brelse b s) = Ret () u" "log_inv u"
        "v_busy (view_of u) = v_busy (view_of t) - {sec}" "block u = (block t)(sec := d)" "lframe t u" "lh_n u \<le> lh_n t + 1"
      by (rule txn_write [OF t(2,3) h d]) (rule that)
    have v: "v_busy (view_of u) = {}" using u(3) t(5) r(2) by (simp add: v_read_def)
    have fr: "lframe s u" by (rule lframe_trans [OF t(6) u(5)])
    have "log_ready k u" using log_ready_frame [OF assms(1) u(2) v fr] u(6) t(8) by simp
    then show ?thesis using u(1) u(4) [unfolded bt] fr by blast
  qed
  obtain b' t' u where p: "bread ROOTDEV sec s = Ret b' t'" "brelse b' t' = Ret () u" "log_inv u"
      "v_busy (view_of u) = {}" "block u = block s" "lframe s u" "lh_n u = lh_n s"
    by (rule txn_peek [OF r(1) sec r(2)]) (rule that)
  have "b' = b" "t' = t" using p(1) t(1) by simp_all
  moreover have "log_ready (Suc k) u" using assms(1) p lframeD(3,4) [OF p(6)] by (simp add: log_ready_def)
  ultimately have "\<exists>u. brelse b t = Ret () u \<and> log_ready (Suc k) u \<and> block u = block s \<and> lframe s u" using p by blast
  then show ?thesis using that [OF t(1,4) w] by blast
qed

text \<open>
  \<open>log_write\<close> does not look where a block lies. A block inside the log, or the super block, is recorded in
  the transaction like any other; only the invariant of the log is lost.
\<close>

lemma log_write_any:
  assumes "log_inv s" "holds s b sec" "lh_n s < log_size s - 1" "1 \<le> outstanding s"
  obtains t where "log_write b s = Ret () t" "bio_ok t" "view_of t = v_pin sec (view_of s)" "lframe s t"
    "sec \<in> set (txn t)" "holds t b sec" "log_inv t \<longleftrightarrow> home_ok s sec"
proof -
  have i: "0 \<le> lh_n s" "lh_n s < 29" "lh_n s < 30" "length (lh_sector s) = 30" using assms(1,3) by (auto simp: log_inv_def)
  have sec: "b_sector (bufs s ! b) = sec" using assms(2) by (simp add: holds_def)
  let ?s = "if sec \<in> set (txn s) then s else s\<lparr>lh_sector := (lh_sector s)[nat (lh_n s) := sec], lh_n := lh_n s + 1\<rparr>"
  let ?t = "upd_buf b (\<lambda>x. x\<lparr>b_dirty := True\<rparr>) ?s"
  have e: "log_write b s = Ret () ?t" using log_write_eq [OF i(1) assms(3) i(3,4) assms(4) sec] .
  have tx: "sec \<in> set (txn ?t)"
    using i by (simp add: upd_buf_def) (simp add: txn_def nat_add_distrib take_Suc_conv_app_nth)
  have v: "bio_ok ?t" "view_of ?t = v_pin sec (view_of s)"
    using pin_frame(1,2) [OF assms(1,2)] by (simp_all add: upd_buf_def bio_ok_def binv_def view_of_def)
  have f: "lframe s ?t" by (simp add: upd_buf_def lframe_def)
  have "length (bufs s) = 31" using log_inv_fields(1) [OF assms(1)] mru_length by (auto simp: bio_ok_def binv_def)
  then have h: "holds ?t b sec" using assms(2) by (auto simp: upd_buf_def holds_def)
  have "log_inv ?t" if "home_ok s sec" using log_write_runs [OF assms(1,2) that assms(3,4)] e by auto
  moreover have "home_ok s sec" if "log_inv ?t" using that tx home_ok_frame [OF f] by (auto simp: log_inv_def)
  ultimately show ?thesis using that [OF e v f tx h] by blast
qed

lemma bzero_any:
  assumes "log_ready (Suc k) s" "sec < disksize s"
  obtains t where "bzero ROOTDEV sec s = Ret () t" "block t = (block s)(sec := replicate 512 0)" "lframe s t"
    "sec \<in> set (txn t)" "log_inv t \<longleftrightarrow> home_ok s sec"
proof -
  note r = log_readyD [OF assms(1)]
  obtain b t where t: "bread ROOTDEV sec s = Ret b t" "log_inv t" "holds t b sec" "view_of t = v_read sec (view_of s)"
      "lframe s t" "lh_n t = lh_n s"
    using txn_read [OF r(1) assms(2) r(2)] by metis
  let ?z = "replicate 512 0 :: u8 list"
  let ?p = "put_data b ?z t"
  have p: "bio_ok ?p" "view_of ?p = v_modify sec ?z (view_of t)" "bframe t ?p" "holds ?p b sec"
    using bio.put_law [OF log_inv_fields(1) [OF t(2)] t(3), of ?z] t(3) by auto
  have fp: "lframe t ?p" "lh_n ?p = lh_n t" by (simp_all add: lframe_def put_data_def upd_buf_def)
  have ip: "log_inv ?p" using log_inv_frame [OF t(2) p(3,1)] p(2) by (simp add: v_modify_def)
  have room: "lh_n ?p < log_size ?p - 1" "1 \<le> outstanding ?p"
    using r(3,4) fp(2) t(6) lframeD(3,4) [OF t(5)] lframeD(3,4) [OF fp(1)] by simp_all
  obtain v where v: "log_write b ?p = Ret () v" "bio_ok v" "view_of v = v_pin sec (view_of ?p)" "lframe ?p v"
      "sec \<in> set (txn v)" "holds v b sec" "log_inv v \<longleftrightarrow> home_ok ?p sec"
    by (rule log_write_any [OF ip p(4) room]) (rule that)
  have "sec \<in> v_dirty (view_of v)" using v(3) by (simp add: v_pin_def)
  then obtain u where u: "brelse b v = Ret () u" "bio_ok u" "view_of u = v_release sec (view_of v)" "bframe v u"
    using bio.rel_law [OF v(2,6)] by blast
  have fu: "lframe v u" by (rule view_frame [OF u(4)]) (simp_all add: u(3) v_release_def)
  have fr: "lframe s u" using t(5) fp(1) v(4) fu lframe_trans by blast
  have tx: "txn u = txn v" using bframe_log(4,5) [OF u(4)] by (simp add: txn_def)
  have "v_block (view_of u) = (v_block (view_of s))(sec := ?z)"
    using u(3) v(3) p(2) t(4) by (simp add: v_release_def v_pin_def v_modify_def v_read_def)
  then have bl: "block u = (block s)(sec := ?z)" by (simp add: view_sel)
  have "log_inv u" if "log_inv v" using log_inv_frame(1) [OF that u(4,2)] u(3) by (simp add: v_release_def)
  then have "log_inv u \<longleftrightarrow> home_ok s sec"
    using v(5,7) tx home_ok_frame [OF fr] home_ok_frame [OF t(5)] home_ok_frame [OF fp(1)] by (auto simp: log_inv_def)
  moreover have "bzero ROOTDEV sec s = Ret () u" using t(1) v(1) u(1) by (simp add: bzero_def Let_def)
  ultimately show ?thesis using that bl fr v(5) tx by simp
qed

section \<open>The bitmap\<close>

lemma bit_mask_bit: "(x AND bit_mask m \<noteq> 0) = bit (x :: u8) (m mod 8)"
proof -
  have "x AND bit_mask m = (if bit x (m mod 8) then push_bit (m mod 8) 1 else 0)"
    by (rule bit_word_eqI) (auto simp: bit_mask_def bit_simps)
  moreover have "push_bit (m mod 8) 1 \<noteq> (0 :: u8)"
    using bit_push_bit_iff [of "m mod 8" "1 :: u8" "m mod 8"] by (auto simp: bit_simps)
  ultimately show ?thesis by simp
qed

definition bit_of :: "u8 list \<Rightarrow> nat \<Rightarrow> bool" where
  "bit_of d m = bit (get8 d (m div 8)) (m mod 8)"

lemma bit_of_set:
  assumes "m div 8 < length d"
  shows "bit_of (d[m div 8 := get8 d (m div 8) OR bit_mask m]) n \<longleftrightarrow> bit_of d n \<or> n = m"
proof (cases "n div 8 = m div 8")
  case True
  then have "n = m \<longleftrightarrow> n mod 8 = m mod 8" by (metis div_mult_mod_eq)
  then show ?thesis using True assms by (auto simp: bit_of_def get8_def bit_mask_def bit_simps)
qed (auto simp: bit_of_def get8_def)

lemma bit_of_clear:
  assumes "m div 8 < length d"
  shows "bit_of (d[m div 8 := get8 d (m div 8) AND NOT (bit_mask m)]) n \<longleftrightarrow> bit_of d n \<and> n \<noteq> m"
proof (cases "n div 8 = m div 8")
  case True
  then have "n = m \<longleftrightarrow> n mod 8 = m mod 8" by (metis div_mult_mod_eq)
  then show ?thesis using True assms by (auto simp: bit_of_def get8_def bit_mask_def bit_simps)
qed (auto simp: bit_of_def get8_def)

definition blk_used :: "'a logst_scheme \<Rightarrow> u32 \<Rightarrow> u32 \<Rightarrow> bool" where
  "blk_used s ni b = bit_of (block s (BBLOCK b ni)) (unat b mod 4096)"

lemma takeWhile_upt_mem:
  assumes "\<And>i j. i \<le> j \<Longrightarrow> j < n \<Longrightarrow> P j \<Longrightarrow> P i" "i < n" "P i"
  shows "i \<in> set (takeWhile P [0..<n])"
proof -
  let ?k = "length (takeWhile P [0..<n])"
  have "i < ?k"
  proof (rule ccontr)
    assume "\<not> i < ?k"
    then have "?k < length [0..<n]" "P ?k" using assms(1) [of ?k i] assms(2,3) by simp_all
    then show False using nth_length_takeWhile [of P "[0..<n]"] by simp
  qed
  then show ?thesis using takeWhile_nth [of i P "[0..<n]"] nth_mem [of i "takeWhile P [0..<n]"] assms(2) by simp
qed

lemma find_upto:
  assumes mono: "\<And>i j. i \<le> j \<Longrightarrow> j < n \<Longrightarrow> P j \<Longrightarrow> P i"
  shows "case find Q (takeWhile P [0..<n]) of
     None \<Rightarrow> \<forall>i<n. P i \<longrightarrow> \<not> Q i
   | Some i \<Rightarrow> i < n \<and> P i \<and> Q i \<and> (\<forall>j<i. \<not> Q j)"
proof (cases "find Q (takeWhile P [0..<n])")
  case None
  then have "\<not> Q i" if "i < n" "P i" for i
    using takeWhile_upt_mem [of n P i, OF mono that] by (simp add: find_None_iff)
  then show ?thesis using None by simp
next
  case (Some k)
  let ?xs = "takeWhile P [0..<n]"
  obtain i where i: "i < length ?xs" "Q k" "k = ?xs ! i" "\<forall>j<i. \<not> Q (?xs ! j)"
    using Some by (auto simp: find_Some_iff)
  have nth: "?xs ! j = j \<and> j < n" if "j \<le> i" for j
    using that i(1) takeWhile_nth [of j P "[0..<n]"] length_takeWhile_le [of P "[0..<n]"] by simp
  have "P k" using nth_mem [OF i(1)] set_takeWhileD [of k P "[0..<n]"] i(3) by simp
  then show ?thesis using Some i nth by auto
qed

text \<open>The 4096 blocks whose bits are in the same block of the bitmap.\<close>

lemma chunk:
  fixes b :: u32
  assumes "unat b mod 4096 = 0" "i < 4096"
  shows "unat (b + of_nat i) = unat b + i" "unat (b + of_nat i) mod 4096 = i" "BBLOCK (b + of_nat i) ni = BBLOCK b ni"
proof -
  obtain q where q: "unat b = 4096 * q" using assms(1) by (auto simp: mod_eq_0_iff_dvd)
  then have "q < 1048576" using unat_lt_32 [of b] by simp
  then have "unat b + i < 4294967296" using q assms(2) by simp
  then show u: "unat (b + of_nat i) = unat b + i" by (rule unat_plus_of_nat)
  show "unat (b + of_nat i) mod 4096 = i" using u q assms(2) by simp
  have "unat ((b + of_nat i) div 4096) = unat (b div 4096)" using u q assms(2) by (simp add: unat_div)
  then have "(b + of_nat i) div 4096 = b div 4096" by (simp only: word_unat_eq_iff)
  then show "BBLOCK (b + of_nat i) ni = BBLOCK b ni" by (simp add: BBLOCK_def)
qed

lemma free_bit_iff:
  assumes "unat b mod 4096 = 0"
  shows "case free_bit d b n of
     None \<Rightarrow> \<forall>bi<4096. b + of_nat bi < n \<longrightarrow> bit_of d bi
   | Some bi \<Rightarrow> bi < 4096 \<and> b + of_nat bi < n \<and> \<not> bit_of d bi \<and> (\<forall>bj<bi. bit_of d bj)"
proof -
  have q: "get8 d (bi div 8) AND bit_mask bi = 0 \<longleftrightarrow> \<not> bit_of d bi" for bi
    using bit_mask_bit [of "get8 d (bi div 8)" bi] by (auto simp: bit_of_def)
  note u = chunk(1) [OF assms]
  have mono: "b + of_nat i < n" if "i \<le> j" "j < 4096" "b + of_nat j < n" for i j
    using that u [of i] u [of j] by (simp add: word_less_nat_alt)
  show ?thesis
    using find_upto [of 4096 "\<lambda>i. b + of_nat i < n" "\<lambda>bi. \<not> bit_of d bi", OF mono]
    unfolding free_bit_def q not_not .
qed

definition mark_used :: "u8 list \<Rightarrow> nat \<Rightarrow> u8 list" where
  "mark_used d bi = d[bi div 8 := get8 d (bi div 8) OR bit_mask bi]"

lemma blk_used_chunk:
  assumes "unat b mod 4096 = 0" "i < 4096"
  shows "blk_used s ni (b + of_nat i) = bit_of (block s (BBLOCK b ni)) i"
  using chunk [OF assms] by (simp add: blk_used_def)

lemma in_chunk:
  fixes b x :: u32
  assumes "unat b mod 4096 = 0" "b \<le> x" "unat x < unat b + 4096"
  obtains i where "i < 4096" "x = b + of_nat i"
proof (rule that)
  show "unat x - unat b < 4096" using assms(3) by simp
  have "unat (b + of_nat (unat x - unat b)) = unat x"
    using chunk(1) [OF assms(1), of "unat x - unat b"] assms(2,3) by (simp add: word_le_nat_alt)
  then show "x = b + of_nat (unat x - unat b)" by (simp only: word_unat_eq_iff)
qed

text \<open>What \<open>balloc\<close> needs of the file system: its bitmap lies outside the log and its blocks are on the disk.\<close>

definition bitmap_ok :: "'a logst_scheme \<Rightarrow> u32 \<Rightarrow> u32 \<Rightarrow> bool" where
  "bitmap_ok s n ni \<longleftrightarrow> (\<forall>x<n. home_ok s (BBLOCK x ni)) \<and> n \<le> disksize s"

lemma bitmap_ok_frame: "lframe s t \<Longrightarrow> block t = block s \<Longrightarrow> bitmap_ok t n ni = bitmap_ok s n ni \<and> blk_used t ni = blk_used s ni"
  by (simp add: bitmap_ok_def blk_used_def fun_eq_iff home_ok_frame lframeD)

lemma balloc_found:
  assumes "log_ready 2 s" "bitmap_ok s (sb_size sb) (sb_ninodes sb)" "unat b mod 4096 = 0" "b < sb_size sb"
    and f: "free_bit (block s (BBLOCK b (sb_ninodes sb))) b (sb_size sb) = Some bi"
  defines "bb \<equiv> BBLOCK b (sb_ninodes sb)" and "r \<equiv> b + of_nat bi"
  shows "\<exists>t. balloc_loop (Suc k) ROOTDEV sb b s = Ret r t \<and> lframe s t \<and> r \<in> set (txn t) \<and> (log_inv t \<longleftrightarrow> home_ok s r)
    \<and> block t = (block s)(bb := mark_used (block s bb) bi, r := replicate 512 0)"
proof -
  let ?ni = "sb_ninodes sb"
  have bi: "bi < 4096" "r < sb_size sb" "\<not> bit_of (block s bb) bi"
    using free_bit_iff [OF assms(3), where d = "block s bb" and n = "sb_size sb"] f by (simp_all add: bb_def r_def)
  have home: "home_ok s bb" "r < disksize s"
    using assms(2,4) bi(2) by (auto simp: bitmap_ok_def bb_def)
  have ready: "log_ready (Suc 1) s" using assms(1) by (simp add: numeral_2_eq_2)
  obtain x t where t: "bread ROOTDEV bb s = Ret x t" "b_data (bufs t ! x) = block s bb"
    "\<And>d. length d = 512 \<Longrightarrow> \<exists>u. bindR (log_write x (put_data x d t)) (\<lambda>_ s. brelse x s) = Ret () u
       \<and> log_ready 1 u \<and> block u = (block s)(bb := d) \<and> lframe s u"
    using txn_modify [OF ready home(1)] by metis
  have "length (block s bb) = 512"
    using block_length [OF log_readyD(1) [OF assms(1)]] home(1) by (simp add: home_ok_def)
  then obtain w u where u: "log_write x (put_data x (mark_used (block s bb) bi) t) = Ret () w" "brelse x w = Ret () u"
      "log_ready 1 u" "block u = (block s)(bb := mark_used (block s bb) bi)" "lframe s u"
    using t(3) [of "mark_used (block s bb) bi"] by (auto simp: mark_used_def)
  have "log_ready (Suc 0) u" "r < disksize u" using u(3) home(2) lframeD(2) [OF u(5)] by simp_all
  then obtain v where v: "bzero ROOTDEV r u = Ret () v" "block v = (block u)(r := replicate 512 0)" "lframe u v"
      "r \<in> set (txn v)" "log_inv v \<longleftrightarrow> home_ok u r"
    by (rule bzero_any) (rule that)
  have "balloc_loop (Suc k) ROOTDEV sb b s = Ret r v"
    using assms(4) t(1,2) f u(1,2) v(1)
    by (simp add: bb_def r_def Let_def mark_used_def)
  then show ?thesis using v u(4) lframe_trans [OF u(5) v(3)] home_ok_frame [OF u(5)] by (intro exI [of _ v]) simp
qed

lemma balloc_loop_finds:
  assumes "log_ready 2 s" "bitmap_ok s (sb_size sb) (sb_ninodes sb)" "unat b mod 4096 = 0"
    and "x < sb_size sb" "\<not> blk_used s (sb_ninodes sb) x" "b \<le> x" "unat x < unat b + 4096 * k"
    and "\<forall>y<b. blk_used s (sb_ninodes sb) y"
  shows "\<exists>bi c t. balloc_loop k ROOTDEV sb b s = Ret (c + of_nat bi) t \<and> unat c mod 4096 = 0 \<and> bi < 4096
    \<and> c + of_nat bi < sb_size sb \<and> \<not> blk_used s (sb_ninodes sb) (c + of_nat bi)
    \<and> (\<forall>y<c + of_nat bi. blk_used s (sb_ninodes sb) y) \<and> lframe s t
    \<and> c + of_nat bi \<in> set (txn t) \<and> (log_inv t \<longleftrightarrow> home_ok s (c + of_nat bi))
    \<and> block t = (block s)(BBLOCK c (sb_ninodes sb) := mark_used (block s (BBLOCK c (sb_ninodes sb))) bi, c + of_nat bi := replicate 512 0)"
  using assms
proof (induction k arbitrary: b s)
  case 0
  then show ?case by (simp add: word_le_nat_alt)
next
  case (Suc k)
  let ?ni = "sb_ninodes sb"
  let ?bb = "BBLOCK b ?ni"
  have b: "b < sb_size sb" using Suc.prems(4,6) by simp
  note fb = free_bit_iff [OF Suc.prems(3), where d = "block s ?bb" and n = "sb_size sb"]
  show ?case
  proof (cases "free_bit (block s ?bb) b (sb_size sb)")
    case (Some bi)
    then have bi: "bi < 4096" "b + of_nat bi < sb_size sb" "\<not> bit_of (block s ?bb) bi" "\<forall>bj<bi. bit_of (block s ?bb) bj"
      using fb by simp_all
    have "blk_used s ?ni y" if "y < b + of_nat bi" for y
    proof (cases "y < b")
      case False
      have "unat y < unat b + bi" using that chunk(1) [OF Suc.prems(3) bi(1)] by (simp add: word_less_nat_alt)
      moreover from this have "unat y < unat b + 4096" using bi(1) by simp
      then obtain i where i: "i < 4096" "y = b + of_nat i"
        using in_chunk [OF Suc.prems(3), of y] False by (auto simp: not_less)
      ultimately show ?thesis using bi(4) blk_used_chunk [OF Suc.prems(3) i(1), of s ?ni] chunk(1) [OF Suc.prems(3) i(1)] by simp
    qed (use Suc.prems(8) in blast)
    moreover have "\<not> blk_used s ?ni (b + of_nat bi)" using bi blk_used_chunk [OF Suc.prems(3) bi(1), of s ?ni] by simp
    moreover obtain t where "balloc_loop (Suc k) ROOTDEV sb b s = Ret (b + of_nat bi) t" "lframe s t"
        "b + of_nat bi \<in> set (txn t)" "log_inv t \<longleftrightarrow> home_ok s (b + of_nat bi)"
        "block t = (block s)(?bb := mark_used (block s ?bb) bi, b + of_nat bi := replicate 512 0)"
      using balloc_found [OF Suc.prems(1-3) b Some, of k] by blast
    ultimately show ?thesis using bi(1,2) Suc.prems(3) by (intro exI [of _ bi] exI [of _ b] exI [of _ t]) (simp del: balloc_loop.simps fun_upd_apply)
  next
    case None
    then have full: "bit_of (block s ?bb) bi" if "bi < 4096" "b + of_nat bi < sb_size sb" for bi using fb that by simp
    have past: "unat b + 4096 \<le> unat x"
    proof (rule ccontr)
      assume "\<not> ?thesis"
      then obtain i where i: "i < 4096" "x = b + of_nat i" using in_chunk [OF Suc.prems(3,6)] by auto
      then show False using full [of i] blk_used_chunk [OF Suc.prems(3) i(1), of s ?ni] Suc.prems(4,5) by simp
    qed
    have b': "unat (b + 4096) = unat b + 4096"
      using unat_plus_no_wrap [of b 4096] past unat_lt_32 [of x] by simp
    have ready: "log_ready (Suc 1) s" using Suc.prems(1) by (simp add: numeral_2_eq_2)
    have home: "home_ok s ?bb" using Suc.prems(2) b by (simp add: bitmap_ok_def)
    obtain p t where p: "bread ROOTDEV ?bb s = Ret p t" "b_data (bufs t ! p) = block s ?bb"
        "\<exists>u. brelse p t = Ret () u \<and> log_ready (Suc 1) u \<and> block u = block s \<and> lframe s u"
      by (rule txn_modify [OF ready home]) (rule that)
    then obtain u where t: "bread ROOTDEV ?bb s = Ret p t" "b_data (bufs t ! p) = block s ?bb" "brelse p t = Ret () u"
        "log_ready 2 u" "block u = block s" "lframe s u"
      by (auto simp: numeral_2_eq_2)
    note fr = bitmap_ok_frame [OF t(6,5), of "sb_size sb" ?ni]
    have used: "blk_used s ?ni y" if "y < b + 4096" for y
    proof (cases "y < b")
      case False
      have "unat y < unat b + 4096" using that b' by (simp add: word_less_nat_alt)
      then obtain i where i: "i < 4096" "y = b + of_nat i" using in_chunk [OF Suc.prems(3), of y] False by (auto simp: not_less)
      have "y < sb_size sb" using past Suc.prems(4) \<open>unat y < unat b + 4096\<close> by (simp add: word_less_nat_alt)
      then show ?thesis using full [of i] i blk_used_chunk [OF Suc.prems(3) i(1), of s ?ni] by simp
    qed (use Suc.prems(8) in blast)
    have "balloc_loop (Suc k) ROOTDEV sb b s = balloc_loop k ROOTDEV sb (b + 4096) u"
      using b t(1-3) None by (simp add: Let_def)
    moreover have "unat (b + 4096) mod 4096 = 0" "b + 4096 \<le> x" "unat x < unat (b + 4096) + 4096 * k"
      using b' Suc.prems(3,7) past by (simp_all add: word_le_nat_alt)
    ultimately show ?thesis
      using Suc.IH [of u "b + 4096", unfolded t(5)] t(4,5) fr Suc.prems(2,4,5) used lframe_trans [OF t(6)] home_ok_frame [OF t(6)] by (metis (no_types, lifting))
  qed
qed

text \<open>The bits after one of them is changed.\<close>

lemma blk_used_mark:
  assumes "length (block s (BBLOCK c ni)) = 512" "unat c mod 4096 = 0" "bi < 4096" "c + of_nat bi \<noteq> BBLOCK c ni"
    and "block t = (block s)(BBLOCK c ni := mark_used (block s (BBLOCK c ni)) bi, c + of_nat bi := d)" "c + of_nat bi \<noteq> BBLOCK x ni"
  shows "blk_used t ni x \<longleftrightarrow> blk_used s ni x \<or> x = c + of_nat bi"
proof (cases "BBLOCK x ni = BBLOCK c ni")
  case True
  then have "unat (x div 4096) = unat (c div 4096)" by (simp add: BBLOCK_def)
  then have q: "unat x div 4096 = unat c div 4096" by (simp add: unat_div)
  have u: "unat c = unat c div 4096 * 4096" "unat x = unat x div 4096 * 4096 + unat x mod 4096"
    using assms(2) div_mult_mod_eq [of "unat c" 4096] by simp_all
  have "x = c + of_nat bi \<longleftrightarrow> unat x = unat c + bi"
    using chunk(1) [OF assms(2,3)] by (simp only: word_unat_eq_iff)
  then have "x = c + of_nat bi \<longleftrightarrow> unat x mod 4096 = bi" using q u by linarith
  then show ?thesis using assms(1,3-5) True bit_of_set [of bi "block s (BBLOCK c ni)"] by (auto simp: blk_used_def mark_used_def)
next
  case False
  moreover have "x \<noteq> c + of_nat bi" using False chunk(3) [OF assms(2,3), of ni] by auto
  ultimately show ?thesis using assms(5,6) by (simp add: blk_used_def)
qed

lemma blk_used_clear:
  assumes "length (block s (BBLOCK b ni)) = 512"
    and "block t = (block s)(BBLOCK b ni := (block s (BBLOCK b ni))[unat b mod 4096 div 8 :=
           get8 (block s (BBLOCK b ni)) (unat b mod 4096 div 8) AND NOT (bit_mask (unat b mod 4096))])"
  shows "blk_used t ni x \<longleftrightarrow> blk_used s ni x \<and> x \<noteq> b"
proof (cases "BBLOCK x ni = BBLOCK b ni")
  case True
  then have "unat (x div 4096) = unat (b div 4096)" by (simp add: BBLOCK_def)
  then have "unat x div 4096 = unat b div 4096" by (simp add: unat_div)
  then have "unat x = unat b \<longleftrightarrow> unat x mod 4096 = unat b mod 4096" by (metis div_mult_mod_eq)
  then have "x = b \<longleftrightarrow> unat x mod 4096 = unat b mod 4096" by (simp only: word_unat_eq_iff)
  moreover have "unat b mod 4096 div 8 < 512" by (simp add: div_less_iff_less_mult)
  ultimately show ?thesis
    using assms True bit_of_clear [of "unat b mod 4096" "block s (BBLOCK b ni)"] by (simp add: blk_used_def)
qed (use assms(2) in \<open>auto simp: blk_used_def\<close>)

section \<open>Allocating and freeing a block\<close>

text \<open>
  C26: In an open operation with room for two more blocks in the log, on a file system whose bitmap lies outside the log, with a free block
  and no block of the bitmap free, \<open>balloc\<close> returns the first free block. Afterwards that block is all zeros, it is the only
  block whose bit has changed (it is in use now), and nothing has reached the disk: the block is part of the transaction. The search goes on to the
  end of the disk, so the block may be one of the log (as it is on a disk from \<open>mkfs\<close> whose other blocks are in use): the transaction is one
  that the log can commit exactly when the block lies outside the log and is not the super block.
\<close>

theorem balloc_correct:
  fixes s :: "'a logst_scheme"
  defines "n \<equiv> get32 (block s 1) 0" and "ni \<equiv> get32 (block s 1) 8"
  assumes "log_ready 2 s" "bitmap_ok s n ni" "x < n" "\<not> blk_used s ni x"
    and sep: "\<forall>y z. y < n \<and> z < n \<and> \<not> blk_used s ni y \<longrightarrow> y \<noteq> BBLOCK z ni"
  shows "\<exists>r t. balloc ROOTDEV s = Ret r t \<and> r < n \<and> \<not> blk_used s ni r \<and> (\<forall>y<r. blk_used s ni y)
    \<and> block t r = replicate 512 0 \<and> (\<forall>y<n. blk_used t ni y \<longleftrightarrow> blk_used s ni y \<or> y = r)
    \<and> disk t = disk s \<and> r \<in> set (txn t) \<and> (log_inv t \<longleftrightarrow> r \<noteq> 1 \<and> r \<notin> log_area (log_start s) 29)"
proof -
  obtain sb u where u: "readsb ROOTDEV s = Ret sb u" "log_ready 2 u" "block u = block s" "lframe s u"
      "sb_size sb = n" "sb_ninodes sb = ni"
    by (rule readsb_reads [OF assms(3), folded n_def ni_def]) (rule that)
  note f = bitmap_ok_frame [OF u(4,3), of n ni]
  have "unat x < unat (0 :: u32) + 4096 * 1048577" using unat_lt_32 [of x] by simp
  then obtain bi c t where t: "balloc_loop 1048577 ROOTDEV sb 0 u = Ret (c + of_nat bi) t" "unat c mod 4096 = 0" "bi < 4096"
      "c + of_nat bi < n" "\<not> blk_used s ni (c + of_nat bi)" "\<forall>y<c + of_nat bi. blk_used s ni y" "lframe u t"
      "c + of_nat bi \<in> set (txn t)" "log_inv t \<longleftrightarrow> home_ok u (c + of_nat bi)"
      "block t = (block s)(BBLOCK c ni := mark_used (block s (BBLOCK c ni)) bi, c + of_nat bi := replicate 512 0)"
    using balloc_loop_finds [of u sb 0 x 1048577, unfolded u(3,5,6)] u(2) f assms(4-6) by auto
  let ?r = "c + of_nat bi"
  have "c < n" using t(4) chunk(1) [OF t(2,3)] by (simp add: word_less_nat_alt)
  then have "length (block s (BBLOCK c ni)) = 512"
    using block_length [OF log_readyD(1) [OF assms(3)]] assms(4) by (simp add: bitmap_ok_def home_ok_def)
  moreover have "?r \<noteq> BBLOCK y ni" if "y < n" for y using sep that t(4,5) by blast
  ultimately have "\<forall>y<n. blk_used t ni y \<longleftrightarrow> blk_used s ni y \<or> y = ?r"
    using blk_used_mark [OF _ t(2,3) _ t(10)] \<open>c < n\<close> by simp
  moreover have "balloc ROOTDEV s = Ret ?r t" using u(1) t(1) by (simp add: balloc_def del: balloc_loop.simps)
  moreover have "disk t = disk s" using lframeD(5) [OF u(4)] lframeD(5) [OF t(7)] by simp
  moreover have "home_ok u ?r \<longleftrightarrow> ?r \<noteq> 1 \<and> ?r \<notin> log_area (log_start s) 29"
    using home_ok_frame [OF u(4)] t(4) assms(4) by (auto simp: home_ok_def bitmap_ok_def)
  ultimately show ?thesis using t(4-6,8-10) by (intro exI [of _ ?r] exI [of _ t]) simp
qed

text \<open>
  C28: Freeing a block that is in use clears its bit and no other, inside the transaction; freeing a block that
  is already free stops the kernel.
\<close>

theorem bfree_correct:
  fixes s :: "'a logst_scheme"
  defines "ni \<equiv> get32 (block s 1) 8"
  assumes "log_ready 1 s" "home_ok s (BBLOCK b ni)"
  shows "if blk_used s ni b
    then \<exists>t. bfree ROOTDEV b s = Ret () t \<and> (\<forall>y. blk_used t ni y \<longleftrightarrow> blk_used s ni y \<and> y \<noteq> b) \<and> log_inv t \<and> disk t = disk s
    else bfree ROOTDEV b s = Panic ''freeing free block''"
proof -
  let ?bb = "BBLOCK b ni" and ?m = "unat b mod 4096"
  let ?d = "(block s ?bb)[?m div 8 := get8 (block s ?bb) (?m div 8) AND NOT (bit_mask ?m)]"
  obtain sb u where u: "readsb ROOTDEV s = Ret sb u" "log_ready 1 u" "block u = block s" "lframe s u" "sb_ninodes sb = ni"
    by (rule readsb_reads [OF assms(2), folded ni_def]) (rule that)
  have h: "home_ok u ?bb" "log_ready (Suc 0) u" using assms(3) home_ok_frame [OF u(4)] u(2) by simp_all
  obtain p t where t: "bread ROOTDEV ?bb u = Ret p t" "b_data (bufs t ! p) = block u ?bb"
      "\<And>d. length d = 512 \<Longrightarrow> \<exists>v. bindR (log_write p (put_data p d t)) (\<lambda>_ s. brelse p s) = Ret () v
         \<and> log_ready 0 v \<and> block v = (block u)(?bb := d) \<and> lframe u v"
    using txn_modify [OF h(2,1)] by metis
  have len: "length (block s ?bb) = 512"
    using block_length [OF log_readyD(1) [OF assms(2)]] assms(3) by (simp add: home_ok_def)
  obtain v where v: "bindR (log_write p (put_data p ?d t)) (\<lambda>_ s. brelse p s) = Ret () v" "log_ready 0 v"
      "block v = (block s)(?bb := ?d)" "lframe u v"
    using t(3) [of ?d] len u(3) by auto
  have q: "get8 (block s ?bb) (?m div 8) AND bit_mask ?m = 0 \<longleftrightarrow> \<not> blk_used s ni b"
    using bit_mask_bit [of "get8 (block s ?bb) (?m div 8)" ?m] by (auto simp: bit_of_def blk_used_def)
  have e: "bfree ROOTDEV b s = (if \<not> blk_used s ni b then Panic ''freeing free block'' else Ret () v)"
    using u(1,3,5) t(1,2) v(1) q by (simp add: bfree_def Let_def del: bindR_eq_Ret)
  have "blk_used v ni y \<longleftrightarrow> blk_used s ni y \<and> y \<noteq> b" for y using blk_used_clear [OF len v(3)] .
  moreover have "disk v = disk s" using lframeD(5) [OF u(4)] lframeD(5) [OF v(4)] by simp
  ultimately show ?thesis using e log_readyD(1) [OF v(2)] by simp
qed

text \<open>A disk of 100 blocks whose bitmap, in block 3, has one free block, the block \<open>f\<close>. The log starts at block 70.\<close>

definition demo_bitmap :: "u32 \<Rightarrow> u32 \<Rightarrow> u8 list" where
  "demo_bitmap f = demo_disk(3 := (replicate 512 255)[unat f div 8 := NOT (push_bit (unat f mod 8) 1)])"

lemma demo_bitmap_log:
  "\<forall>sec<100. length (demo_bitmap f sec) = 512" "get32 (demo_bitmap f 1) 0 - get32 (demo_bitmap f 1) 12 = 70" "head_secs 70 (demo_bitmap f) = []"
  using demo_disk_facts by (simp_all add: demo_bitmap_def head_secs_def)

lemmas demo_bitmap_ok = log_on_ok [OF demo_bitmap_log]

lemma demo_bitmap_block: "block (log_on (demo_bitmap f)) = demo_bitmap f"
  using clean_block [OF log_inv_fields(1) [OF demo_bitmap_ok(1)]] demo_bitmap_ok(2,3,9) log_inv_fields(8) [OF demo_bitmap_ok(1)]
  by auto

lemma demo_bitmap_sb: "get32 (block (log_on (demo_bitmap f)) 1) 0 = 100" "get32 (block (log_on (demo_bitmap f)) 1) 8 = 0"
proof -
  have "get32 (replicate 512 0) 8 = 0" by (simp add: get32_def get8_def)
  then have "get32 (demo_disk 1) 8 = 0" by (simp add: demo_disk_def get32_put32_other)
  then show "get32 (block (log_on (demo_bitmap f)) 1) 0 = 100" "get32 (block (log_on (demo_bitmap f)) 1) 8 = 0"
    unfolding demo_bitmap_block using demo_disk_sb by (simp_all add: demo_bitmap_def)
qed

lemma demo_bitmap_BBLOCK: "x < 100 \<Longrightarrow> BBLOCK x 0 = 3"
proof -
  assume "x < 100"
  then have "unat (x div 4096) = unat (0 :: u32)" by (simp add: unat_div word_less_nat_alt)
  then have "x div 4096 = 0" by (simp only: word_unat_eq_iff)
  then show ?thesis by (simp add: BBLOCK_def)
qed

lemma byte_bits: "k < 8 \<Longrightarrow> bit (255 :: u8) k" "k < 8 \<Longrightarrow> bit (NOT (push_bit j 1) :: u8) k \<longleftrightarrow> k \<noteq> j"
  by (auto simp: bit_numeral_rec less_Suc_eq eval_nat_numeral) (auto simp: bit_simps)

lemma demo_bitmap_used: "x < 100 \<Longrightarrow> f < 100 \<Longrightarrow> blk_used (log_on (demo_bitmap f)) 0 x \<longleftrightarrow> x \<noteq> f"
proof -
  assume x: "x < 100" and f: "f < 100"
  then have u: "unat x < 100" "unat f < 100" by (simp_all add: word_less_nat_alt)
  have b: "block (log_on (demo_bitmap f)) 3 = (replicate 512 255)[unat f div 8 := NOT (push_bit (unat f mod 8) 1)]"
    unfolding demo_bitmap_block by (simp add: demo_bitmap_def)
  have "unat x div 8 < 512" "unat f div 8 < 512" using u by simp_all
  then have "blk_used (log_on (demo_bitmap f)) 0 x \<longleftrightarrow> (unat x div 8 = unat f div 8 \<longrightarrow> unat x mod 8 \<noteq> unat f mod 8)"
    using u byte_bits(1) [of "unat x mod 8"] byte_bits(2) [of "unat x mod 8" "unat f mod 8"]
    by (cases "unat x div 8 = unat f div 8") (simp_all add: blk_used_def demo_bitmap_BBLOCK [OF x] b bit_of_def get8_def)
  also have "\<dots> \<longleftrightarrow> unat x \<noteq> unat f" by (metis div_mult_mod_eq)
  also have "\<dots> \<longleftrightarrow> x \<noteq> f" by (simp only: word_unat_eq_iff)
  finally show ?thesis .
qed

lemma demo_bitmap_home: "x < 70 \<Longrightarrow> 1 < x \<Longrightarrow> home_ok (log_on (demo_bitmap f)) x"
  using log_block_unat [of 70 100]
  by (auto simp: home_ok_def demo_bitmap_ok log_area_def word_less_nat_alt dest: arg_cong [of _ _ unat])

lemma demo_bitmap_ready: "k \<le> 29 \<Longrightarrow> log_ready k (log_on (demo_bitmap f))" "bitmap_ok (log_on (demo_bitmap f)) 100 0"
  using demo_bitmap_home by (simp_all add: log_ready_def demo_bitmap_ok bitmap_ok_def demo_bitmap_BBLOCK)

lemma demo_bitmap_sep:
  "f < 100 \<Longrightarrow> f \<noteq> 3 \<Longrightarrow> \<forall>y z. y < 100 \<and> z < 100 \<and> \<not> blk_used (log_on (demo_bitmap f)) 0 y \<longrightarrow> y \<noteq> BBLOCK z 0"
  using demo_bitmap_used demo_bitmap_BBLOCK by auto

text \<open>With block 40 free the transaction is sound; with only block 75 free, a block of the log is handed out.\<close>

theorem balloc_correct_witness:
  "(\<exists>t. balloc ROOTDEV (log_on (demo_bitmap 40)) = Ret 40 t \<and> block t 40 = replicate 512 0 \<and> (\<forall>y<100. blk_used t 0 y) \<and> log_inv t)
   \<and> (\<exists>t. balloc ROOTDEV (log_on (demo_bitmap 75)) = Ret 75 t \<and> \<not> log_inv t)"
proof
  obtain r t where t: "balloc ROOTDEV (log_on (demo_bitmap 40)) = Ret r t" "r < 100" "\<not> blk_used (log_on (demo_bitmap 40)) 0 r"
      "block t r = replicate 512 0" "\<forall>y<100. blk_used t 0 y \<longleftrightarrow> blk_used (log_on (demo_bitmap 40)) 0 y \<or> y = r"
      "log_inv t \<longleftrightarrow> r \<noteq> 1 \<and> r \<notin> log_area (log_start (log_on (demo_bitmap 40))) 29"
    using balloc_correct [of "log_on (demo_bitmap 40)" 40, unfolded demo_bitmap_sb, OF demo_bitmap_ready(1,2)]
      demo_bitmap_used [of 40 40] demo_bitmap_sep [of 40] by auto
  then have "r = 40" using demo_bitmap_used [of r 40] by simp
  moreover have "home_ok (log_on (demo_bitmap 40)) 40" using demo_bitmap_home [of 40 40] by simp
  ultimately show "\<exists>t. balloc ROOTDEV (log_on (demo_bitmap 40)) = Ret 40 t \<and> block t 40 = replicate 512 0
      \<and> (\<forall>y<100. blk_used t 0 y) \<and> log_inv t"
    using t demo_bitmap_used [of _ 40] by (auto simp: home_ok_def)
next
  obtain r t where t: "balloc ROOTDEV (log_on (demo_bitmap 75)) = Ret r t" "r < 100" "\<not> blk_used (log_on (demo_bitmap 75)) 0 r"
      "log_inv t \<longleftrightarrow> r \<noteq> 1 \<and> r \<notin> log_area (log_start (log_on (demo_bitmap 75))) 29"
    using balloc_correct [of "log_on (demo_bitmap 75)" 75, unfolded demo_bitmap_sb, OF demo_bitmap_ready(1,2)]
      demo_bitmap_used [of 75 75] demo_bitmap_sep [of 75] by auto
  then have "r = 75" using demo_bitmap_used [of r 75] by simp
  moreover have "75 \<in> log_area (log_start (log_on (demo_bitmap 75))) 29"
    by (auto simp: log_area_def demo_bitmap_ok intro!: image_eqI [of _ _ 4])
  ultimately show "\<exists>t. balloc ROOTDEV (log_on (demo_bitmap 75)) = Ret 75 t \<and> \<not> log_inv t" using t by auto
qed

theorem bfree_correct_witness:
  "(\<exists>t. bfree ROOTDEV 20 (log_on (demo_bitmap 40)) = Ret () t \<and> \<not> blk_used t 0 20 \<and> blk_used t 0 21)
   \<and> bfree ROOTDEV 40 (log_on (demo_bitmap 40)) = Panic ''freeing free block''"
  using bfree_correct [of "log_on (demo_bitmap 40)" 20] bfree_correct [of "log_on (demo_bitmap 40)" 40] demo_bitmap_ready demo_bitmap_home [of 3]
  by (simp add: demo_bitmap_sb demo_bitmap_used demo_bitmap_BBLOCK) (use demo_bitmap_used [of 21 40] in auto)

end
