(* ===== verification/User_Lib.thy ===== *)
theory User_Lib
  imports Console Bytes
begin

text \<open>
  What user programs are written with: the system calls of \<open>user.h\<close>, and the library routines of
  \<open>ulib.c\<close> and \<open>printf.c\<close>. A program is the tree of the system calls it makes; the kernel is a parameter of
  its execution. A string is the list of the bytes before its terminator.
\<close>

section \<open>System calls\<close>

datatype ucall =
    U_fork | U_wait | U_pipe | U_write int "u8 list" | U_read int nat | U_close int | U_kill int
  | U_exec "u8 list" "u8 list list" | U_open "u8 list" u32 | U_mknod "u8 list" u16 u16 | U_unlink "u8 list" | U_fstat int
  | U_link "u8 list" "u8 list" | U_mkdir "u8 list" | U_chdir "u8 list" | U_dup int | U_getpid | U_sbrk int
  | U_sleep int | U_uptime | U_halt | U_signal_register int u32 | U_signal_restorer u32 | U_mprotect u32 int int | U_cowfork

text \<open>
  A call is answered by its result and the bytes it stores for the caller. \<open>UFault\<close> is an access outside an
  object, \<open>UFuel\<close> a loop that was not followed to its end.
\<close>

datatype 'a uprog = URet 'a | UExit | UCall ucall "int \<Rightarrow> u8 list \<Rightarrow> 'a uprog" | UFault | UFuel

primrec bindU :: "'a uprog \<Rightarrow> ('a \<Rightarrow> 'b uprog) \<Rightarrow> 'b uprog" where
  "bindU (URet x) f = f x"
| "bindU UExit f = UExit"
| "bindU (UCall c k) f = UCall c (\<lambda>r bs. bindU (k r bs) f)"
| "bindU UFault f = UFault"
| "bindU UFuel f = UFuel"

definition do_call :: "ucall \<Rightarrow> int uprog" where
  "do_call c = UCall c (\<lambda>r bs. URet r)"

text \<open>The end of an execution under a kernel \<open>h\<close>, which answers a call in a state of its own.\<close>

datatype 'a uend = Returned 'a | Exited | Faulted | Unfinished

primrec runU :: "(ucall \<Rightarrow> 'e \<Rightarrow> int \<times> u8 list \<times> 'e) \<Rightarrow> 'a uprog \<Rightarrow> 'e \<Rightarrow> 'a uend \<times> 'e" where
  "runU h (URet x) e = (Returned x, e)"
| "runU h UExit e = (Exited, e)"
| "runU h (UCall c k) e = (case h c e of (r, bs, e) \<Rightarrow> runU h (k r bs) e)"
| "runU h UFault e = (Faulted, e)"
| "runU h UFuel e = (Unfinished, e)"

section \<open>Strings\<close>

definition str :: "string \<Rightarrow> u8 list" where
  "str t = map of_char t"

text \<open>Arrays are lists; an access outside is \<open>None\<close>.\<close>

primrec strcpy_u :: "u8 list \<Rightarrow> nat \<Rightarrow> u8 list \<Rightarrow> u8 list option" where
  "strcpy_u s i [] = (if i < length s then Some (s[i := 0]) else None)"
| "strcpy_u s i (c # t) = (if i < length s then strcpy_u (s[i := c]) (Suc i) t else None)"

fun strcmp_u :: "u8 list \<Rightarrow> u8 list \<Rightarrow> int" where
  "strcmp_u [] [] = 0"
| "strcmp_u [] (b # q) = 0 - uint b"
| "strcmp_u (a # p) [] = uint a - 0"
| "strcmp_u (a # p) (b # q) = (if a = b then strcmp_u p q else uint a - uint b)"

primrec strlen_u :: "u8 list \<Rightarrow> u32" where
  "strlen_u [] = 0"
| "strlen_u (c # s) = strlen_u s + 1"

primrec memset_u :: "u8 list \<Rightarrow> nat \<Rightarrow> u8 \<Rightarrow> nat \<Rightarrow> u8 list option" where
  "memset_u a d c 0 = Some a"
| "memset_u a d c (Suc n) = (if d < length a then memset_u (a[d := c]) (Suc d) c n else None)"

primrec strchr_u :: "u8 list \<Rightarrow> u8 \<Rightarrow> nat option" where
  "strchr_u [] c = None"
| "strchr_u (a # s) c = (if a = c then Some 0 else map_option Suc (strchr_u s c))"

text \<open>\<open>memmove\<close> within one array: it copies upwards whatever the order of the regions.\<close>

primrec memmove_u :: "u8 list \<Rightarrow> nat \<Rightarrow> nat \<Rightarrow> nat \<Rightarrow> u8 list option" where
  "memmove_u a d s 0 = Some a"
| "memmove_u a d s (Suc n) =
     (if d < length a \<and> s < length a then memmove_u (a[d := a ! s]) (Suc d) (Suc s) n else None)"

primrec atoi_loop :: "u32 \<Rightarrow> u8 list \<Rightarrow> u32" where
  "atoi_loop n [] = n"
| "atoi_loop n (c # s) = (if 48 \<le> c \<and> c \<le> 57 then atoi_loop (n * 10 + ucast c - 48) s else n)"

definition atoi :: "u8 list \<Rightarrow> int" where
  "atoi s = sint (atoi_loop 0 s)"

section \<open>Input\<close>

primrec gets_loop :: "nat \<Rightarrow> u8 list \<Rightarrow> u8 list uprog" where
  "gets_loop 0 buf = URet buf"
| "gets_loop (Suc k) buf =
     UCall (U_read 0 1) (\<lambda>cc bs.
     if cc < 1 then URet buf
     else case bs of [] \<Rightarrow> UFault
     | c # _ \<Rightarrow> if c = 10 \<or> c = 13 then URet (buf @ [c]) else gets_loop k (buf @ [c]))"

definition gets_u :: "int \<Rightarrow> u8 list uprog" where
  "gets_u mx = gets_loop (nat (mx - 1)) []"

definition stat_u :: "u8 list \<Rightarrow> (int \<times> u8 list) uprog" where
  "stat_u n =
     UCall (U_open n 0) (\<lambda>fd _.
     if fd < 0 then URet (-1, [])
     else UCall (U_fstat fd) (\<lambda>r st. UCall (U_close fd) (\<lambda>_ _. URet (r, st))))"

definition signal_u :: "u32 \<Rightarrow> int \<Rightarrow> u32 \<Rightarrow> int uprog" where
  "signal_u restorer signum handler =
     bindU (do_call (U_signal_restorer restorer)) (\<lambda>_.
     do_call (U_signal_register signum handler))"

section \<open>Output\<close>

definition putc_u :: "int \<Rightarrow> u8 \<Rightarrow> unit uprog" where
  "putc_u fd c = UCall (U_write fd [c]) (\<lambda>_ _. URet ())"

primrec putcs_u :: "int \<Rightarrow> u8 list \<Rightarrow> unit uprog" where
  "putcs_u fd [] = URet ()"
| "putcs_u fd (c # cs) = bindU (putc_u fd c) (\<lambda>_. putcs_u fd cs)"

definition digit_u :: "u32 \<Rightarrow> u8" where
  "digit_u d = (if d < 10 then 48 + ucast d else 55 + ucast d)"

text \<open>The digits fit into the buffer of 16 bytes for the bases that \<open>printf\<close> uses.\<close>

primrec printint_u_loop :: "nat \<Rightarrow> u32 \<Rightarrow> u32 \<Rightarrow> u8 list" where
  "printint_u_loop 0 x base = []"
| "printint_u_loop (Suc k) x base =
     digit_u (x mod base) # (if x div base \<noteq> 0 then printint_u_loop k (x div base) base else [])"

definition printint_u_chars :: "u32 \<Rightarrow> u32 \<Rightarrow> bool \<Rightarrow> u8 list" where
  "printint_u_chars xx base sg =
     (let neg = (sg \<and> sint xx < 0);
          x = (if neg then - xx else xx) in
      rev (printint_u_loop 16 x base @ (if neg then [45] else [])))"

definition printint_u :: "int \<Rightarrow> u32 \<Rightarrow> u32 \<Rightarrow> bool \<Rightarrow> unit uprog" where
  "printint_u fd xx base sg = putcs_u fd (printint_u_chars xx base sg)"

text \<open>An argument that the caller did not pass, or passed with another type, is a fault.\<close>

primrec printf_loop :: "int \<Rightarrow> bool \<Rightarrow> u8 list \<Rightarrow> carg list \<Rightarrow> unit uprog" where
  "printf_loop fd st [] ap = URet ()"
| "printf_loop fd st (c # fmt) ap =
     (if \<not> st then
        (if c = 37 then printf_loop fd True fmt ap
         else bindU (putc_u fd c) (\<lambda>_. printf_loop fd False fmt ap))
      else if c = 100 then
        (case ap of Word_arg x # ap \<Rightarrow> bindU (printint_u fd x 10 True) (\<lambda>_. printf_loop fd False fmt ap) | _ \<Rightarrow> UFault)
      else if c = 120 \<or> c = 112 then
        (case ap of Word_arg x # ap \<Rightarrow> bindU (printint_u fd x 16 False) (\<lambda>_. printf_loop fd False fmt ap) | _ \<Rightarrow> UFault)
      else if c = 115 then
        (case ap of Str_arg t # ap \<Rightarrow>
           bindU (putcs_u fd (case t of None \<Rightarrow> str ''(null)'' | Some t \<Rightarrow> t)) (\<lambda>_. printf_loop fd False fmt ap)
         | _ \<Rightarrow> UFault)
      else if c = 99 then
        (case ap of Word_arg x # ap \<Rightarrow> bindU (putc_u fd (ucast x)) (\<lambda>_. printf_loop fd False fmt ap) | _ \<Rightarrow> UFault)
      else if c = 37 then bindU (putc_u fd c) (\<lambda>_. printf_loop fd False fmt ap)
      else bindU (putc_u fd 37) (\<lambda>_. bindU (putc_u fd c) (\<lambda>_. printf_loop fd False fmt ap)))"

definition printf :: "int \<Rightarrow> u8 list \<Rightarrow> carg list \<Rightarrow> unit uprog" where
  "printf fd fmt ap = printf_loop fd False fmt ap"

section \<open>A kernel for filters\<close>

text \<open>A kernel that gives a stream of pieces to read and collects what is written.\<close>

fun stream :: "ucall \<Rightarrow> u8 list list \<times> (int \<times> u8 list) list \<Rightarrow> int \<times> u8 list \<times> u8 list list \<times> (int \<times> u8 list) list" where
  "stream (U_read fd n) ([], out) = (0, [], [], out)"
| "stream (U_read fd n) (c # cs, out) =
     (int (min n (length c)), take n c, (if length c \<le> n then cs else drop n c # cs), out)"
| "stream (U_write fd bs) (cs, out) = (int (length bs), [], cs, out @ [(fd, bs)])"
| "stream _ e = (0, [], e)"

section \<open>What the routines compute\<close>

lemma bindU_assoc: "bindU (bindU m f) g = bindU m (\<lambda>x. bindU (f x) g)"
proof (induction m)
  case (UCall c k)
  have "bindU (bindU (k r bs) f) g = bindU (k r bs) (\<lambda>x. bindU (f x) g)" for r bs using UCall [of "k r" "k r bs"] by simp
  then show ?case by simp
qed simp_all

lemma runU_bindU:
  "runU h (bindU m f) e = (case runU h m e of
     (Returned x, e) \<Rightarrow> runU h (f x) e | (Exited, e) \<Rightarrow> (Exited, e) | (Faulted, e) \<Rightarrow> (Faulted, e) | (Unfinished, e) \<Rightarrow> (Unfinished, e))"
proof (induction m arbitrary: e)
  case (UCall c k)
  show ?case using UCall [of "k r" "k r bs" for r bs] by (simp split: prod.split)
qed simp_all

lemma strcpy_u_Some:
  assumes "i + length t < length s"
  shows "strcpy_u s i t = Some (take i s @ t @ [0] @ drop (i + length t + 1) s)"
  using assms
proof (induction t arbitrary: s i)
  case Nil
  then show ?case by (simp add: upd_conv_take_nth_drop)
next
  case (Cons c t)
  then show ?case by (simp add: take_Suc_conv_app_nth)
qed

lemma strcmp_u_0: "strcmp_u p q = 0 \<longleftrightarrow> p = q" if "0 \<notin> set p" "0 \<notin> set q"
  using that by (induction p q rule: strcmp_u.induct) (auto simp: uint_0_iff dest: unsigned_word_eqI)

lemma strchr_u_Some:
  "strchr_u s c = (if c \<in> set s then Some (length (takeWhile (\<lambda>a. a \<noteq> c) s)) else None)"
  by (induction s) auto

text \<open>Copying downwards is right also for regions that overlap.\<close>

lemma memmove_u_down:
  assumes "d \<le> s" "s + n \<le> length a"
  shows "memmove_u a d s n = Some (take d a @ take n (drop s a) @ drop (d + n) a)"
  using assms
proof (induction n arbitrary: a d s)
  case 0
  then show ?case by simp
next
  case (Suc n)
  let ?a = "a[d := a ! s]"
  have "memmove_u a d s (Suc n) = memmove_u ?a (Suc d) (Suc s) n" using Suc.prems by simp
  also have "\<dots> = Some (take (Suc d) ?a @ take n (drop (Suc s) ?a) @ drop (Suc d + n) ?a)"
    using Suc.IH [of "Suc d" "Suc s" ?a] Suc.prems by simp
  also have "take (Suc d) ?a = take d a @ [a ! s]" using Suc.prems by (simp add: take_Suc_conv_app_nth)
  also have "drop (Suc s) ?a = drop (Suc s) a" using Suc.prems by simp
  also have "drop (Suc d + n) ?a = drop (d + Suc n) a" by simp
  finally show ?case using Suc.prems by (simp add: Cons_nth_drop_Suc [symmetric])
qed

lemma length_strcpy: "strcpy_u s i t = Some s' \<Longrightarrow> length s' = length s"
  by (induction t arbitrary: s i) (auto split: if_splits)

end
