(* ===== verification/Grep.thy ===== *)
theory Grep
  imports User_Lib
begin

text \<open>
  \<open>grep.c\<close>: the matcher for regular expressions with \<open>^\<close>, \<open>.\<close>, \<open>*\<close> and \<open>$\<close>, and the loop that reads its input
  in pieces and prints the matching lines.
\<close>

section \<open>The matcher\<close>

text \<open>The operators: \<open>*\<close> is 42, \<open>.\<close> is 46, \<open>$\<close> is 36 and \<open>^\<close> is 94.\<close>

function (sequential) matchhere :: "u8 list \<Rightarrow> u8 list \<Rightarrow> bool"
  and matchstar :: "u8 \<Rightarrow> u8 list \<Rightarrow> u8 list \<Rightarrow> bool" where
  "matchhere [] tx = True"
| "matchhere (r # re) tx =
     (if re \<noteq> [] \<and> hd re = 42 then matchstar r (tl re) tx
      else if r = 36 \<and> re = [] then tx = []
      else if tx \<noteq> [] \<and> (r = 46 \<or> r = hd tx) then matchhere re (tl tx)
      else False)"
| "matchstar c re tx =
     (if matchhere re tx then True
      else if tx \<noteq> [] \<and> (hd tx = c \<or> c = 46) then matchstar c re (tl tx)
      else False)"
  by pat_completeness auto
termination
  by (relation "measure (\<lambda>x. case x of Inl (re, tx) \<Rightarrow> 2 * length re + length tx
        | Inr (c, re, tx) \<Rightarrow> Suc (2 * length re + length tx))")
    (simp_all flip: length_greater_0_conv)

declare matchhere.simps(2) [simp del] matchstar.simps [simp del]

primrec match_any :: "u8 list \<Rightarrow> u8 list \<Rightarrow> bool" where
  "match_any re [] = matchhere re []"
| "match_any re (c # tx) = (if matchhere re (c # tx) then True else match_any re tx)"

definition match :: "u8 list \<Rightarrow> u8 list \<Rightarrow> bool" where
  "match re tx = (if re \<noteq> [] \<and> hd re = 94 then matchhere (tl re) tx else match_any re tx)"

section \<open>What the expressions mean\<close>

text \<open>An expression is a list of characters, each once or any number of times, and may end with \<open>$\<close>.\<close>

datatype item = One u8 | Many u8

fun items :: "u8 list \<Rightarrow> item list" where
  "items [] = []"
| "items [r] = (if r = 36 then [] else [One r])"
| "items (r # q # re) = (if q = 42 then Many r # items re else One r # items (q # re))"

fun at_end :: "u8 list \<Rightarrow> bool" where
  "at_end [] = False"
| "at_end [r] = (r = 36)"
| "at_end (r # q # re) = (if q = 42 then at_end re else at_end (q # re))"

definition fits :: "u8 \<Rightarrow> u8 \<Rightarrow> bool" where
  "fits r c \<longleftrightarrow> r = 46 \<or> r = c"

primrec lang :: "item list \<Rightarrow> u8 list set" where
  "lang [] = {[]}"
| "lang (i # is) = (case i of
     One r \<Rightarrow> {c # w | c w. fits r c \<and> w \<in> lang is}
   | Many r \<Rightarrow> {u @ w | u w. (\<forall>c\<in>set u. fits r c) \<and> w \<in> lang is})"

text \<open>A text has a part, from its start, that the expression describes.\<close>

definition starts_with :: "u8 list \<Rightarrow> u8 list \<Rightarrow> bool" where
  "starts_with re tx \<longleftrightarrow> (\<exists>u v. tx = u @ v \<and> u \<in> lang (items re) \<and> (at_end re \<longrightarrow> v = []))"

lemma starts_with_Nil: "starts_with [] tx"
  by (simp add: starts_with_def)

lemma starts_with_end: "starts_with [36] tx \<longleftrightarrow> tx = []"
  by (simp add: starts_with_def)

lemma starts_with_One:
  assumes "\<not> (re \<noteq> [] \<and> hd re = 42)" "\<not> (r = 36 \<and> re = [])"
  shows "starts_with (r # re) tx \<longleftrightarrow> tx \<noteq> [] \<and> fits r (hd tx) \<and> starts_with re (tl tx)"
proof -
  have "items (r # re) = One r # items re" "at_end (r # re) = at_end re" using assms by (cases re; simp)+
  then have e: "lang (items (r # re)) = {c # w | c w. fits r c \<and> w \<in> lang (items re)}" and l: "at_end (r # re) = at_end re"
    by simp_all
  show ?thesis
  proof
    assume "starts_with (r # re) tx"
    then obtain u v where u: "tx = u @ v" "u \<in> lang (items (r # re))" "at_end re \<longrightarrow> v = []" unfolding starts_with_def l by blast
    then obtain c w where "u = c # w" "fits r c" "w \<in> lang (items re)" unfolding e by blast
    then show "tx \<noteq> [] \<and> fits r (hd tx) \<and> starts_with re (tl tx)" using u(1,3) unfolding starts_with_def by auto
  next
    assume a: "tx \<noteq> [] \<and> fits r (hd tx) \<and> starts_with re (tl tx)"
    then obtain u v where u: "tl tx = u @ v" "u \<in> lang (items re)" "at_end re \<longrightarrow> v = []" unfolding starts_with_def by blast
    then have "tx = (hd tx # u) @ v" "hd tx # u \<in> lang (items (r # re))" using a unfolding e by (cases tx; simp)+
    then show "starts_with (r # re) tx" unfolding starts_with_def l using u(3) by blast
  qed
qed

lemma starts_with_run:
  "starts_with (c # 42 # re) tx \<longleftrightarrow> (\<exists>u rest. tx = u @ rest \<and> (\<forall>x\<in>set u. fits c x) \<and> starts_with re rest)"
proof
  assume "starts_with (c # 42 # re) tx"
  then obtain p v where p: "tx = p @ v" "p \<in> lang (items (c # 42 # re))" "at_end re \<longrightarrow> v = []"
    unfolding starts_with_def by auto
  then obtain u w where "p = u @ w" "\<forall>x\<in>set u. fits c x" "w \<in> lang (items re)" by auto
  with p show "\<exists>u rest. tx = u @ rest \<and> (\<forall>x\<in>set u. fits c x) \<and> starts_with re rest"
    by (intro exI [of _ u] exI [of _ "w @ v"]) (auto simp: starts_with_def)
next
  assume "\<exists>u rest. tx = u @ rest \<and> (\<forall>x\<in>set u. fits c x) \<and> starts_with re rest"
  then obtain u w v where a: "tx = u @ w @ v" "\<forall>x\<in>set u. fits c x" "w \<in> lang (items re)" "at_end re \<longrightarrow> v = []"
    by (auto simp: starts_with_def)
  from a(2,3) have "u @ w \<in> lang (items (c # 42 # re))" by simp blast
  then show "starts_with (c # 42 # re) tx" unfolding starts_with_def using a(1,4)
    by (intro exI [of _ "u @ w"] exI [of _ v]) simp
qed

lemma starts_with_Many:
  "starts_with (c # 42 # re) tx \<longleftrightarrow> starts_with re tx \<or> tx \<noteq> [] \<and> fits c (hd tx) \<and> starts_with (c # 42 # re) (tl tx)"
proof (cases tx)
  case Nil
  then show ?thesis by (simp add: starts_with_run)
next
  case (Cons x xs)
  have "starts_with re (x # xs) \<or> fits c x \<and> starts_with (c # 42 # re) xs"
    if "x # xs = u @ rest" "\<forall>y\<in>set u. fits c y" "starts_with re rest" for u rest
    using that by (cases u) (simp_all add: starts_with_run, blast)
  moreover have "starts_with (c # 42 # re) (x # xs)" if "starts_with re (x # xs)"
    unfolding starts_with_run using that by (intro exI [of _ "[]"] exI [of _ "x # xs"]) simp
  moreover have "starts_with (c # 42 # re) (x # xs)" if fit: "fits c x" and run: "starts_with (c # 42 # re) xs"
  proof -
    obtain u rest where "xs = u @ rest" "\<forall>y\<in>set u. fits c y" "starts_with re rest" using run unfolding starts_with_run by blast
    then show ?thesis unfolding starts_with_run using fit by (intro exI [of _ "x # u"] exI [of _ rest]) simp
  qed
  ultimately have "starts_with (c # 42 # re) (x # xs) \<longleftrightarrow> starts_with re (x # xs) \<or> fits c x \<and> starts_with (c # 42 # re) xs"
    using starts_with_run [of c re "x # xs"] by blast
  then show ?thesis by (simp add: Cons)
qed

lemma match_starts:
  "matchhere re tx \<longleftrightarrow> starts_with re tx"
  "matchstar c re tx \<longleftrightarrow> starts_with (c # 42 # re) tx"
proof (induction re tx and c re tx rule: matchhere_matchstar.induct)
  case (2 r re tx)
  show ?case
  proof (cases "re \<noteq> [] \<and> hd re = 42")
    case True
    then have "r # re = r # 42 # tl re" by (cases re) simp_all
    then show ?thesis using 2(1) [OF True] True by (simp add: matchhere.simps(2))
  next
    case False
    then show ?thesis
      using 2(2) [OF False] starts_with_One [of re r tx] starts_with_end [of tx]
      by (auto simp: matchhere.simps(2) fits_def)
  qed
next
  case (3 c re tx)
  then show ?case using starts_with_Many [of c re tx] by (auto simp: fits_def matchstar.simps [of c re tx])
qed (simp add: starts_with_Nil)

text \<open>
  C36: the matcher decides the meaning of the expression: some part of the line is a word of the expression, from the
  start of the line if the expression starts with \<open>^\<close>, up to its end if the expression ends with \<open>$\<close>.
\<close>

theorem match_meaning:
  "match re tx \<longleftrightarrow> (if re \<noteq> [] \<and> hd re = 94 then starts_with (tl re) tx
     else \<exists>w rest. tx = w @ rest \<and> starts_with re rest)"
proof -
  have "match_any re tx \<longleftrightarrow> (\<exists>w rest. tx = w @ rest \<and> starts_with re rest)"
  proof (induction tx)
    case (Cons c tx)
    then show ?case by (auto simp: match_starts Cons_eq_append_conv)
  qed (simp add: match_starts)
  then show ?thesis by (auto simp: match_def match_starts)
qed

section \<open>Reading and printing\<close>

text \<open>
  A line ends at the first newline before the next zero byte of the buffer. A search that leaves the buffer is a fault.
\<close>

definition next_line :: "u8 list \<Rightarrow> nat \<Rightarrow> nat option option" where
  "next_line buf p =
     (case strchr_u (takeWhile (\<lambda>c. c \<noteq> 0) (drop p buf)) 10 of
        Some i \<Rightarrow> Some (Some (p + i))
      | None \<Rightarrow> if 0 \<in> set (drop p buf) then Some None else None)"

text \<open>The inner loop: it returns the buffer, with the newlines of the lines that do not match cleared, and where it stopped.\<close>

primrec grep_lines :: "nat \<Rightarrow> u8 list \<Rightarrow> u8 list \<Rightarrow> nat \<Rightarrow> (u8 list \<times> nat) uprog" where
  "grep_lines 0 pat buf p = UFuel"
| "grep_lines (Suc k) pat buf p =
     (case next_line buf p of
        None \<Rightarrow> UFault
      | Some None \<Rightarrow> URet (buf, p)
      | Some (Some q) \<Rightarrow>
          if match pat (drop p (take q buf))
          then UCall (U_write 1 (drop p (take (q + 1) buf))) (\<lambda>_ _. grep_lines k pat buf (q + 1))
          else grep_lines k pat (buf[q := 0]) (q + 1))"

text \<open>The outer loop; the inner one is done after at most 1025 rounds, as each moves on in the buffer.\<close>

primrec grep_loop :: "nat \<Rightarrow> u8 list \<Rightarrow> int \<Rightarrow> u8 list \<Rightarrow> int \<Rightarrow> u8 list uprog" where
  "grep_loop 0 pat fd buf m = UFuel"
| "grep_loop (Suc k) pat fd buf m =
     UCall (U_read fd (nat (1024 - m))) (\<lambda>n bs.
     if n > 0 then
       (if m < 0 \<or> m + n > 1024 then UFault
        else
          let buf = take (nat m) buf @ bs @ drop (nat (m + n)) buf;
              m = m + n in
          bindU (grep_lines 1025 pat buf 0) (\<lambda>(buf, p).
          let m = (if p = 0 then 0 else m) in
          if m > 0 then
            let m = m - int p in
            case memmove_u buf 0 p (nat m) of
              None \<Rightarrow> UFault
            | Some buf \<Rightarrow> grep_loop k pat fd buf m
          else grep_loop k pat fd buf m))
     else URet buf)"

definition grep :: "nat \<Rightarrow> u8 list \<Rightarrow> int \<Rightarrow> u8 list \<Rightarrow> u8 list uprog" where
  "grep k pat fd buf = grep_loop k pat fd buf 0"

text \<open>The main function; the buffer is cleared at the start of the program and keeps its contents between the files.\<close>

primrec grep_files :: "nat \<Rightarrow> u8 list \<Rightarrow> u8 list list \<Rightarrow> u8 list \<Rightarrow> unit uprog" where
  "grep_files k pat [] buf = UExit"
| "grep_files k pat (f # fs) buf =
     bindU (do_call (U_open f 0)) (\<lambda>fd.
     if fd < 0 then bindU (printf 1 (str ''grep: cannot open %s'' @ [10]) [Str_arg (Some f)]) (\<lambda>_. UExit)
     else
       bindU (grep k pat fd buf) (\<lambda>buf.
       bindU (do_call (U_close fd)) (\<lambda>_.
       grep_files k pat fs buf)))"

definition grep_main :: "nat \<Rightarrow> u8 list list \<Rightarrow> unit uprog" where
  "grep_main k argv =
     (if length argv \<le> 1 then bindU (printf 2 (str ''usage: grep pattern [file ...]'' @ [10]) []) (\<lambda>_. UExit)
      else if length argv \<le> 2 then bindU (grep k (argv ! 1) 0 (replicate 1024 0)) (\<lambda>_. UExit)
      else grep_files k (argv ! 1) (drop 2 argv) (replicate 1024 0))"

section \<open>One piece of input\<close>

text \<open>The complete lines of a text, and what is left after them.\<close>

function complete_lines :: "u8 list \<Rightarrow> u8 list list" where
  "complete_lines c = (if 10 \<in> set c
     then takeWhile (\<lambda>x. x \<noteq> 10) c # complete_lines (tl (dropWhile (\<lambda>x. x \<noteq> 10) c)) else [])"
  by auto
termination
proof (relation "measure length")
  fix c :: "u8 list" assume "10 \<in> set c"
  then have "c \<noteq> []" by auto
  then show "(tl (dropWhile (\<lambda>x. x \<noteq> 10) c), c) \<in> measure length"
    using length_dropWhile_le [of "\<lambda>x. x \<noteq> 10" c] by (cases c) auto
qed simp

declare complete_lines.simps [simp del]

lemma next_line_zeros:
  assumes "p = length pre" "0 \<notin> set c" "0 < z"
  shows "next_line (pre @ c @ replicate z 0) p =
    Some (if 10 \<in> set c then Some (p + length (takeWhile (\<lambda>x. x \<noteq> 10) c)) else None)"
proof -
  have "takeWhile (\<lambda>x. x \<noteq> 0) (c @ replicate z 0) = c" using assms(2,3) 
    by (cases z) (auto simp: takeWhile_append intro: takeWhile_eq_all_conv [THEN iffD2])
  then show ?thesis using assms(1,3) by (simp add: next_line_def strchr_u_Some)
qed

lemma line_split:
  assumes "10 \<in> set c"
  shows "c = takeWhile (\<lambda>x. x \<noteq> 10) c @ 10 # tl (dropWhile (\<lambda>x. x \<noteq> 10) c)"
proof -
  have "dropWhile (\<lambda>x. x \<noteq> 10) c \<noteq> []" using assms by (simp add: dropWhile_eq_Nil_conv)
  then have "dropWhile (\<lambda>x. x \<noteq> 10) c = 10 # tl (dropWhile (\<lambda>x. x \<noteq> 10) c)" using hd_dropWhile [of "\<lambda>x. x \<noteq> 10" c] by (cases "dropWhile (\<lambda>x. x \<noteq> 10) c") auto
  then show ?thesis using takeWhile_dropWhile_id [of "\<lambda>x. x \<noteq> 10" c] by simp
qed

text \<open>One line, and then the rest.\<close>

lemma grep_lines_step:
  assumes "0 \<notin> set c" "0 < z" "10 \<in> set c"
  defines "l \<equiv> takeWhile (\<lambda>x. x \<noteq> 10) c" and "r \<equiv> tl (dropWhile (\<lambda>x. x \<noteq> 10) c)"
  shows "grep_lines (Suc k) pat (pre @ c @ replicate z 0) (length pre) = (if match pat l
      then UCall (U_write 1 (l @ [10])) (\<lambda>_ _. grep_lines k pat ((pre @ l @ [10]) @ r @ replicate z 0) (length (pre @ l @ [10])))
      else grep_lines k pat ((pre @ l @ [0]) @ r @ replicate z 0) (length (pre @ l @ [0])))"
proof -
  let ?b = "pre @ c @ replicate z 0"
  have c: "c = l @ 10 # r" using line_split [OF assms(3)] by (simp add: l_def r_def)
  have n: "next_line ?b (length pre) = Some (Some (length pre + length l))"
    using next_line_zeros [OF refl assms(1,2), of pre] assms(3) by (simp add: l_def)
  have t: "drop (length pre) (take (length pre + length l) ?b) = l" "drop (length pre) (take (length pre + length l + 1) ?b) = l @ [10]"
    "?b[length pre + length l := 0] = (pre @ l @ [0]) @ r @ replicate z 0"
    by (simp_all add: c list_update_append)
  show ?thesis unfolding grep_lines.simps n option.case t by (simp add: c)
qed

lemma grep_lines_runs:
  assumes "0 \<notin> set c" "0 < z" "length c < k"
  shows "\<exists>pre' rest. runU stream (grep_lines k pat (pre @ c @ replicate z 0) (length pre)) (cs, out) =
      (Returned (pre' @ rest @ replicate z 0, length pre'), cs, out @ map (\<lambda>l. (1, l @ [10])) (filter (match pat) (complete_lines c)))
    \<and> length pre' + length rest = length pre + length c"
  using assms(1,3)
proof (induction c arbitrary: pre k out rule: complete_lines.induct)
  case (1 c)
  obtain j where k: "k = Suc j" using 1(3) by (cases k) simp_all
  show ?case
  proof (cases "10 \<in> set c")
    case True
    define l where "l = takeWhile (\<lambda>x. x \<noteq> 10) c"
    define r where "r = tl (dropWhile (\<lambda>x. x \<noteq> 10) c)"
    have c: "c = l @ 10 # r" using line_split [OF True] by (simp add: l_def r_def)
    have lines: "complete_lines c = l # complete_lines r" using complete_lines.simps [of c] True by (simp add: l_def r_def)
    have IH: "\<exists>pre' rest. runU stream (grep_lines j pat (p2 @ r @ replicate z 0) (length p2)) (cs, o2) =
        (Returned (pre' @ rest @ replicate z 0, length pre'), cs, o2 @ map (\<lambda>l. (1, l @ [10])) (filter (match pat) (complete_lines r)))
      \<and> length pre' + length rest = length p2 + length r" for p2 o2
      using 1(1) [OF True, of j p2 o2, folded r_def] 1(2,3) k c by simp
    have lc: "length c = Suc (length l + length r)" by (simp add: c)
    show ?thesis
      using IH [of "pre @ l @ [10]" "out @ [(1, l @ [10])]"] IH [of "pre @ l @ [0]" out]
        grep_lines_step [OF 1(2) assms(2) True, of j pat pre, folded l_def r_def]
      by (cases "match pat l") (simp_all add: k lines lc add.assoc del: grep_lines.simps)
  next
    case False
    then have "complete_lines c = []" using complete_lines.simps [of c] by simp
    then show ?thesis using False next_line_zeros [OF refl 1(2) assms(2), of pre]
      by (intro exI [of _ pre] exI [of _ c]) (simp add: k)
  qed
qed

text \<open>One round of the outer loop.\<close>

lemma grep_loop_step:
  assumes "c \<noteq> []" "m + length c \<le> 1024"
    and "runU stream (grep_lines 1025 pat (take m buf @ c @ drop (m + length c) buf) 0) (cs, out) = (Returned (buf', p), e)"
  shows "runU stream (grep_loop (Suc k) pat fd buf (int m)) (c # cs, out) = runU stream
     (if p = 0 then grep_loop k pat fd buf' 0
      else case memmove_u buf' 0 p (nat (int (m + length c) - int p)) of None \<Rightarrow> UFault
        | Some b \<Rightarrow> grep_loop k pat fd b (int (m + length c) - int p)) e"
proof -
  have "nat (1024 - int m) = 1024 - m" "nat (int m + int (length c)) = m + length c" by simp_all
  moreover have "length c \<le> 1024 - m" "0 < int m + int (length c)" using assms(1,2) by (simp_all add: add_nonneg_pos)
  ultimately show ?thesis using assms by (simp add: runU_bindU Let_def del: grep_lines.simps split: option.split)
qed

text \<open>
  C37: On a file that one read returns completely, of less than 1024 bytes and without zero bytes, \<open>grep\<close> ends and
  has written exactly the complete lines that match, in order.
\<close>

theorem grep_one_read:
  assumes "0 \<notin> set c" "c \<noteq> []" "length c < 1024"
  shows "\<exists>buf. runU stream (grep 2 pat fd (replicate 1024 0)) ([c], []) =
    (Returned buf, [], map (\<lambda>l. (1, l @ [10])) (filter (match pat) (complete_lines c)))"
proof -
  define z where "z = 1024 - length c"
  have z: "0 < z" "length c + z = 1024" using assms(3) by (simp_all add: z_def)
  let ?b = "[] @ c @ replicate z 0"
  obtain pre rest where g: "runU stream (grep_lines 1025 pat ?b (length ([] :: u8 list))) ([], []) =
      (Returned (pre @ rest @ replicate z 0, length pre), [], [] @ map (\<lambda>l. (1, l @ [10])) (filter (match pat) (complete_lines c)))"
      "length pre + length rest = length ([] :: u8 list) + length c"
    using grep_lines_runs [OF assms(1) z(1), of 1025 pat "[]" "[]" "[]"] assms(3) by auto
  have b: "take 0 (replicate 1024 0) @ c @ drop (0 + length c) (replicate 1024 0) = ?b" by (simp add: z_def)
  have "nat (int (0 + length c) - int (length pre)) = length rest" using g(2) by simp
  then have m: "\<exists>buf. memmove_u (pre @ rest @ replicate z 0) 0 (length pre) (nat (int (0 + length c) - int (length pre))) = Some buf"
    using memmove_u_down [of 0 "length pre" "length rest" "pre @ rest @ replicate z 0"] by simp
  have "0 + length c \<le> 1024" using assms(3) by simp
  note s = grep_loop_step [OF assms(2) this, of pat "replicate 1024 0", unfolded b, OF g(1) [unfolded list.size], of 1 fd]
  show ?thesis using s m by (auto simp: grep_def numeral_2_eq_2)
qed

theorem grep_one_read_witness:
  "\<exists>buf. runU stream (grep 2 (str ''b.$'') 0 (replicate 1024 0)) ([str ''abc'' @ [10] @ str ''bcd'' @ [10, 98]], []) =
    (Returned buf, [], [(1, str ''abc'' @ [10])])"
proof -
  let ?c = "str ''abc'' @ [10] @ str ''bcd'' @ [10, 98]"
  have "complete_lines ?c = [str ''abc'', str ''bcd'']" by (simp add: complete_lines.simps str_def)
  moreover have "match (str ''b.$'') (str ''abc'')" "\<not> match (str ''b.$'') (str ''bcd'')"
    by (simp_all add: match_def str_def matchhere.simps matchstar.simps)
  moreover have "0 \<notin> set ?c" "?c \<noteq> []" "length ?c < 1024" by (simp_all add: str_def)
  ultimately show ?thesis using grep_one_read [of ?c "str ''b.$''" 0] by simp
qed

end
