(* ===== verification/Shell.thy ===== *)
theory Shell
  imports User_Lib Sysfile
begin

text \<open>
  The shell \<open>sh.c\<close>: the parser of command lines, the termination of the words in the line, and the
  execution of commands by system calls. The line is a list of bytes without its terminator and a pointer into it is
  an index. Memory for commands is always available here.
\<close>

section \<open>Commands\<close>

text \<open>A word is the pair of the indices of its first byte and of the byte after its last one.\<close>

datatype shcmd =
    C_exec "(nat \<times> nat) list"
  | C_redir shcmd "nat \<times> nat" u32 int
  | C_pipe shcmd shcmd
  | C_list shcmd shcmd
  | C_back shcmd

section \<open>Words and symbols\<close>

definition whitespace :: "u8 list" where
  "whitespace = [32, 9, 13, 10, 11]"

definition symbols :: "u8 list" where
  "symbols = [60, 124, 62, 38, 59, 40, 41]"

definition char_at :: "u8 list \<Rightarrow> nat \<Rightarrow> u8" where
  "char_at s i = (if i < length s then s ! i else 0)"

definition skip_while :: "(u8 \<Rightarrow> bool) \<Rightarrow> u8 list \<Rightarrow> nat \<Rightarrow> nat" where
  "skip_while P s i = i + length (takeWhile P (drop i s))"

definition is_space :: "u8 \<Rightarrow> bool" where
  "is_space c \<longleftrightarrow> strchr_u whitespace c \<noteq> None"

definition is_word :: "u8 \<Rightarrow> bool" where
  "is_word c \<longleftrightarrow> strchr_u whitespace c = None \<and> strchr_u symbols c = None"

text \<open>The token, where it starts and ends, and where the next one starts.\<close>

definition gettoken :: "u8 list \<Rightarrow> nat \<Rightarrow> u8 \<times> nat \<times> nat \<times> nat" where
  "gettoken s i =
     (let q = skip_while is_space s i;
          c = char_at s q;
          (ret, eq) =
            (if c = 0 then (c, q)
             else if c \<in> {124, 40, 41, 59, 38, 60} then (c, q + 1)
             else if c = 62 then (if char_at s (q + 1) = 62 then (43, q + 2) else (c, q + 1))
             else (97, skip_while is_word s q)) in
      (ret, q, eq, skip_while is_space s eq))"

definition peek :: "u8 list \<Rightarrow> u8 list \<Rightarrow> nat \<Rightarrow> bool \<times> nat" where
  "peek s toks i =
     (let i = skip_while is_space s i in
      (char_at s i \<noteq> 0 \<and> strchr_u toks (char_at s i) \<noteq> None, i))"

section \<open>The parser\<close>

text \<open>
  The functions return the command and the new position. \<open>parseredirs\<close> returns the redirections in the order
  in which they are put around the command.
\<close>

primrec parseredirs :: "nat \<Rightarrow> u8 list \<Rightarrow> nat \<Rightarrow> (nat, ((nat \<times> nat) \<times> u32 \<times> int) list) res" where
  "parseredirs 0 s i = NoFuel"
| "parseredirs (Suc k) s i =
     (case peek s [60, 62] i of (b, i) \<Rightarrow>
      if b then
        (case gettoken s i of (tok, _, _, i) \<Rightarrow>
         case gettoken s i of (r, q, eq, i) \<Rightarrow>
         if r \<noteq> 97 then Panic ''missing file for redirection''
         else
           bindR (parseredirs k s i) (\<lambda>rs i.
           Ret ((if tok = 60 then [((q, eq), O_RDONLY, 0)]
                 else if tok = 62 then [((q, eq), O_WRONLY OR O_CREATE, 1)]
                 else if tok = 43 then [((q, eq), O_WRONLY OR O_CREATE, 1)]
                 else []) @ rs) i))
      else Ret [] i)"

definition redircmds :: "shcmd \<Rightarrow> ((nat \<times> nat) \<times> u32 \<times> int) list \<Rightarrow> shcmd" where
  "redircmds cmd rs = foldl (\<lambda>cmd (fl, mode, fd). C_redir cmd fl mode fd) cmd rs"

text \<open>The loop of \<open>parseexec\<close>: the words so far and the redirections so far.\<close>

primrec parseexec_loop :: "nat \<Rightarrow> u8 list \<Rightarrow> (nat \<times> nat) list \<Rightarrow> ((nat \<times> nat) \<times> u32 \<times> int) list \<Rightarrow> nat \<Rightarrow> (nat, shcmd) res" where
  "parseexec_loop 0 s argv rs i = NoFuel"
| "parseexec_loop (Suc k) s argv rs i =
     (case peek s [124, 41, 38, 59] i of (b, i) \<Rightarrow>
      if b then Ret (redircmds (C_exec argv) rs) i
      else
        case gettoken s i of (tok, q, eq, i) \<Rightarrow>
        if tok = 0 then Ret (redircmds (C_exec argv) rs) i
        else if tok \<noteq> 97 then Panic ''syntax''
        else if length argv + 1 \<ge> 10 then Panic ''too many args''
        else
          bindR (parseredirs (length s + 1) s i) (\<lambda>rs' i.
          parseexec_loop k s (argv @ [(q, eq)]) (rs @ rs') i))"

primrec backcmds :: "nat \<Rightarrow> u8 list \<Rightarrow> shcmd \<Rightarrow> nat \<Rightarrow> (nat, shcmd) res" where
  "backcmds 0 s cmd i = NoFuel"
| "backcmds (Suc k) s cmd i =
     (case peek s [38] i of (b, i) \<Rightarrow>
      if b then (case gettoken s i of (_, _, _, i) \<Rightarrow> backcmds k s (C_back cmd) i)
      else Ret cmd i)"

fun parseline :: "nat \<Rightarrow> u8 list \<Rightarrow> nat \<Rightarrow> (nat, shcmd) res"
  and parsepipe :: "nat \<Rightarrow> u8 list \<Rightarrow> nat \<Rightarrow> (nat, shcmd) res"
  and parseexec :: "nat \<Rightarrow> u8 list \<Rightarrow> nat \<Rightarrow> (nat, shcmd) res"
  and parseblock :: "nat \<Rightarrow> u8 list \<Rightarrow> nat \<Rightarrow> (nat, shcmd) res" where
  "parseline 0 s i = NoFuel"
| "parseline (Suc k) s i =
     bindR (parsepipe k s i) (\<lambda>cmd i.
     bindR (backcmds (length s + 1) s cmd i) (\<lambda>cmd i.
     case peek s [59] i of (b, i) \<Rightarrow>
     if b then
       (case gettoken s i of (_, _, _, i) \<Rightarrow>
        bindR (parseline k s i) (\<lambda>right i. Ret (C_list cmd right) i))
     else Ret cmd i))"
| "parsepipe 0 s i = NoFuel"
| "parsepipe (Suc k) s i =
     bindR (parseexec k s i) (\<lambda>cmd i.
     case peek s [124] i of (b, i) \<Rightarrow>
     if b then
       (case gettoken s i of (_, _, _, i) \<Rightarrow>
        bindR (parsepipe k s i) (\<lambda>right i. Ret (C_pipe cmd right) i))
     else Ret cmd i)"
| "parseexec 0 s i = NoFuel"
| "parseexec (Suc k) s i =
     (case peek s [40] i of (b, i) \<Rightarrow>
      if b then parseblock k s i
      else
        bindR (parseredirs (length s + 1) s i) (\<lambda>rs i.
        parseexec_loop (length s + 1) s [] rs i))"
| "parseblock 0 s i = NoFuel"
| "parseblock (Suc k) s i =
     (case peek s [40] i of (b, i) \<Rightarrow>
      if \<not> b then Panic ''parseblock''
      else
        case gettoken s i of (_, _, _, i) \<Rightarrow>
        bindR (parseline k s i) (\<lambda>cmd i.
        case peek s [41] i of (b, i) \<Rightarrow>
        if \<not> b then Panic ''syntax - missing )''
        else
          case gettoken s i of (_, _, _, i) \<Rightarrow>
          bindR (parseredirs (length s + 1) s i) (\<lambda>rs i.
          Ret (redircmds cmd rs) i)))"

text \<open>The words are terminated in the line, whose last index is that of its terminator.\<close>

primrec nulterminate :: "shcmd \<Rightarrow> u8 list \<Rightarrow> u8 list" where
  "nulterminate (C_exec argv) s = foldl (\<lambda>s (q, eq). s[eq := 0]) s argv"
| "nulterminate (C_redir cmd fl mode fd) s = (nulterminate cmd s)[snd fl := 0]"
| "nulterminate (C_pipe left right) s = nulterminate right (nulterminate left s)"
| "nulterminate (C_list left right) s = nulterminate right (nulterminate left s)"
| "nulterminate (C_back cmd) s = nulterminate cmd s"

section \<open>Execution\<close>

definition sh_panic :: "string \<Rightarrow> 'a uprog" where
  "sh_panic t = bindU (printf 2 (str ''%s'' @ [10]) [Str_arg (Some (str t))]) (\<lambda>_. UExit)"

definition fork1 :: "int uprog" where
  "fork1 = bindU (do_call U_fork) (\<lambda>pid. if pid = -1 then sh_panic ''fork'' else URet pid)"

definition parsecmd :: "u8 list \<Rightarrow> (shcmd \<times> u8 list) uprog" where
  "parsecmd s =
     (case parseline (4 * length s + 4) s 0 of
        Ret cmd i \<Rightarrow>
          let i = snd (peek s [] i) in
          if i \<noteq> length s
          then bindU (printf 2 (str ''leftovers: %s'' @ [10]) [Str_arg (Some (drop i s))]) (\<lambda>_. sh_panic ''syntax'')
          else URet (cmd, nulterminate cmd (s @ [0]))
      | Panic t \<Rightarrow> sh_panic t
      | _ \<Rightarrow> UFuel)"

text \<open>The string that starts at an index.\<close>

definition str_at :: "u8 list \<Rightarrow> nat \<Rightarrow> u8 list" where
  "str_at s q = takeWhile (\<lambda>c. c \<noteq> 0) (drop q s)"

primrec runcmd :: "u8 list \<Rightarrow> shcmd \<Rightarrow> unit uprog" where
  "runcmd s (C_exec argv) =
     (if argv = [] then UExit
      else
        let args = map (\<lambda>(q, eq). str_at s q) argv in
        bindU (do_call (U_exec (hd args) args)) (\<lambda>_.
        bindU (printf 2 (str ''exec %s failed'' @ [10]) [Str_arg (Some (hd args))]) (\<lambda>_. UExit)))"
| "runcmd s (C_redir cmd fl mode fd) =
     bindU (do_call (U_close fd)) (\<lambda>_.
     bindU (do_call (U_open (str_at s (fst fl)) mode)) (\<lambda>r.
     if r < 0
     then bindU (printf 2 (str ''open %s failed'' @ [10]) [Str_arg (Some (str_at s (fst fl)))]) (\<lambda>_. UExit)
     else bindU (runcmd s cmd) (\<lambda>_. UExit)))"
| "runcmd s (C_list left right) =
     bindU fork1 (\<lambda>pid.
     bindU (if pid = 0 then runcmd s left else URet ()) (\<lambda>_.
     bindU (do_call U_wait) (\<lambda>_.
     bindU (runcmd s right) (\<lambda>_. UExit))))"
| "runcmd s (C_pipe left right) =
     UCall U_pipe (\<lambda>r p.
     if r < 0 then sh_panic ''pipe''
     else
       let p0 = sint (get32 p 0); p1 = sint (get32 p 4) in
       bindU fork1 (\<lambda>pid.
       bindU (if pid = 0 then
           bindU (do_call (U_close 1)) (\<lambda>_.
           bindU (do_call (U_dup p1)) (\<lambda>_.
           bindU (do_call (U_close p0)) (\<lambda>_.
           bindU (do_call (U_close p1)) (\<lambda>_.
           runcmd s left))))
         else URet ()) (\<lambda>_.
       bindU fork1 (\<lambda>pid.
       bindU (if pid = 0 then
           bindU (do_call (U_close 0)) (\<lambda>_.
           bindU (do_call (U_dup p0)) (\<lambda>_.
           bindU (do_call (U_close p0)) (\<lambda>_.
           bindU (do_call (U_close p1)) (\<lambda>_.
           runcmd s right))))
         else URet ()) (\<lambda>_.
       bindU (do_call (U_close p0)) (\<lambda>_.
       bindU (do_call (U_close p1)) (\<lambda>_.
       bindU (do_call U_wait) (\<lambda>_.
       bindU (do_call U_wait) (\<lambda>_. UExit)))))))))"
| "runcmd s (C_back cmd) =
     bindU fork1 (\<lambda>pid.
     bindU (if pid = 0 then runcmd s cmd else URet ()) (\<lambda>_. UExit))"

text \<open>The line that \<open>getcmd\<close> reads; it is empty at the end of the input.\<close>

definition getcmd :: "u8 list uprog" where
  "getcmd =
     bindU (printf 2 (str ''$ '') []) (\<lambda>_.
     bindU (gets_u 100) (\<lambda>buf. URet (takeWhile (\<lambda>c. c \<noteq> 0) buf)))"

primrec open_console :: "nat \<Rightarrow> unit uprog" where
  "open_console 0 = UFuel"
| "open_console (Suc k) =
     bindU (do_call (U_open (str ''console'') O_RDWR)) (\<lambda>fd.
     if fd \<ge> 0 then
       (if fd \<ge> 3 then bindU (do_call (U_close fd)) (\<lambda>_. URet ()) else open_console k)
     else URet ())"

primrec sh_loop :: "nat \<Rightarrow> unit uprog" where
  "sh_loop 0 = UFuel"
| "sh_loop (Suc k) =
     bindU getcmd (\<lambda>buf.
     if buf = [] then UExit
     else if char_at buf 0 = 99 \<and> char_at buf 1 = 100 \<and> char_at buf 2 = 32 then
       let dir = drop 3 (butlast buf) in
       bindU (do_call (U_chdir dir)) (\<lambda>r.
       bindU (if r < 0 then printf 2 (str ''cannot cd %s'' @ [10]) [Str_arg (Some dir)] else URet ()) (\<lambda>_.
       sh_loop k))
     else
       bindU fork1 (\<lambda>pid.
       bindU (if pid = 0 then bindU (parsecmd buf) (\<lambda>(cmd, s). runcmd s cmd) else URet ()) (\<lambda>_.
       bindU (do_call U_wait) (\<lambda>_.
       sh_loop k))))"

definition sh_main :: "nat \<Rightarrow> unit uprog" where
  "sh_main k = bindU (open_console k) (\<lambda>_. sh_loop k)"

end
