(* ===== verification/Shell_Spec.thy ===== *)
theory Shell_Spec
  imports Shell
begin

text \<open>
  The parser of the shell ends on every line, stays inside it, never takes more words than a command can hold, and
  the words it returns are complete words of the line that can be read from it after their termination.
\<close>

section \<open>Words of a command\<close>

primrec words :: "shcmd \<Rightarrow> (nat \<times> nat) list" where
  "words (C_exec argv) = argv"
| "words (C_redir cmd fl mode fd) = words cmd @ [fl]"
| "words (C_pipe left right) = words left @ words right"
| "words (C_list left right) = words left @ words right"
| "words (C_back cmd) = words cmd"

text \<open>The arrays of a command have ten places, the last of which ends the list.\<close>

primrec args_fit :: "shcmd \<Rightarrow> bool" where
  "args_fit (C_exec argv) = (length argv < 10)"
| "args_fit (C_redir cmd fl mode fd) = args_fit cmd"
| "args_fit (C_pipe left right) = (args_fit left \<and> args_fit right)"
| "args_fit (C_list left right) = (args_fit left \<and> args_fit right)"
| "args_fit (C_back cmd) = args_fit cmd"

definition word_ok :: "u8 list \<Rightarrow> nat \<times> nat \<Rightarrow> bool" where
  "word_ok s w \<longleftrightarrow> fst w < snd w \<and> snd w \<le> length s \<and> (\<forall>i. fst w \<le> i \<and> i < snd w \<longrightarrow> is_word (s ! i))
     \<and> (snd w < length s \<longrightarrow> \<not> is_word (s ! snd w))"

definition cmd_ok :: "u8 list \<Rightarrow> shcmd \<Rightarrow> bool" where
  "cmd_ok s cmd \<longleftrightarrow> args_fit cmd \<and> (\<forall>w\<in>set (words cmd). word_ok s w)"

section \<open>Tokens\<close>

lemma skip_while_le: "i \<le> skip_while P s i" "i \<le> length s \<Longrightarrow> skip_while P s i \<le> length s"
  using length_takeWhile_le [of P "drop i s"] by (simp_all add: skip_while_def)

lemma skip_while_in: "i \<le> j \<Longrightarrow> j < skip_while P s i \<Longrightarrow> P (s ! j)"
proof -
  assume a: "i \<le> j" "j < skip_while P s i"
  then have "j - i < length (takeWhile P (drop i s))" by (simp add: skip_while_def)
  then have "P (takeWhile P (drop i s) ! (j - i))" using nth_mem set_takeWhileD by metis
  then show ?thesis using a length_takeWhile_le [of P "drop i s"] by (simp add: takeWhile_nth skip_while_def)
qed

lemma skip_while_stop: "skip_while P s i < length s \<Longrightarrow> \<not> P (s ! skip_while P s i)"
  using nth_length_takeWhile [of P "drop i s"] by (simp add: skip_while_def)

lemma skip_while_id: "i < length s \<Longrightarrow> \<not> P (s ! i) \<Longrightarrow> skip_while P s i = i"
  by (simp add: skip_while_def takeWhile_eq_Nil_iff hd_drop_conv_nth)

lemma char_at_0: "0 \<notin> set s \<Longrightarrow> char_at s i = 0 \<longleftrightarrow> length s \<le> i"
  by (auto simp: char_at_def not_less dest: nth_mem)

lemma is_word_iff: "is_word c \<longleftrightarrow> \<not> is_space c \<and> c \<notin> {124, 40, 41, 59, 38, 60, 62}"
  by (auto simp: is_word_def is_space_def strchr_u_Some symbols_def)

lemma gettoken_ok:
  assumes "0 \<notin> set s" "i \<le> length s" "gettoken s i = (r, q, eq, j)"
  shows "i \<le> q" "q \<le> eq" "eq \<le> j" "j \<le> length s" "r \<noteq> 0 \<Longrightarrow> q < eq" "q < length s \<Longrightarrow> r \<noteq> 0" "r = 97 \<Longrightarrow> word_ok s (q, eq)"
proof -
  let ?c = "char_at s q"
  have q: "q = skip_while is_space s i" and j: "j = skip_while is_space s eq"
    and re: "(r, eq) = (if ?c = 0 then (?c, q) else if ?c \<in> {124, 40, 41, 59, 38, 60} then (?c, q + 1)
       else if ?c = 62 then (if char_at s (q + 1) = 62 then (43, q + 2) else (?c, q + 1)) else (97, skip_while is_word s q))"
    using assms(3) by (auto simp: gettoken_def Let_def split: prod.splits)
  show "i \<le> q" unfolding q by (rule skip_while_le)
  have ql: "q \<le> length s" unfolding q by (rule skip_while_le(2) [OF assms(2)])
  have w: "is_word ?c" if "?c \<noteq> 0" "?c \<notin> {124, 40, 41, 59, 38, 60, 62}"
    using that skip_while_stop [of is_space s i] ql char_at_0 [OF assms(1), of q] by (auto simp: is_word_iff char_at_def q split: if_splits)
  have sw: "q < skip_while is_word s q" if "?c \<noteq> 0" "?c \<notin> {124, 40, 41, 59, 38, 60, 62}"
  proof (rule ccontr)
    assume "\<not> ?thesis"
    then have e: "skip_while is_word s q = q" using skip_while_le(1) [of q is_word s] by simp
    have "q < length s" using that(1) by (auto simp: char_at_def split: if_splits)
    then show False using skip_while_stop [of is_word s q] e w [OF that] by (simp add: char_at_def)
  qed
  have two: "q + 2 \<le> length s" if "char_at s (q + 1) = 62" using that by (auto simp: char_at_def split: if_splits)
  have one: "q + 1 \<le> length s" if "?c \<noteq> 0" using that by (auto simp: char_at_def split: if_splits)
  have b: "q \<le> eq" "eq \<le> length s" "r \<noteq> 0 \<longrightarrow> q < eq" "?c \<noteq> 0 \<longrightarrow> r \<noteq> 0"
    using re ql sw two one skip_while_le(1) [of q is_word s] skip_while_le(2) [of q s is_word] by (auto split: if_splits)
  show "q \<le> eq" "r \<noteq> 0 \<Longrightarrow> q < eq" using b by simp_all
  show "q < length s \<Longrightarrow> r \<noteq> 0" using b(4) char_at_0 [OF assms(1), of q] by simp
  show "eq \<le> j" "j \<le> length s" unfolding j using skip_while_le(1) [of eq is_space s] skip_while_le(2) [of eq s is_space] b(2) by simp_all
  show "word_ok s (q, eq)" if "r = 97"
  proof -
    have c: "?c \<noteq> 0" "?c \<notin> {124, 40, 41, 59, 38, 60, 62}" "eq = skip_while is_word s q"
      using re that by (auto split: if_splits)
    then show ?thesis
      using sw b(2) skip_while_in [of q _ is_word s] skip_while_stop [of is_word s q] by (simp add: word_ok_def)
  qed
qed

lemma peek_ok:
  assumes "i \<le> length s" "peek s toks i = (b, j)"
  shows "i \<le> j" "j \<le> length s" "b \<Longrightarrow> j < length s \<and> \<not> is_space (s ! j)"
proof -
  have j: "j = skip_while is_space s i" "b \<Longrightarrow> char_at s j \<noteq> 0" using assms(2) by (auto simp: peek_def Let_def)
  show "i \<le> j" "j \<le> length s" using skip_while_le(1) [of i is_space s] skip_while_le(2) [of i s is_space] assms(1) j(1) by simp_all
  show "j < length s \<and> \<not> is_space (s ! j)" if b
  proof -
    have "j < length s" using j(2) [OF that] by (auto simp: char_at_def split: if_splits)
    then show ?thesis using skip_while_stop [of is_space s i] j(1) by simp
  qed
qed

text \<open>After a successful \<open>peek\<close> the next token is not empty.\<close>

lemma peek_gettoken:
  assumes "0 \<notin> set s" "i \<le> length s" "peek s toks i = (b, j)" b "gettoken s j = (r, q, eq, k)"
  shows "i < k" "k \<le> length s"
proof -
  note p = peek_ok [OF assms(2,3)]
  note g = gettoken_ok [OF assms(1) p(2) assms(5)]
  have "q = skip_while is_space s j" using assms(5) by (auto simp: gettoken_def Let_def split: prod.splits)
  then have "q = j" using skip_while_id [of j s is_space] p(3) [OF assms(4)] by simp
  then show "i < k" "k \<le> length s" using p(1) p(3) [OF assms(4)] g(2-6) by simp_all
qed

section \<open>The parser\<close>

definition parses :: "(nat \<Rightarrow> 'a \<Rightarrow> bool) \<Rightarrow> (nat, 'a) res \<Rightarrow> bool" where
  "parses P m \<longleftrightarrow> (case m of Ret x j \<Rightarrow> P j x | Panic t \<Rightarrow> True | _ \<Rightarrow> False)"

lemma parses_simps [simp]:
  "parses P (Ret x j) = P j x" "parses P (Panic t)" "\<not> parses P NoFuel"
  by (simp_all add: parses_def)

lemma parses_bind:
  assumes "parses P m" "\<And>j x. P j x \<Longrightarrow> parses Q (f x j)"
  shows "parses Q (bindR m f)"
  using assms by (cases m) (simp_all add: parses_def)

lemma parses_mono: "parses P m \<Longrightarrow> (\<And>j x. P j x \<Longrightarrow> Q j x) \<Longrightarrow> parses Q m"
  by (cases m) (simp_all add: parses_def)

text \<open>Looking ahead, and going on behind the token that was found.\<close>

lemma peek_then:
  assumes "0 \<notin> set s" "i \<le> length s"
    and "\<And>j. i < j \<Longrightarrow> j \<le> length s \<Longrightarrow> parses Q (f j)" "\<And>j. i \<le> j \<Longrightarrow> j \<le> length s \<Longrightarrow> parses Q (g j)"
  shows "parses Q (case peek s toks i of (b, i) \<Rightarrow> if b then (case gettoken s i of (_, _, _, i) \<Rightarrow> f i) else g i)"
    "parses Q (case peek s toks i of (b, i) \<Rightarrow> if \<not> b then g i else (case gettoken s i of (_, _, _, i) \<Rightarrow> f i))"
proof -
  obtain b j where p: "peek s toks i = (b, j)" by fastforce
  obtain r q eq k where g: "gettoken s j = (r, q, eq, k)" by (metis prod.exhaust)
  show "parses Q (case peek s toks i of (b, i) \<Rightarrow> if b then (case gettoken s i of (_, _, _, i) \<Rightarrow> f i) else g i)"
    "parses Q (case peek s toks i of (b, i) \<Rightarrow> if \<not> b then g i else (case gettoken s i of (_, _, _, i) \<Rightarrow> f i))"
    using assms(3) [of k] assms(4) [of j] peek_ok [OF assms(2) p] peek_gettoken [OF assms(1,2) p _ g] by (cases b; simp add: p g)+
qed

definition within :: "u8 list \<Rightarrow> nat \<Rightarrow> ('a \<Rightarrow> bool) \<Rightarrow> nat \<Rightarrow> 'a \<Rightarrow> bool" where
  "within s i P j x \<longleftrightarrow> i \<le> j \<and> j \<le> length s \<and> P x"

lemma within_mono: "parses (within s i P) m \<Longrightarrow> j \<le> i \<Longrightarrow> parses (within s j P) m"
  by (erule parses_mono) (simp add: within_def)

lemma parseredirs_ok:
  assumes "0 \<notin> set s" "i \<le> length s" "length s - i < k"
  shows "parses (within s i (\<lambda>rs. \<forall>r\<in>set rs. word_ok s (fst r))) (parseredirs k s i)"
  using assms(2,3)
proof (induction k arbitrary: i)
  case (Suc k)
  obtain b j where p: "peek s [60, 62] i = (b, j)" by fastforce
  note pk = peek_ok [OF Suc.prems(1) p]
  show ?case
  proof (cases b)
    case True
    obtain tok q0 e0 j' where g: "gettoken s j = (tok, q0, e0, j')" by (metis prod.exhaust)
    obtain r q eq j'' where g': "gettoken s j' = (r, q, eq, j'')" by (metis prod.exhaust)
    note l = peek_gettoken [OF assms(1) Suc.prems(1) p True g]
    note h = gettoken_ok [OF assms(1) l(2) g']
    show ?thesis
    proof (cases "r = 97")
      case w: True
      have IH: "parses (within s j'' (\<lambda>rs. \<forall>r\<in>set rs. word_ok s (fst r))) (parseredirs k s j'')"
        using h l Suc.prems by (intro Suc.IH) simp_all
      have "parses (within s i (\<lambda>rs. \<forall>r\<in>set rs. word_ok s (fst r))) (bindR (parseredirs k s j'') (\<lambda>rs i. Ret (x @ rs) i))"
        if "\<forall>r\<in>set x. fst r = (q, eq)" for x
        by (rule parses_bind [OF IH]) (use that h(1-3) h(7) [OF w] l in \<open>auto simp: within_def\<close>)
      then show ?thesis unfolding parseredirs.simps p g g' prod.case using True w by simp
    qed (use True p g g' in simp)
  qed (use p pk in \<open>simp add: within_def\<close>)
qed simp

lemma redircmds_words:
  "words (redircmds cmd rs) = words cmd @ map fst rs" "args_fit (redircmds cmd rs) = args_fit cmd"
  by (induction rs arbitrary: cmd) (auto simp: redircmds_def)

lemma redircmds_ok: "cmd_ok s (redircmds cmd rs) \<longleftrightarrow> cmd_ok s cmd \<and> (\<forall>r\<in>set rs. word_ok s (fst r))"
  by (auto simp: cmd_ok_def redircmds_words)

lemma parseexec_loop_ok:
  assumes "0 \<notin> set s" "i \<le> length s" "length s - i < k"
    and "cmd_ok s (C_exec argv)" "\<forall>r\<in>set rs. word_ok s (fst r)"
  shows "parses (within s i (cmd_ok s)) (parseexec_loop k s argv rs i)"
  using assms(2-)
proof (induction k arbitrary: i argv rs)
  case (Suc k)
  have fin: "cmd_ok s (redircmds (C_exec argv) rs)" using Suc.prems(3,4) by (simp add: redircmds_ok)
  obtain b j where p: "peek s [124, 41, 38, 59] i = (b, j)" by fastforce
  note pk = peek_ok [OF Suc.prems(1) p]
  obtain tok q eq j' where g: "gettoken s j = (tok, q, eq, j')" by (metis prod.exhaust)
  note h = gettoken_ok [OF assms(1) pk(2) g]
  show ?case
  proof (cases "b \<or> tok = 0 \<or> tok \<noteq> 97 \<or> length argv + 1 \<ge> 10")
    case False
    have r: "parses (within s j' (\<lambda>rs. \<forall>r\<in>set rs. word_ok s (fst r))) (parseredirs (length s + 1) s j')"
      using h(4) by (intro parseredirs_ok [OF assms(1)]) simp_all
    have ok: "cmd_ok s (C_exec (argv @ [(q, eq)]))" using Suc.prems(3) False h(7) by (simp add: cmd_ok_def)
    have "parses (within s i (cmd_ok s)) (parseexec_loop k s (argv @ [(q, eq)]) (rs @ rs') m)"
      if m: "within s j' (\<lambda>rs. \<forall>r\<in>set rs. word_ok s (fst r)) m rs'" for m rs'
    proof (rule within_mono)
      show "parses (within s m (cmd_ok s)) (parseexec_loop k s (argv @ [(q, eq)]) (rs @ rs') m)"
        using False h(1-6) Suc.prems(1,2,4) m pk(1) ok by (intro Suc.IH) (auto simp: within_def)
      show "i \<le> m" using m h(1-3) pk(1) by (simp add: within_def)
    qed
    then have "parses (within s i (cmd_ok s)) (bindR (parseredirs (length s + 1) s j') (\<lambda>rs' i. parseexec_loop k s (argv @ [(q, eq)]) (rs @ rs') i))"
      by (rule parses_bind [OF r])
    then show ?thesis unfolding parseexec_loop.simps p g prod.case using False by (simp del: parseredirs.simps)
  qed (use p g pk h fin in \<open>auto simp: within_def\<close>)
qed simp

lemma backcmds_ok:
  assumes "0 \<notin> set s" "i \<le> length s" "length s - i < k" "cmd_ok s cmd"
  shows "parses (within s i (cmd_ok s)) (backcmds k s cmd i)"
  using assms(2-)
proof (induction k arbitrary: i cmd)
  case (Suc k)
  show ?case unfolding backcmds.simps
  proof (rule peek_then(1) [OF assms(1) Suc.prems(1)])
    fix j assume j: "i < j" "j \<le> length s"
    then have "parses (within s j (cmd_ok s)) (backcmds k s (C_back cmd) j)"
      using Suc.prems by (intro Suc.IH) (simp_all add: cmd_ok_def)
    then show "parses (within s i (cmd_ok s)) (backcmds k s (C_back cmd) j)" using j(1) by (auto elim: within_mono)
  qed (use Suc.prems in \<open>simp add: within_def\<close>)
qed simp

lemma parse_ok:
  assumes "0 \<notin> set s"
  shows "i \<le> length s \<Longrightarrow> 4 * (length s - i) + 4 \<le> k \<Longrightarrow> parses (within s i (cmd_ok s)) (parseline k s i)"
    and "i \<le> length s \<Longrightarrow> 4 * (length s - i) + 3 \<le> k \<Longrightarrow> parses (within s i (cmd_ok s)) (parsepipe k s i)"
    and "i \<le> length s \<Longrightarrow> 4 * (length s - i) + 2 \<le> k \<Longrightarrow> parses (within s i (cmd_ok s)) (parseexec k s i)"
    and "i \<le> length s \<Longrightarrow> 4 * (length s - i) + 1 \<le> k \<Longrightarrow> parses (within s i (cmd_ok s)) (parseblock k s i)"
proof (induction k arbitrary: i)
  case (Suc k)
  { case 1
    note f = 1
    show ?case unfolding parseline.simps
    proof (rule parses_bind [OF Suc.IH(2)], goal_cases)
      case (3 j cmd)
      then have j: "i \<le> j" "j \<le> length s" "cmd_ok s cmd" by (simp_all add: within_def)
      show ?case
      proof (rule parses_bind [OF backcmds_ok [OF assms j(2) _ j(3)]], goal_cases)
        case (2 m cmd)
        then have m: "j \<le> m" "m \<le> length s" "cmd_ok s cmd" by (simp_all add: within_def)
        show ?case
        proof (rule peek_then(1) [OF assms m(2)], goal_cases)
          case (1 n)
          show ?case by (rule parses_bind [OF Suc.IH(1)]) (use 1 m j f in \<open>auto simp: within_def cmd_ok_def\<close>)
        qed (use m j in \<open>simp add: within_def\<close>)
      qed simp
    qed (use f in simp_all)
  next
    case 2
    note f = 2
    show ?case unfolding parsepipe.simps
    proof (rule parses_bind [OF Suc.IH(3)], goal_cases)
      case (3 j cmd)
      then have j: "i \<le> j" "j \<le> length s" "cmd_ok s cmd" by (simp_all add: within_def)
      show ?case
      proof (rule peek_then(1) [OF assms j(2)], goal_cases)
        case (1 n)
        show ?case by (rule parses_bind [OF Suc.IH(2)]) (use 1 j f in \<open>auto simp: within_def cmd_ok_def\<close>)
      qed (use j in \<open>simp add: within_def\<close>)
    qed (use f in simp_all)
  next
    case 3
    obtain b j where p: "peek s [40] i = (b, j)" by fastforce
    note pk = peek_ok [OF 3(1) p]
    have "parses (within s i (cmd_ok s)) (parseblock k s j)"
      using within_mono [OF Suc.IH(4) [OF pk(2)] pk(1)] 3(2) pk(1) by simp
    moreover have "parses (within s i (cmd_ok s)) (bindR (parseredirs (length s + 1) s j) (\<lambda>rs i. parseexec_loop (length s + 1) s [] rs i))"
      by (rule parses_bind [OF parseredirs_ok [OF assms pk(2)]], simp,
          rule within_mono [OF parseexec_loop_ok [OF assms]]) (use pk in \<open>auto simp: within_def cmd_ok_def\<close>)
    ultimately show ?case unfolding parseexec.simps p prod.case by (cases b) (simp_all only: if_True if_False)
  next
    case 4
    note f = 4
    show ?case unfolding parseblock.simps
    proof (rule peek_then(2) [OF assms f(1)], goal_cases)
      case (1 j)
      note ij = 1
      show ?case
      proof (rule parses_bind [OF Suc.IH(1)], goal_cases)
        case (3 m cmd)
        then have m: "j \<le> m" "m \<le> length s" "cmd_ok s cmd" by (simp_all add: within_def)
        show ?case
        proof (rule peek_then(2) [OF assms m(2)], goal_cases)
          case (1 n)
          show ?case by (rule parses_bind [OF parseredirs_ok [OF assms 1(2)]])
              (use 1 m ij in \<open>auto simp: within_def redircmds_ok\<close>)
        qed simp
      qed (use ij f in simp_all)
    qed simp
  }
qed simp_all

section \<open>The termination of the words\<close>

lemma nulterminate_words: "nulterminate cmd b = foldl (\<lambda>b w. b[snd w := 0]) b (words cmd)"
  by (induction cmd arbitrary: b) (simp_all add: case_prod_unfold)

lemma foldl_clear:
  "length (foldl (\<lambda>b w. b[snd w := 0]) b ws) = length b"
  "p < length b \<Longrightarrow> foldl (\<lambda>b w. b[snd w := 0]) b ws ! p = (if p \<in> snd ` set ws then 0 else b ! p)" for b :: "u8 list"
  by (induction ws arbitrary: b) (auto simp: nth_list_update)

text \<open>The end of a word is never inside a word.\<close>

lemma word_ends_outside: "word_ok s w \<Longrightarrow> word_ok s v \<Longrightarrow> fst w \<le> p \<Longrightarrow> p < snd w \<Longrightarrow> snd v \<noteq> p"
  by (auto simp: word_ok_def)

lemma takeWhile_prefix:
  assumes "i \<le> length xs" "\<forall>p<i. P (xs ! p)" "i < length xs \<longrightarrow> \<not> P (xs ! i)"
  shows "takeWhile P xs = take i xs"
proof -
  have "\<forall>x\<in>set (take i xs). P x" using assms(2) by (auto simp: in_set_conv_nth)
  moreover have "takeWhile P (drop i xs) = []" using assms(1,3) by (cases "drop i xs") (auto simp: nth_via_drop dest: arg_cong [of _ _ length])
  ultimately show ?thesis using takeWhile_append2 [of "take i xs" P "drop i xs"] by simp
qed

lemma str_at_word:
  assumes "0 \<notin> set s" "cmd_ok s cmd" "w \<in> set (words cmd)"
  shows "str_at (nulterminate cmd (s @ [0])) (fst w) = take (snd w - fst w) (drop (fst w) s)"
proof -
  let ?t = "nulterminate cmd (s @ [0])"
  have ok: "word_ok s v" if "v \<in> set (words cmd)" for v using assms(2) that by (simp add: cmd_ok_def)
  have w: "fst w < snd w" "snd w \<le> length s" using ok [OF assms(3)] by (simp_all add: word_ok_def)
  have len: "length ?t = Suc (length s)" by (simp add: nulterminate_words foldl_clear)
  have inside: "?t ! p = s ! p \<and> s ! p \<noteq> 0" if "fst w \<le> p" "p < snd w" for p
  proof -
    have "p \<notin> snd ` set (words cmd)" using word_ends_outside [OF ok [OF assms(3)] ok that] by auto
    moreover have p: "p < length s" using that w by simp
    moreover have "s ! p \<noteq> 0" using assms(1) nth_mem [OF p] by metis
    ultimately show ?thesis by (simp add: nulterminate_words foldl_clear nth_append)
  qed
  have zero: "?t ! snd w = 0" using assms(3) w by (simp add: nulterminate_words foldl_clear)
  have "\<forall>p. p < snd w - fst w \<longrightarrow> drop (fst w) ?t ! p \<noteq> 0" using w len inside by simp
  moreover have "drop (fst w) ?t ! (snd w - fst w) = 0" using w len zero by simp
  ultimately have "str_at ?t (fst w) = take (snd w - fst w) (drop (fst w) ?t)"
    unfolding str_at_def using w len by (intro takeWhile_prefix) simp_all
  also have "\<dots> = take (snd w - fst w) (drop (fst w) s)"
    by (rule nth_equalityI) (use w len inside in simp_all)
  finally show ?thesis .
qed

text \<open>
  C38: On every line without zero bytes the parser ends within the fuel that \<open>parsecmd\<close> gives it, with a command or with a
  panic; it never leaves the line. In a command no argument list is longer than its arrays, and after the termination of the
  words the string at the start of each of them is a non-empty piece of the line without white space and symbols.
\<close>

theorem parse_total_and_words:
  assumes "0 \<notin> set s"
  shows "case parseline (4 * length s + 4) s 0 of
     Ret cmd i \<Rightarrow> i \<le> length s \<and> args_fit cmd
       \<and> (\<forall>w\<in>set (words cmd). let t = str_at (nulterminate cmd (s @ [0])) (fst w) in
            t = take (snd w - fst w) (drop (fst w) s) \<and> t \<noteq> [] \<and> (\<forall>c\<in>set t. is_word c))
   | Panic msg \<Rightarrow> True
   | _ \<Rightarrow> False"
proof -
  have "parses (within s 0 (cmd_ok s)) (parseline (4 * length s + 4) s 0)" using parse_ok(1) [OF assms, of 0] by simp
  moreover have "t \<noteq> [] \<and> (\<forall>c\<in>set t. is_word c)" if "word_ok s w" "t = take (snd w - fst w) (drop (fst w) s)" for t w
    using that by (auto simp: word_ok_def in_set_conv_nth)
  ultimately have p: "parses (within s 0 (cmd_ok s)) (parseline (4 * length s + 4) s 0)"
    and word: "\<And>t w. word_ok s w \<Longrightarrow> t = take (snd w - fst w) (drop (fst w) s) \<Longrightarrow> t \<noteq> [] \<and> (\<forall>c\<in>set t. is_word c)" by blast+
  show ?thesis
  proof (cases "parseline (4 * length s + 4) s 0")
    case (Ret cmd i)
    then have c: "i \<le> length s" "cmd_ok s cmd" using p by (simp_all only: parses_simps within_def)
    then have "\<forall>w\<in>set (words cmd). let t = str_at (nulterminate cmd (s @ [0])) (fst w) in
        t = take (snd w - fst w) (drop (fst w) s) \<and> t \<noteq> [] \<and> (\<forall>c\<in>set t. is_word c)"
      using str_at_word [OF assms c(2)] word unfolding Let_def cmd_ok_def by metis
    then show ?thesis using c unfolding Ret by (simp add: cmd_ok_def)
  qed (use p in \<open>simp_all only: parses_def res.case\<close>)
qed

text \<open>The line \<open>ls>f;cat\<close>, with a space at its end.\<close>

definition demo_line :: "u8 list" where
  "demo_line = [108, 115, 62, 102, 59, 99, 97, 116, 32]"

lemma demo_line_parses:
  "parseline 40 demo_line 0 = Ret (C_list (C_redir (C_exec [(0, 2)]) (3, 4) 0x201 1) (C_exec [(5, 8)])) 9"
  by code_simp

theorem parse_total_and_words_witness:
  "\<exists>cmd i. parseline 40 demo_line 0 = Ret cmd i \<and> words cmd = [(0, 2), (3, 4), (5, 8)]
     \<and> str_at (nulterminate cmd (demo_line @ [0])) 3 = [102]"
proof -
  have "0 \<notin> set demo_line" "4 * length demo_line + 4 = 40" by (simp_all add: demo_line_def)
  then show ?thesis using parse_total_and_words [of demo_line] by (simp add: demo_line_parses Let_def) (simp add: demo_line_def)
qed

end
