(* ===== verification/User_Programs.thy ===== *)
theory User_Programs
  imports User_Lib Fs
begin

text \<open>
  The small user programs: \<open>cat.c\<close>, \<open>wc.c\<close>, \<open>echo.c\<close>, \<open>kill.c\<close>, \<open>ln.c\<close>, \<open>mkdir.c\<close>, \<open>rm.c\<close>, \<open>ls.c\<close>,
  \<open>zombie.c\<close>, \<open>init.c\<close> and \<open>shutdown.c\<close>. Loops over the input have fuel. An argument vector is the list of its strings.
\<close>

abbreviation (input) die :: "int \<Rightarrow> string \<Rightarrow> carg list \<Rightarrow> 'a uprog" where
  "die fd msg args \<equiv> bindU (printf fd (str msg @ [10]) args) (\<lambda>_. UExit)"

section \<open>cat\<close>

primrec cat :: "nat \<Rightarrow> int \<Rightarrow> unit uprog" where
  "cat 0 fd = UFuel"
| "cat (Suc k) fd =
     UCall (U_read fd 512) (\<lambda>n buf.
     if n > 0 then bindU (do_call (U_write 1 (take (nat n) buf))) (\<lambda>_. cat k fd)
     else if n < 0 then die 1 ''cat: read error'' []
     else URet ())"

primrec cat_files :: "nat \<Rightarrow> u8 list list \<Rightarrow> unit uprog" where
  "cat_files k [] = UExit"
| "cat_files k (f # fs) =
     bindU (do_call (U_open f 0)) (\<lambda>fd.
     if fd < 0 then die 1 ''cat: cannot open %s'' [Str_arg (Some f)]
     else bindU (cat k fd) (\<lambda>_. bindU (do_call (U_close fd)) (\<lambda>_. cat_files k fs)))"

definition cat_main :: "nat \<Rightarrow> u8 list list \<Rightarrow> unit uprog" where
  "cat_main k argv = (if length argv \<le> 1 then bindU (cat k 0) (\<lambda>_. UExit) else cat_files k (drop 1 argv))"

section \<open>wc\<close>

text \<open>The counters of lines, words and bytes, and whether the last byte was in a word.\<close>

primrec wc_scan :: "u8 list \<Rightarrow> u32 \<times> u32 \<times> u32 \<times> bool \<Rightarrow> u32 \<times> u32 \<times> u32 \<times> bool" where
  "wc_scan [] st = st"
| "wc_scan (b # bs) st =
     (case st of (l, w, c, inword) \<Rightarrow>
      let c = c + 1;
          l = (if b = 10 then l + 1 else l) in
      wc_scan bs
        (if strchr_u [32, 13, 9, 10, 11] b \<noteq> None then (l, w, c, False)
         else if \<not> inword then (l, w + 1, c, True)
         else (l, w, c, inword)))"

primrec wc_loop :: "nat \<Rightarrow> int \<Rightarrow> u8 list \<Rightarrow> u32 \<times> u32 \<times> u32 \<times> bool \<Rightarrow> unit uprog" where
  "wc_loop 0 fd nm st = UFuel"
| "wc_loop (Suc k) fd nm st =
     UCall (U_read fd 512) (\<lambda>n buf.
     if n > 0 then wc_loop k fd nm (wc_scan (take (nat n) buf) st)
     else if n < 0 then die 1 ''wc: read error'' []
     else case st of (l, w, c, inword) \<Rightarrow>
       printf 1 (str ''%d %d %d %s'' @ [10]) [Word_arg l, Word_arg w, Word_arg c, Str_arg (Some nm)])"

definition wc :: "nat \<Rightarrow> int \<Rightarrow> u8 list \<Rightarrow> unit uprog" where
  "wc k fd nm = wc_loop k fd nm (0, 0, 0, False)"

primrec wc_files :: "nat \<Rightarrow> u8 list list \<Rightarrow> unit uprog" where
  "wc_files k [] = UExit"
| "wc_files k (f # fs) =
     bindU (do_call (U_open f 0)) (\<lambda>fd.
     if fd < 0 then die 1 ''wc: cannot open %s'' [Str_arg (Some f)]
     else bindU (wc k fd f) (\<lambda>_. bindU (do_call (U_close fd)) (\<lambda>_. wc_files k fs)))"

definition wc_main :: "nat \<Rightarrow> u8 list list \<Rightarrow> unit uprog" where
  "wc_main k argv = (if length argv \<le> 1 then bindU (wc k 0 []) (\<lambda>_. UExit) else wc_files k (drop 1 argv))"

section \<open>echo, kill, ln, mkdir, rm\<close>

primrec echo_args :: "u8 list list \<Rightarrow> unit uprog" where
  "echo_args [] = UExit"
| "echo_args (a # as) =
     bindU (printf 1 (str ''%s%s'') [Str_arg (Some a), Str_arg (Some (if as \<noteq> [] then [32] else [10]))]) (\<lambda>_. echo_args as)"

definition echo_main :: "u8 list list \<Rightarrow> unit uprog" where
  "echo_main argv = echo_args (drop 1 argv)"

primrec kill_args :: "u8 list list \<Rightarrow> unit uprog" where
  "kill_args [] = UExit"
| "kill_args (a # as) = bindU (do_call (U_kill (atoi a))) (\<lambda>_. kill_args as)"

definition kill_main :: "u8 list list \<Rightarrow> unit uprog" where
  "kill_main argv = (if length argv < 1 then die 2 ''usage: kill pid...'' [] else kill_args (drop 1 argv))"

definition ln_main :: "u8 list list \<Rightarrow> unit uprog" where
  "ln_main argv =
     (if length argv \<noteq> 3 then die 2 ''Usage: ln old new'' []
      else
        bindU (do_call (U_link (argv ! 1) (argv ! 2))) (\<lambda>r.
        if r < 0 then die 2 ''link %s %s: failed'' [Str_arg (Some (argv ! 1)), Str_arg (Some (argv ! 2))]
        else UExit))"

primrec mkdir_args :: "u8 list list \<Rightarrow> unit uprog" where
  "mkdir_args [] = UExit"
| "mkdir_args (a # as) =
     bindU (do_call (U_mkdir a)) (\<lambda>r.
     if r < 0 then die 2 ''mkdir: %s failed to create'' [Str_arg (Some a)] else mkdir_args as)"

definition mkdir_main :: "u8 list list \<Rightarrow> unit uprog" where
  "mkdir_main argv = (if length argv < 2 then die 2 ''Usage: mkdir files...'' [] else mkdir_args (drop 1 argv))"

primrec rm_args :: "u8 list list \<Rightarrow> unit uprog" where
  "rm_args [] = UExit"
| "rm_args (a # as) =
     bindU (do_call (U_unlink a)) (\<lambda>r.
     if r < 0 then die 2 ''rm: %s failed to delete'' [Str_arg (Some a)] else rm_args as)"

definition rm_main :: "u8 list list \<Rightarrow> unit uprog" where
  "rm_main argv = (if length argv < 2 then die 2 ''Usage: rm files...'' [] else rm_args (drop 1 argv))"

section \<open>ls\<close>

text \<open>The name after the last slash, padded with blanks to the length of a directory entry.\<close>

definition fmtname :: "u8 list \<Rightarrow> u8 list" where
  "fmtname path =
     (let p = rev (takeWhile (\<lambda>c. c \<noteq> 47) (rev path)) in
      if length p \<ge> 14 then p else p @ replicate (14 - length p) 32)"

text \<open>The line for a file, from the bytes of its \<open>struct stat\<close>.\<close>

definition ls_line :: "u8 list \<Rightarrow> u8 list \<Rightarrow> unit uprog" where
  "ls_line path st =
     printf 1 (str ''%s %d %d %d'' @ [10])
       [Str_arg (Some (fmtname path)), Word_arg (scast (get16 st 0)), Word_arg (get32 st 8), Word_arg (get32 st 16)]"

primrec ls_entries :: "nat \<Rightarrow> int \<Rightarrow> u8 list \<Rightarrow> unit uprog" where
  "ls_entries 0 fd path = UFuel"
| "ls_entries (Suc k) fd path =
     UCall (U_read fd 16) (\<lambda>n bs.
     if n = 16 then
       let de = get_dirent bs in
       if d_inum de = 0 then ls_entries k fd path
       else
         let buf = path @ [47] @ takeWhile (\<lambda>c. c \<noteq> 0) (d_name de) in
         bindU (stat_u buf) (\<lambda>(r, st).
         bindU (if r < 0 then printf 1 (str ''ls: cannot stat %s'' @ [10]) [Str_arg (Some buf)] else ls_line buf st) (\<lambda>_.
         ls_entries k fd path))
     else URet ())"

definition ls :: "nat \<Rightarrow> u8 list \<Rightarrow> unit uprog" where
  "ls k path =
     bindU (do_call (U_open path 0)) (\<lambda>fd.
     if fd < 0 then printf 2 (str ''ls: cannot open %s'' @ [10]) [Str_arg (Some path)]
     else
       UCall (U_fstat fd) (\<lambda>r st.
       if r < 0 then
         bindU (printf 2 (str ''ls: cannot stat %s'' @ [10]) [Str_arg (Some path)]) (\<lambda>_.
         bindU (do_call (U_close fd)) (\<lambda>_. URet ()))
       else
         bindU
           (if get16 st 0 = T_FILE then ls_line path st
            else if get16 st 0 = T_DIR then
              (if length path + 1 + 14 + 1 > 512 then printf 1 (str ''ls: path too long'' @ [10]) []
               else ls_entries k fd path)
            else URet ()) (\<lambda>_.
         bindU (do_call (U_close fd)) (\<lambda>_. URet ()))))"

primrec ls_args :: "nat \<Rightarrow> u8 list list \<Rightarrow> unit uprog" where
  "ls_args k [] = UExit"
| "ls_args k (a # as) = bindU (ls k a) (\<lambda>_. ls_args k as)"

definition ls_main :: "nat \<Rightarrow> u8 list list \<Rightarrow> unit uprog" where
  "ls_main k argv = (if length argv < 2 then bindU (ls k [46]) (\<lambda>_. UExit) else ls_args k (drop 1 argv))"

section \<open>zombie, init, shutdown\<close>

definition zombie_main :: "unit uprog" where
  "zombie_main =
     bindU (do_call U_fork) (\<lambda>r.
     bindU (if r > 0 then do_call (U_sleep 5) else URet 0) (\<lambda>_. UExit))"

definition shutdown_main :: "unit uprog" where
  "shutdown_main = bindU (do_call U_halt) (\<lambda>_. UExit)"

text \<open>The inner loop of \<open>init\<close> waits for its shell and for abandoned processes.\<close>

primrec init_wait :: "nat \<Rightarrow> int \<Rightarrow> unit uprog" where
  "init_wait 0 child = UFuel"
| "init_wait (Suc k) child =
     bindU (do_call U_wait) (\<lambda>wpid.
     if wpid \<ge> 0 \<and> wpid \<noteq> child then bindU (printf 1 (str ''zombie!'' @ [10]) []) (\<lambda>_. init_wait k child)
     else URet ())"

primrec init_loop :: "nat \<Rightarrow> unit uprog" where
  "init_loop 0 = UFuel"
| "init_loop (Suc k) =
     bindU (printf 1 (str ''init: starting sh'' @ [10]) []) (\<lambda>_.
     bindU (do_call U_fork) (\<lambda>pid.
     if pid < 0 then die 1 ''init: fork failed'' []
     else if pid = 0 then
       bindU (do_call (U_exec (str ''sh'') [str ''sh''])) (\<lambda>_. die 1 ''init: exec sh failed'' [])
     else bindU (init_wait k pid) (\<lambda>_. init_loop k)))"

definition init_main :: "nat \<Rightarrow> unit uprog" where
  "init_main k =
     bindU (do_call (U_open (str ''console'') 2)) (\<lambda>fd.
     bindU (if fd < 0
       then bindU (do_call (U_mknod (str ''console'') 1 1)) (\<lambda>_. do_call (U_open (str ''console'') 2))
       else URet fd) (\<lambda>_.
     bindU (do_call (U_dup 0)) (\<lambda>_.
     bindU (do_call (U_dup 0)) (\<lambda>_.
     init_loop k))))"

section \<open>Filters\<close>

text \<open>Pieces of input that a read of 512 bytes returns completely.\<close>

definition pieces_ok :: "u8 list list \<Rightarrow> bool" where
  "pieces_ok cs \<longleftrightarrow> (\<forall>c\<in>set cs. c \<noteq> [] \<and> length c \<le> 512)"

lemma wc_scan_append: "wc_scan (a @ b) st = wc_scan b (wc_scan a st)"
  by (induction a arbitrary: st) (simp_all add: Let_def split: prod.split)

lemma wc_loop_runs:
  assumes "pieces_ok cs" "length cs < k"
  shows "runU stream (wc_loop k fd nm st) (cs, out) = runU stream (case wc_scan (concat cs) st of (l, w, c, inword) \<Rightarrow>
     printf 1 (str ''%d %d %d %s'' @ [10]) [Word_arg l, Word_arg w, Word_arg c, Str_arg (Some nm)]) ([], out)"
  using assms
proof (induction cs arbitrary: k st)
  case Nil
  then show ?case by (cases k) simp_all
next
  case (Cons c cs)
  then obtain j where "k = Suc j" by (cases k) simp_all
  then show ?case using Cons.IH [of j "wc_scan c st"] Cons.prems by (simp add: pieces_ok_def wc_scan_append)
qed

text \<open>What the counters mean.\<close>

definition blank :: "u8 \<Rightarrow> bool" where
  "blank c \<longleftrightarrow> c \<in> {32, 13, 9, 10, 11}"

primrec word_starts :: "bool \<Rightarrow> u8 list \<Rightarrow> nat" where
  "word_starts prev [] = 0"
| "word_starts prev (c # cs) = (if \<not> blank c \<and> \<not> prev then 1 else 0) + word_starts (\<not> blank c) cs"

lemma wc_scan_counts:
  "\<exists>i. wc_scan bs (l, w, c, inw) = (l + of_nat (count_list bs 10), w + of_nat (word_starts inw bs), c + of_nat (length bs), i)"
proof (induction bs arbitrary: l w c inw)
  case (Cons b bs)
  have e: "strchr_u [32, 13, 9, 10, 11] b = None \<longleftrightarrow> \<not> blank b" by (auto simp: blank_def)
  let ?l = "if b = 10 then l + 1 else l" and ?w = "if \<not> blank b \<and> \<not> inw then w + 1 else w"
  have "wc_scan (b # bs) (l, w, c, inw) = wc_scan bs (?l, ?w, c + 1, \<not> blank b)"
    using e by (auto simp: Let_def)
  then show ?case using Cons.IH [of ?l ?w "c + 1" "\<not> blank b"] by (auto simp: algebra_simps blank_def)
qed simp

lemma cat_runs:
  assumes "pieces_ok cs" "length cs < k"
  shows "runU stream (cat k fd) (cs, out) = (Returned (), [], out @ map (\<lambda>c. (1, c)) cs)"
  using assms
proof (induction cs arbitrary: k out)
  case Nil
  then show ?case by (cases k) simp_all
next
  case (Cons c cs)
  then obtain j where "k = Suc j" by (cases k) simp_all
  then show ?case using Cons.IH [of j "out @ [(1, c)]"] Cons.prems by (simp add: pieces_ok_def do_call_def)
qed

text \<open>
  C40: However the input is split into pieces, \<open>wc\<close> ends and prints the number of newlines, of words (the maximal runs of
  bytes that are not blank, counted where they start) and of bytes of the whole input, modulo the word size.
\<close>

theorem wc_counts_input:
  assumes "pieces_ok cs" "length cs < k"
  shows "runU stream (wc k fd nm) (cs, out) =
    runU stream (printf 1 (str ''%d %d %d %s'' @ [10])
      [Word_arg (of_nat (count_list (concat cs) 10)), Word_arg (of_nat (word_starts False (concat cs))),
       Word_arg (of_nat (length (concat cs))), Str_arg (Some nm)]) ([], out)"
proof -
  obtain i where "wc_scan (concat cs) (0, 0, 0, False) =
      (of_nat (count_list (concat cs) 10), of_nat (word_starts False (concat cs)), of_nat (length (concat cs)), i)"
    using wc_scan_counts [of "concat cs" 0 0 0 False] by auto
  then show ?thesis using wc_loop_runs [OF assms, of fd nm "(0, 0, 0, False)" out] by (simp add: wc_def)
qed

theorem wc_counts_input_witness:
  "runU stream (wc 3 0 [120]) ([[97, 98], [99, 32, 100, 10]], []) =
    runU stream (printf 1 (str ''%d %d %d %s'' @ [10]) [Word_arg 1, Word_arg 2, Word_arg 6, Str_arg (Some [120])]) ([], [])"
  using wc_counts_input [of "[[97, 98], [99, 32, 100, 10]]" 3 0 "[120]" "[]"]
  by (simp add: pieces_ok_def blank_def)

end
