(* ===== verification/Proc_Spec.thy ===== *)
theory Proc_Spec
  imports Process Vm_Map
begin

text \<open>
  The process table: every process that is woken up runs in the next pass of the scheduler, and the allocation of an entry
  writes to the entry behind it.
\<close>

section \<open>A pass of the scheduler\<close>

text \<open>
  The loop of \<open>scheduler\<close> over the table from entry \<open>k\<close> on. What a chosen process does until it switches back is the
  relation \<open>run\<close>; the list has the processes that were chosen.
\<close>

inductive pass :: "(nat \<Rightarrow> 'a vmst_scheme \<Rightarrow> 'a vmst_scheme \<Rightarrow> bool) \<Rightarrow> nat \<Rightarrow> 'a vmst_scheme \<Rightarrow> nat list \<Rightarrow> 'a vmst_scheme \<Rightarrow> bool"
  for run where
  pass_end: "scheduler_pick k s = Ret None t \<Longrightarrow> pass run k s [] t"
| pass_step: "scheduler_pick k s = Ret (Some p) t \<Longrightarrow> run p t u \<Longrightarrow> pass run (Suc p) (scheduler_back u) ps v \<Longrightarrow> pass run k s (p # ps) v"

inductive_cases pass_elims: "pass run k s ps v"

definition runnable :: "'a vmst_scheme \<Rightarrow> nat \<Rightarrow> bool" where
  "runnable s j \<longleftrightarrow> j < length (ptable s) \<and> state (ptable s ! j) = RUNNABLE"

text \<open>
  What a process does to the table while it runs: it returns with the lock of the table, it does not change the
  length of the table, only the scheduler takes a process out of the state \<open>RUNNABLE\<close>, and runnable processes have an address space.
\<close>

definition table_ok :: "'a vmst_scheme \<Rightarrow> bool" where
  "table_ok s \<longleftrightarrow> held s = [L_ptable] \<and> (\<forall>j. runnable s j \<longrightarrow> pgdir (ptable s ! j) \<noteq> 0)"

definition runs_fair :: "(nat \<Rightarrow> 'a vmst_scheme \<Rightarrow> 'a vmst_scheme \<Rightarrow> bool) \<Rightarrow> bool" where
  "runs_fair run \<longleftrightarrow> (\<forall>p t. table_ok t \<longrightarrow> (\<exists>u. run p t u)) \<and>
     (\<forall>p t u. table_ok t \<longrightarrow> run p t u \<longrightarrow> table_ok u \<and> length (ptable u) = length (ptable t)
        \<and> (\<forall>j. j \<noteq> p \<longrightarrow> runnable t j \<longrightarrow> runnable u j))"

lemma runs_fairD:
  assumes "runs_fair run" "table_ok t"
  shows "\<exists>u. run p t u"
    and "run p t u \<Longrightarrow> table_ok u \<and> length (ptable u) = length (ptable t) \<and> (\<forall>j. j \<noteq> p \<longrightarrow> runnable t j \<longrightarrow> runnable u j)"
  using assms unfolding runs_fair_def by blast+

lemma scheduler_back_simps [simp]:
  "ptable (scheduler_back s) = ptable s" "held (scheduler_back s) = held s"
  by (simp_all add: scheduler_back_def switchkvm_def lcr3_def)

lemma table_ok_back [simp]: "table_ok (scheduler_back s) = table_ok s" "runnable (scheduler_back s) = runnable s"
  by (simp_all add: table_ok_def runnable_def fun_eq_iff)

text \<open>The choice is the first runnable process from \<open>k\<close> on.\<close>

lemma scheduler_pick_first:
  assumes "table_ok s"
  shows "case find_index (\<lambda>p. state p = RUNNABLE) (drop k (ptable s)) of
     None \<Rightarrow> scheduler_pick k s = Ret None (s\<lparr>held := []\<rparr>) \<and> (\<forall>j\<ge>k. \<not> runnable s j)
   | Some i \<Rightarrow> \<exists>t. scheduler_pick k s = Ret (Some (k + i)) t \<and> table_ok t \<and> length (ptable t) = length (ptable s)
       \<and> runnable s (k + i) \<and> (\<forall>j. k \<le> j \<and> j < k + i \<longrightarrow> \<not> runnable s j)
       \<and> (\<forall>j. j \<noteq> k + i \<longrightarrow> runnable t j = runnable s j)"
proof (cases "find_index (\<lambda>p. state p = RUNNABLE) (drop k (ptable s))")
  case None
  have "\<not> runnable s j" if "j \<ge> k" for j
  proof
    assume r: "runnable s j"
    then have "ptable s ! j = drop k (ptable s) ! (j - k)" "j - k < length (drop k (ptable s))"
      using that by (auto simp: runnable_def)
    then have "ptable s ! j \<in> set (drop k (ptable s))" using nth_mem by metis
    then show False using None r by (auto simp: find_index_None runnable_def)
  qed
  moreover have "scheduler_pick k s = Ret None (s\<lparr>held := []\<rparr>)"
    using assms None by (simp add: scheduler_pick_def table_ok_def release_def)
  ultimately show ?thesis using None by simp
next
  case (Some i)
  note f = find_index_Some [OF Some]
  have r: "runnable s (k + i)" using f(1,2) by (simp add: runnable_def)
  have before: "\<not> runnable s j" if "k \<le> j \<and> j < k + i" for j
  proof -
    have "j - k < i" "k + (j - k) = j" using that by linarith+
    then show ?thesis using f(3) [of "j - k"] f(1) by (auto simp: runnable_def)
  qed
  let ?t = "upd_proc (k + i) (\<lambda>x. x\<lparr>state := RUNNING\<rparr>) (lcr3 (v2p (pgdir (ptable s ! (k + i))))
     (s\<lparr>cur := Some (k + i), gdt := (gdt s)(SEG_TSS := (SEG16 STS_T32A (ts_sym s) 103 0)\<lparr>seg_s := 0\<rparr>), ts_ss0 := 0x10,
        ts_esp0 := kstack (ptable s ! (k + i)) + KSTACKSIZE\<rparr>))"
  have e: "scheduler_pick k s = Ret (Some (k + i)) ?t"
    using assms r Some by (simp add: scheduler_pick_def switchuvm_def with_cur_def table_ok_def Let_def)
  have pt: "ptable ?t = (ptable s)[k + i := (ptable s ! (k + i))\<lparr>state := RUNNING\<rparr>]" "held ?t = held s"
    by (simp_all add: upd_proc_def lcr3_def)
  have rt: "runnable ?t j = (j \<noteq> k + i \<and> runnable s j)" for j
    using r by (auto simp: runnable_def pt(1) nth_list_update)
  have "table_ok ?t" using assms rt by (auto simp: table_ok_def pt nth_list_update)
  then show ?thesis using Some e r before rt pt(1) by (auto intro!: exI [of _ ?t])
qed

text \<open>A pass ends after at most one choice for each entry, and chooses all that can run.\<close>

lemma pass_exists:
  assumes "runs_fair run" "table_ok s"
  shows "\<exists>ps v. pass run k s ps v"
  using assms(2)
proof (induction "length (ptable s) - k" arbitrary: k s rule: less_induct)
  case less
  show ?case
  proof (cases "find_index (\<lambda>p. state p = RUNNABLE) (drop k (ptable s))")
    case None
    then show ?thesis using scheduler_pick_first [OF less.prems, of k] pass_end by fastforce
  next
    case (Some i)
    then obtain t where t: "scheduler_pick k s = Ret (Some (k + i)) t" "table_ok t" "length (ptable t) = length (ptable s)" "runnable s (k + i)"
      using scheduler_pick_first [OF less.prems, of k] by auto
    obtain u where u: "run (k + i) t u" using runs_fairD(1) [OF assms(1) t(2)] by blast
    note v = runs_fairD(2) [OF assms(1) t(2) u]
    have "length (ptable u) - Suc (k + i) < length (ptable s) - k" using v t(3,4) by (auto simp: runnable_def)
    then obtain ps v where "pass run (Suc (k + i)) (scheduler_back u) ps v"
      using less.hyps [of "scheduler_back u" "Suc (k + i)"] v by auto
    then show ?thesis using pass_step [where run = run, OF t(1) u] by blast
  qed
qed

lemma pass_chooses:
  assumes "pass run k s ps v" "runs_fair run" "table_ok s"
  shows "length ps \<le> length (ptable s) - k \<and> (\<forall>j\<ge>k. runnable s j \<longrightarrow> j \<in> set ps)"
  using assms(1,3)
proof (induction rule: pass.induct)
  case (pass_end k s t)
  then show ?case using scheduler_pick_first [OF pass_end(2), of k] by (auto split: option.splits)
next
  case (pass_step k s p t u ps v)
  note f = scheduler_pick_first [OF pass_step.prems, of k]
  obtain i where i: "find_index (\<lambda>p. state p = RUNNABLE) (drop k (ptable s)) = Some i"
    using f pass_step.hyps(1) by (auto split: option.splits)
  then have t: "p = k + i" "table_ok t" "length (ptable t) = length (ptable s)" "runnable s p"
      "\<forall>j. k \<le> j \<and> j < p \<longrightarrow> \<not> runnable s j" "\<forall>j. j \<noteq> p \<longrightarrow> runnable t j = runnable s j"
    using f pass_step.hyps(1) by auto
  have u: "table_ok u" "length (ptable u) = length (ptable t)" "\<forall>j. j \<noteq> p \<longrightarrow> runnable t j \<longrightarrow> runnable u j"
    using runs_fairD(2) [OF assms(2) t(2) pass_step.hyps(2)] by blast+
  have IH: "length ps \<le> length (ptable u) - Suc p" "\<And>j. Suc p \<le> j \<Longrightarrow> runnable u j \<Longrightarrow> j \<in> set ps"
    using pass_step.IH u(1) by simp_all
  have "j \<in> set (p # ps)" if "k \<le> j" "runnable s j" for j
  proof (cases j p rule: linorder_cases)
    case less
    then show ?thesis using t(5) that by blast
  next
    case greater
    then show ?thesis using IH(2) [of j] t(6) u(3) that by auto
  qed simp
  moreover have "length (p # ps) \<le> length (ptable s) - k" using IH(1) t(1,3,4) u(2) by (auto simp: runnable_def)
  ultimately show ?case by blast
qed


text \<open>Processes that exit as soon as they run.\<close>

definition exits :: "nat \<Rightarrow> 'a vmst_scheme \<Rightarrow> 'a vmst_scheme \<Rightarrow> bool" where
  "exits p t u \<longleftrightarrow> u = upd_proc p (\<lambda>x. x\<lparr>state := ZOMBIE\<rparr>) t"

lemma nth_update_any: "xs[p := y] ! j = (if p = j \<and> p < length xs then y else xs ! j)"
  by (cases "p < length xs") (auto simp: list_update_beyond)

lemma exits_fair: "runs_fair exits"
  by (auto simp: runs_fair_def exits_def table_ok_def runnable_def upd_proc_def nth_update_any split: if_splits)


section \<open>Allocating an entry\<close>

text \<open>
  C22: \<open>allocproc\<close> initialises \<open>handlers[SIGSEGV]\<close> of the entry it takes, but the array has two elements: the store goes to the first
  open file of the next entry of the table, whichever process it belongs to.
\<close>

theorem allocproc_clobbers_next:
  assumes "held s = []" "free_pages s (x # xs)"
    and "find_index (\<lambda>p. state p = UNUSED) (ptable s) = Some i" "Suc i < length (ptable s)" "ofile (ptable s ! Suc i) \<noteq> []"
  shows "\<exists>t. allocproc s = Ret (Some i) t \<and> state (ptable t ! i) = EMBRYO
    \<and> ofile (ptable t ! Suc i) = (ofile (ptable s ! Suc i))[0 := W 0xFFFFFFFF]"
proof -
  have i: "i < length (ptable s)" using assms(4) by simp
  let ?u = "s\<lparr>ptable := (ptable s)[i := (ptable s ! i)\<lparr>state := EMBRYO, pid := nextpid s\<rparr>], nextpid := nextpid s + 1, held := []\<rparr>"
  have "kmem_ok ?u" "free_pages ?u (x # xs)"
    using free_pages_cong [OF assms(2), of ?u] by (simp_all add: kmem_ok_def)
  note k = kalloc_some(1) [OF this]
  have "x \<noteq> 0" using assms(2) kpage_nonzero [of s x] by (simp add: free_pages_def)
  show ?thesis
    using assms(1,3,4) i k \<open>x \<noteq> 0\<close>
    by (simp add: allocproc_def upd_proc_def set_handler_def Let_def del: bindR_eq_Ret)
qed

theorem allocproc_clobbers_next_witness:
  "\<exists>t. allocproc (demo\<lparr>ptable := [demo_proc\<lparr>state := UNUSED\<rparr>, demo_proc\<lparr>ofile := replicate 16 (FileP 0)\<rparr>]\<rparr>) = Ret (Some 0) t
     \<and> ofile (ptable t ! 1) ! 0 = W 0xFFFFFFFF"
proof -
  let ?s = "demo\<lparr>ptable := [demo_proc\<lparr>state := UNUSED\<rparr>, demo_proc\<lparr>ofile := replicate 16 (FileP 0)\<rparr>]\<rparr>"
  obtain x xs where x: "demo_pages = x # xs" by (simp add: demo_pages_def)
  have "free_pages ?s (x # xs)" using free_pages_cong [OF demo_free, of ?s] by (simp add: x)
  then show ?thesis using allocproc_clobbers_next [of ?s x xs 0] by (auto simp: demo_def)
qed

end
