(* ===== verification/Mkfs.thy ===== *)
theory Mkfs
  imports Fs
begin

text \<open>
  \<open>mkfs.c\<close>, the program that builds the file system image on the host. The image is a map from sectors to
  their contents; its reads and writes do not fail. The files to copy are given by their names and by what the
  successive reads of them return, or by the fact that they cannot be opened.
\<close>

record mkst =
  img :: "u32 \<Rightarrow> u8 list"
  freeblock :: u32
  usedblocks :: u32
  freeinode :: u32

text \<open>The sizes of the file system: 1024 blocks, 965 of them for data, 200 inodes and a log of 30 blocks.\<close>

abbreviation (input) mk_size :: u32 where "mk_size \<equiv> 1024"
abbreviation (input) mk_nblocks :: u32 where "mk_nblocks \<equiv> 965"
abbreviation (input) mk_nlog :: u32 where "mk_nlog \<equiv> 30"
abbreviation (input) mk_ninodes :: u32 where "mk_ninodes \<equiv> 200"

text \<open>Intel byte order: the value of the four bytes that \<open>xint\<close> stores.\<close>

definition xshort :: "u16 \<Rightarrow> u16" where
  "xshort x = get16 [ucast x, ucast (drop_bit 8 x)] 0"

definition xint :: "u32 \<Rightarrow> u32" where
  "xint x = get32 [ucast x, ucast (drop_bit 8 x), ucast (drop_bit 16 x), ucast (drop_bit 24 x)] 0"

definition wsect :: "u32 \<Rightarrow> u8 list \<Rightarrow> mkst \<Rightarrow> mkst" where
  "wsect sec buf s = s\<lparr>img := (img s)(sec := buf)\<rparr>"

definition rsect :: "u32 \<Rightarrow> mkst \<Rightarrow> u8 list" where
  "rsect sec s = img s sec"

definition i2b :: "u32 \<Rightarrow> u32" where
  "i2b inum = inum div 8 + 2"

definition winode :: "u32 \<Rightarrow> dinode \<Rightarrow> mkst \<Rightarrow> mkst" where
  "winode inum ip s =
     (let bn = i2b inum;
          buf = rsect bn s in
      wsect bn (put_dinode buf (64 * unat (inum mod 8)) ip) s)"

definition rinode :: "u32 \<Rightarrow> mkst \<Rightarrow> dinode" where
  "rinode inum s = get_dinode (rsect (i2b inum) s) (64 * unat (inum mod 8))"

definition mk_ialloc :: "u16 \<Rightarrow> mkst \<Rightarrow> u32 \<times> mkst" where
  "mk_ialloc type s =
     (let inum = freeinode s;
          s = s\<lparr>freeinode := inum + 1\<rparr>;
          din = \<lparr>di_type = xshort type, di_major = 0, di_minor = 0, di_nlink = xshort 1, di_size = xint 0,
                 di_addrs = replicate 13 0\<rparr> in
      (inum, winode inum din s))"

section \<open>The bitmap\<close>

primrec mk_bits :: "nat \<Rightarrow> u8 list \<Rightarrow> u8 list" where
  "mk_bits 0 buf = buf"
| "mk_bits (Suc i) buf =
     (let buf = mk_bits i buf in
      buf[i div 8 := buf ! (i div 8) OR push_bit (i mod 8) 1])"

definition mk_balloc :: "int \<Rightarrow> mkst \<Rightarrow> (mkst, unit) res" where
  "mk_balloc used s =
     (if \<not> used < 512 * 8 then Panic ''used < 512*8''
      else Ret () (wsect (mk_ninodes div 8 + 3) (mk_bits (nat used) (replicate 512 0)) s))"

section \<open>Files\<close>

text \<open>A new block of the image.\<close>

definition new_block :: "mkst \<Rightarrow> u32 \<times> mkst" where
  "new_block s = (freeblock s, s\<lparr>freeblock := freeblock s + 1, usedblocks := usedblocks s + 1\<rparr>)"

text \<open>The block \<open>fbn\<close> of a file, allocated if it is missing; the inode is in memory.\<close>

definition file_block :: "nat \<Rightarrow> dinode \<Rightarrow> mkst \<Rightarrow> u32 \<times> dinode \<times> mkst" where
  "file_block fbn din s =
     (if fbn < NDIRECT then
        let (din, s) =
              (if xint (di_addrs din ! fbn) = 0 then
                 let (b, s) = new_block s in (din\<lparr>di_addrs := (di_addrs din)[fbn := xint b]\<rparr>, s)
               else (din, s)) in
        (xint (di_addrs din ! fbn), din, s)
      else
        let (din, s) =
              (if xint (di_addrs din ! NDIRECT) = 0 then
                 let (b, s) = new_block s in (din\<lparr>di_addrs := (di_addrs din)[NDIRECT := xint b]\<rparr>, s)
               else (din, s));
            indirect = rsect (xint (di_addrs din ! NDIRECT)) s;
            (indirect, s) =
              (if get32 indirect (4 * (fbn - NDIRECT)) = 0 then
                 let (b, s) = new_block s;
                     indirect = put32 indirect (4 * (fbn - NDIRECT)) (xint b) in
                 (indirect, wsect (xint (di_addrs din ! NDIRECT)) indirect s)
               else (indirect, s)) in
        (xint (get32 indirect (4 * (fbn - NDIRECT))), din, s))"

primrec iappend_loop :: "nat \<Rightarrow> u8 list \<Rightarrow> u32 \<Rightarrow> dinode \<Rightarrow> mkst \<Rightarrow> (mkst, u32 \<times> dinode) res" where
  "iappend_loop 0 p off din s = NoFuel"
| "iappend_loop (Suc k) p off din s =
     (if p = [] then Ret (off, din) s
      else
        let fbn = off div 512 in
        if \<not> fbn < of_nat MAXFILE then Panic ''fbn < MAXFILE''
        else
          let (x, din, s) = file_block (unat fbn) din s;
              n1 = min (length p) (unat ((fbn + 1) * 512 - off));
              buf = put_bytes (rsect x s) (unat (off - fbn * 512)) (take n1 p);
              s = wsect x buf s in
          iappend_loop k (drop n1 p) (off + of_nat n1) din s)"

definition iappend :: "u32 \<Rightarrow> u8 list \<Rightarrow> mkst \<Rightarrow> (mkst, unit) res" where
  "iappend inum p s =
     (let din = rinode inum s;
          off = xint (di_size din) in
      bindR (iappend_loop (Suc (length p)) p off din s) (\<lambda>(off, din) s.
      Ret () (winode inum (din\<lparr>di_size := xint off\<rparr>) s)))"

primrec iappends :: "u32 \<Rightarrow> u8 list list \<Rightarrow> mkst \<Rightarrow> (mkst, unit) res" where
  "iappends inum [] s = Ret () s"
| "iappends inum (c # cs) s = bindR (iappend inum c s) (\<lambda>_ s. iappends inum cs s)"

text \<open>One file of the command line: its name without a leading underscore.\<close>

definition add_file :: "u32 \<Rightarrow> u8 list \<times> u8 list list option \<Rightarrow> mkst \<Rightarrow> (mkst, unit) res" where
  "add_file rootino f s =
     (case f of (nm, data) \<Rightarrow>
      if 47 \<in> set nm then Panic ''index(argv[i], '/') == 0''
      else
        case data of
          None \<Rightarrow> Panic ''open''
        | Some chunks \<Rightarrow>
            let nm = (if nm \<noteq> [] \<and> hd nm = 95 then tl nm else nm);
                (inum, s) = mk_ialloc T_FILE s;
                de = \<lparr>d_inum = xshort (ucast inum), d_name = strncpy (arr nm) 14\<rparr> in
            bindR (iappend rootino (bytes_of_dirent de) s) (\<lambda>_ s.
            iappends inum chunks s))"

primrec add_files :: "u32 \<Rightarrow> (u8 list \<times> u8 list list option) list \<Rightarrow> mkst \<Rightarrow> (mkst, unit) res" where
  "add_files rootino [] s = Ret () s"
| "add_files rootino (f # fs) s = bindR (add_file rootino f s) (\<lambda>_ s. add_files rootino fs s)"

section \<open>The main function\<close>

primrec zero_sectors :: "nat \<Rightarrow> mkst \<Rightarrow> mkst" where
  "zero_sectors 0 s = s"
| "zero_sectors (Suc i) s = wsect (of_nat i) (replicate 512 0) (zero_sectors i s)"

definition mk_start :: "mkst \<Rightarrow> mkst" where
  "mk_start s =
     (let bitblocks = mk_size div (512 * 8) + 1;
          used = mk_ninodes div 8 + 3 + bitblocks;
          s = s\<lparr>usedblocks := used, freeblock := used, freeinode := 1\<rparr>;
          s = zero_sectors (unat (mk_nblocks + used + mk_nlog)) s;
          sb = bytes_of32 (xint mk_size) @ bytes_of32 (xint mk_nblocks) @ bytes_of32 (xint mk_ninodes) @ bytes_of32 (xint mk_nlog) in
      wsect 1 (put_bytes (replicate 512 0) 0 sb) s)"

definition mkfs :: "(u8 list \<times> u8 list list option) list \<Rightarrow> mkst \<Rightarrow> (mkst, unit) res" where
  "mkfs fs s =
     (let s = mk_start s in
      if mk_nblocks + usedblocks s + mk_nlog \<noteq> mk_size then Panic ''nblocks + usedblocks + nlog == size''
      else
        let (rootino, s) = mk_ialloc T_DIR s in
        if rootino \<noteq> ROOTINO then Panic ''rootino == ROOTINO''
        else
          bindR (iappend rootino (bytes_of_dirent \<lparr>d_inum = xshort (ucast rootino), d_name = 46 # replicate 13 0\<rparr>) s) (\<lambda>_ s.
          bindR (iappend rootino (bytes_of_dirent \<lparr>d_inum = xshort (ucast rootino), d_name = 46 # 46 # replicate 12 0\<rparr>) s) (\<lambda>_ s.
          bindR (add_files rootino fs s) (\<lambda>_ s.
          let din = rinode rootino s;
              off = (xint (di_size din) div 512 + 1) * 512;
              s = winode rootino (din\<lparr>di_size := xint off\<rparr>) s in
          mk_balloc (sint (usedblocks s)) s))))"

end
