(* ===== verification/Mkfs_Spec.thy ===== *)
theory Mkfs_Spec
  imports Mkfs Inode_Spec Block_Spec
begin

text \<open>What \<open>mkfs\<close> leaves in the bitmap, read as the kernel reads it.\<close>

section \<open>Byte order\<close>

lemma xint_id [simp]: "xint x = x"
  using bytes32 [of x] by (simp add: xint_def get32_def get8_def)

lemma xshort_id [simp]: "xshort x = x"
  using get16_bytes [of x] by (simp add: xshort_def get16_def get8_def)

section \<open>The bitmap\<close>

lemma mk_bits_marks:
  assumes "n \<le> 4096"
  shows "length (mk_bits n (replicate 512 0)) = 512 \<and> (\<forall>m. bit_of (mk_bits n (replicate 512 0)) m \<longleftrightarrow> m < n)"
  using assms
proof (induction n)
  case 0
  then show ?case by (simp add: bit_of_def get8_def)
next
  case (Suc n)
  let ?d = "mk_bits n (replicate 512 0)"
  have d: "length ?d = 512" "n div 8 < 512" using Suc by auto
  then have "mk_bits (Suc n) (replicate 512 0) = ?d[n div 8 := get8 ?d (n div 8) OR bit_mask n]"
    by (simp add: Let_def get8_def bit_mask_def)
  then show ?case using Suc bit_of_set [of n ?d] d by (auto simp: less_Suc_eq)
qed

section \<open>The counts of blocks\<close>

text \<open>Every operation allocates from both counters.\<close>

definition counts :: "mkst \<Rightarrow> bool" where
  "counts s \<longleftrightarrow> usedblocks s = freeblock s"

lemma counts_simps [simp]:
  "counts (wsect b d s) = counts s" "counts (winode i di s) = counts s" "counts (snd (new_block s)) = counts s"
  by (auto simp: counts_def wsect_def winode_def Let_def new_block_def)

lemma counts_ialloc: "mk_ialloc ty s = (i, t) \<Longrightarrow> counts t = counts s"
  by (auto simp: mk_ialloc_def Let_def) (simp_all add: counts_def)

lemma counts_file_block: "file_block fbn din s = (x, d, t) \<Longrightarrow> counts t = counts s"
  by (auto simp: file_block_def Let_def new_block_def counts_def wsect_def split: if_splits prod.splits)

lemma counts_iappend_loop: "iappend_loop k p off din s = Ret r t \<Longrightarrow> counts t = counts s"
proof (induction k arbitrary: p off din s)
  case (Suc k)
  obtain x d u where f: "file_block (unat (off div 512)) din s = (x, d, u)" by (metis prod.exhaust)
  show ?case
  proof (cases "p = []")
    case False
    have m: "off div 512 < 140" using Suc.prems False by (auto simp: Let_def split: if_splits)
    then have "\<exists>k' q o' w. iappend_loop k q o' d (wsect x w u) = Ret r t"
      using Suc.prems False f by (auto simp: Let_def)
    then show ?thesis using Suc.IH counts_file_block [OF f] by fastforce
  qed (use Suc.prems in simp)
qed simp

lemma counts_iappend: "iappend i p s = Ret r t \<Longrightarrow> counts t = counts s"
  by (auto simp: iappend_def Let_def simp del: iappend_loop.simps dest: counts_iappend_loop)

lemma counts_iappends: "iappends i cs s = Ret r t \<Longrightarrow> counts t = counts s"
  by (induction cs arbitrary: s) (auto dest: counts_iappend)

lemma counts_add_files: "add_files i fs s = Ret r t \<Longrightarrow> counts t = counts s"
proof (induction fs arbitrary: s)
  case (Cons f fs)
  then obtain u where u: "add_file i f s = Ret () u" "add_files i fs u = Ret r t" by auto
  have "counts u = counts s" using u(1) counts_iappend counts_iappends counts_ialloc
    by (auto simp: add_file_def Let_def split: prod.splits if_splits option.splits)
  then show ?case using Cons.IH [OF u(2)] by simp
qed simp

lemma mk_balloc_bits:
  assumes "mk_balloc u s = Ret () t"
  shows "u < 4096" "img t 28 = mk_bits (nat u) (replicate 512 0)" "usedblocks t = usedblocks s" "freeblock t = freeblock s"
  using assms by (auto simp: mk_balloc_def wsect_def split: if_splits)

lemma BBLOCK_28: "b < 1024 \<Longrightarrow> BBLOCK b 200 = 28"
proof -
  assume "b < 1024"
  then have "unat (b div 4096) = unat (0 :: u32)" by (simp add: unat_div word_less_nat_alt)
  then have "b div 4096 = 0" by (simp only: word_unat_eq_iff)
  then show ?thesis by (simp add: BBLOCK_def)
qed

lemma free_bit_used:
  assumes "\<And>m. bit_of d m \<longleftrightarrow> m < n" "n < 1024"
  shows "free_bit d 0 1024 = Some n"
proof -
  have z: "unat (0 :: u32) mod 4096 = 0" by simp
  have n: "of_nat n < (1024 :: u32)" using assms(2) by (simp add: word_less_nat_alt unat_of_nat_32)
  note f = free_bit_iff [OF z, where d = d and n = 1024]
  show ?thesis
  proof (cases "free_bit d 0 1024")
    case None
    then have "bit_of d n" using f assms(2) n by simp
    then show ?thesis using assms(1) [of n] by simp
  next
    case (Some bi)
    then have "\<not> bi < n" "\<forall>bj<bi. bj < n" using f assms(1) by simp_all
    then show ?thesis using Some by (metis linorder_neqE_nat less_irrefl)
  qed
qed

lemma mkfs_end:
  assumes "mkfs fs s = Ret () t"
  obtains u where "counts u" "mk_balloc (sint (usedblocks u)) u = Ret () t"
proof -
  have c: "counts (mk_start s)"
  proof -
    have "counts (zero_sectors n s) = counts s" for n s by (induction n) simp_all
    then show ?thesis by (simp add: mk_start_def Let_def) (simp add: counts_def)
  qed
  obtain i w where i: "mk_ialloc T_DIR (mk_start s) = (i, w)" by fastforce
  then have "counts w" using counts_ialloc c by simp
  then show ?thesis
    using assms i that counts_iappend counts_add_files
    by (auto simp: mkfs_def Let_def split: if_splits) (metis counts_simps(2))
qed


section \<open>An empty file system\<close>

lemma zero_sectors_img:
  "img (zero_sectors n s) b = (if unat b < n then replicate 512 0 else img s b)" if "n \<le> 4294967296"
  using that
proof (induction n)
  case (Suc n)
  have "b = of_nat n \<longleftrightarrow> unat b = n" using Suc.prems by (auto simp: unat_of_nat_32)
  then show ?case using Suc by (auto simp: wsect_def)
qed simp

lemma zero_sectors_fields [simp]:
  "freeblock (zero_sectors n s) = freeblock s" "usedblocks (zero_sectors n s) = usedblocks s" "freeinode (zero_sectors n s) = freeinode s"
  by (induction n) (simp_all add: wsect_def)

lemma length_put_dinode: "length (put_dinode d i di) = length d"
  by (simp add: put_dinode_def length_put_words put16_def put32_def)

text \<open>Appending to the first block of the root directory.\<close>

lemma iappend_root:
  assumes "img s 2 = put_dinode e 64 di" "length e = 512" "length (di_addrs di) = 13" "length p = 16" "di_size di \<in> {0, 16}"
  defines "x \<equiv> if di_addrs di ! 0 = 0 then freeblock s else di_addrs di ! 0"
  assumes "x \<noteq> 2"
  shows "\<exists>t. iappend 1 p s = Ret () t \<and> freeblock t = (if di_addrs di ! 0 = 0 then freeblock s + 1 else freeblock s)
    \<and> usedblocks t = (if di_addrs di ! 0 = 0 then usedblocks s + 1 else usedblocks s)
    \<and> img t 2 = put_dinode (img s 2) 64 (di\<lparr>di_addrs := (di_addrs di)[0 := x], di_size := di_size di + 16\<rparr>)"
proof -
  have r: "rinode 1 s = di" using assms(1-3) dinode_same [of 64 e di] by (simp add: rinode_def rsect_def i2b_def)
  let ?d = "di\<lparr>di_addrs := (di_addrs di)[0 := x]\<rparr>"
  let ?s = "if di_addrs di ! 0 = 0 then snd (new_block s) else s"
  have f: "file_block 0 di s = (x, ?d, ?s)"
    using assms(3) by (auto simp: file_block_def Let_def new_block_def x_def list_update_id)
  obtain c cs where p: "p = c # cs" using assms(4) by (cases p) simp_all
  obtain k where k: "length p = Suc k" using p by simp
  have o: "di_size di div 512 = 0" "unat ((0 + 1) * 512 - di_size di) \<ge> 16" using assms(5) by auto
  let ?b = "put_bytes (rsect x ?s) (unat (di_size di)) p"
  have ne: "p \<noteq> []" using p by simp
  have "iappend_loop (Suc (Suc k)) p (di_size di) di s = Ret (di_size di + 16, ?d) (wsect x ?b ?s)"
    using f o assms(4) ne by (simp add: Let_def)
  then have "iappend_loop (Suc (length p)) p (di_size di) di s = Ret (di_size di + 16, ?d) (wsect x ?b ?s)" by (simp only: k)
  then have "iappend 1 p s = Ret () (winode 1 (?d\<lparr>di_size := di_size di + 16\<rparr>) (wsect x ?b ?s))"
    by (simp add: iappend_def r Let_def del: iappend_loop.simps)
  then show ?thesis using assms(7) by (simp add: winode_def wsect_def rsect_def i2b_def new_block_def Let_def)
qed


end
