(* ===== verification/Devices.thy ===== *)
theory Devices
  imports Segments Bytes
begin

text \<open>
  The drivers of the interrupt controllers, the timer and the clock (\<open>picirq.c\<close>, \<open>ioapic.c\<close>, \<open>lapic.c\<close>,
  \<open>timer.c\<close>), the initialisation of the serial port and of the interrupt table. A driver is the tree of its accesses to the
  hardware; what the devices answer is a parameter of its execution.
\<close>

section \<open>Accesses to the hardware\<close>

text \<open>Ports are read and written by bytes, or by strings of words; device registers in memory by words.\<close>

datatype 'a hw =
    HRet 'a
  | HIn u16 "u8 \<Rightarrow> 'a hw"
  | HOut u16 u8 "'a hw"
  | HIns u16 nat "u8 list \<Rightarrow> 'a hw"
  | HOuts u16 "u8 list" "'a hw"
  | HRead u32 "u32 \<Rightarrow> 'a hw"
  | HWrite u32 u32 "'a hw"
  | HWrite16 u32 u16 "'a hw"
  | HFuel

primrec bindH :: "'a hw \<Rightarrow> ('a \<Rightarrow> 'b hw) \<Rightarrow> 'b hw" where
  "bindH (HRet x) f = f x"
| "bindH (HIn p k) f = HIn p (\<lambda>v. bindH (k v) f)"
| "bindH (HOut p v k) f = HOut p v (bindH k f)"
| "bindH (HIns p n k) f = HIns p n (\<lambda>v. bindH (k v) f)"
| "bindH (HOuts p v k) f = HOuts p v (bindH k f)"
| "bindH (HRead a k) f = HRead a (\<lambda>v. bindH (k v) f)"
| "bindH (HWrite a v k) f = HWrite a v (bindH k f)"
| "bindH (HWrite16 a v k) f = HWrite16 a v (bindH k f)"
| "bindH HFuel f = HFuel"

definition inb :: "u16 \<Rightarrow> u8 hw" where
  "inb port = HIn port HRet"

definition outb :: "u16 \<Rightarrow> u8 \<Rightarrow> unit hw" where
  "outb port data = HOut port data (HRet ())"

definition insl :: "u16 \<Rightarrow> nat \<Rightarrow> u8 list hw" where
  "insl port cnt = HIns port (4 * cnt) HRet"

definition outsl :: "u16 \<Rightarrow> u8 list \<Rightarrow> unit hw" where
  "outsl port data = HOuts port data (HRet ())"

text \<open>Reading little-endian numbers from memory through a pointer.\<close>

definition mem16 :: "(u32 \<Rightarrow> u8) \<Rightarrow> u32 \<Rightarrow> u16" where
  "mem16 m a = (ucast (m a) OR push_bit 8 (ucast (m (a + 1))))"

definition mem32 :: "(u32 \<Rightarrow> u8) \<Rightarrow> u32 \<Rightarrow> u32" where
  "mem32 m a = (ucast (m a) OR push_bit 8 (ucast (m (a + 1)))
     OR push_bit 16 (ucast (m (a + 2))) OR push_bit 24 (ucast (m (a + 3))))"

text \<open>Many outputs in a row.\<close>

primrec outbs :: "(u16 \<times> u8) list \<Rightarrow> unit hw" where
  "outbs [] = HRet ()"
| "outbs (x # xs) = bindH (outb (fst x) (snd x)) (\<lambda>_. outbs xs)"

text \<open>Running a driver on a device with states of type \<open>'d\<close>.\<close>

record 'd dev =
  d_in :: "u16 \<Rightarrow> 'd \<Rightarrow> u8 \<times> 'd"
  d_out :: "u16 \<Rightarrow> u8 \<Rightarrow> 'd \<Rightarrow> 'd"
  d_ins :: "u16 \<Rightarrow> nat \<Rightarrow> 'd \<Rightarrow> u8 list \<times> 'd"
  d_outs :: "u16 \<Rightarrow> u8 list \<Rightarrow> 'd \<Rightarrow> 'd"
  d_read :: "u32 \<Rightarrow> 'd \<Rightarrow> u32 \<times> 'd"
  d_write :: "u32 \<Rightarrow> u32 \<Rightarrow> 'd \<Rightarrow> 'd"
  d_write16 :: "u32 \<Rightarrow> u16 \<Rightarrow> 'd \<Rightarrow> 'd"

primrec runH :: "'d dev \<Rightarrow> 'a hw \<Rightarrow> 'd \<Rightarrow> ('a \<times> 'd) option" where
  "runH D (HRet x) d = Some (x, d)"
| "runH D (HIn p k) d = runH D (k (fst (d_in D p d))) (snd (d_in D p d))"
| "runH D (HOut p v k) d = runH D k (d_out D p v d)"
| "runH D (HIns p n k) d = runH D (k (fst (d_ins D p n d))) (snd (d_ins D p n d))"
| "runH D (HOuts p v k) d = runH D k (d_outs D p v d)"
| "runH D (HRead a k) d = runH D (k (fst (d_read D a d))) (snd (d_read D a d))"
| "runH D (HWrite a v k) d = runH D k (d_write D a v d)"
| "runH D (HWrite16 a v k) d = runH D k (d_write16 D a v d)"
| "runH D HFuel d = None"

lemma runH_bindH: "runH D (bindH h f) d = (case runH D h d of None \<Rightarrow> None | Some (x, e) \<Rightarrow> runH D (f x) e)"
  by (induction h arbitrary: d) simp_all

lemma runH_ports [simp]:
  "runH D (inb p) d = Some (d_in D p d)" "runH D (outb p v) d = Some ((), d_out D p v d)"
  "runH D (insl p n) d = Some (d_ins D p (4 * n) d)" "runH D (outsl p bs) d = Some ((), d_outs D p bs d)"
  by (simp_all add: inb_def outb_def insl_def outsl_def)

text \<open>Numbers of traps and interrupts.\<close>

abbreviation (input) T_IRQ0 :: nat where "T_IRQ0 \<equiv> 32"
abbreviation (input) IRQ_TIMER :: nat where "IRQ_TIMER \<equiv> 0"
abbreviation (input) IRQ_COM1 :: nat where "IRQ_COM1 \<equiv> 4"
abbreviation (input) IRQ_IDE :: nat where "IRQ_IDE \<equiv> 14"
abbreviation (input) IRQ_ERROR :: nat where "IRQ_ERROR \<equiv> 19"
abbreviation (input) IRQ_SPURIOUS :: nat where "IRQ_SPURIOUS \<equiv> 31"

section \<open>The programmable interrupt controllers\<close>

text \<open>The operations return the new value of \<open>irqmask\<close>, which starts as \<open>irqmask_start\<close>.\<close>

definition irqmask_start :: u16 where
  "irqmask_start = 0xFFFF AND NOT (push_bit 2 1)"

definition picsetmask :: "u16 \<Rightarrow> u16 hw" where
  "picsetmask m =
     bindH (outb 0x21 (ucast m)) (\<lambda>_.
     bindH (outb 0xA1 (ucast (drop_bit 8 m))) (\<lambda>_.
     HRet m))"

definition picenable :: "nat \<Rightarrow> u16 \<Rightarrow> u16 hw" where
  "picenable irq irqmask = picsetmask (irqmask AND NOT (push_bit irq 1))"

definition picinit :: "u16 \<Rightarrow> u16 hw" where
  "picinit irqmask =
     bindH (outbs
       [(0x21, 0xFF), (0xA1, 0xFF),
        (0x20, 0x11), (0x21, of_nat T_IRQ0), (0x21, push_bit 2 1), (0x21, 0x3),
        (0xA0, 0x11), (0xA1, of_nat (T_IRQ0 + 8)), (0xA1, 2), (0xA1, 0x3),
        (0x20, 0x68), (0x20, 0x0a), (0xA0, 0x68), (0xA0, 0x0a)]) (\<lambda>_.
     if irqmask \<noteq> 0xFFFF then picsetmask irqmask else HRet irqmask)"

section \<open>The I/O interrupt controller\<close>

definition ioapicread :: "u32 \<Rightarrow> u32 hw" where
  "ioapicread reg = HWrite 0xFEC00000 reg (HRead 0xFEC00010 HRet)"

definition ioapicwrite :: "u32 \<Rightarrow> u32 \<Rightarrow> unit hw" where
  "ioapicwrite reg data = HWrite 0xFEC00000 reg (HWrite 0xFEC00010 data (HRet ()))"

primrec ioapic_table :: "nat \<Rightarrow> nat \<Rightarrow> unit hw" where
  "ioapic_table 0 i = HRet ()"
| "ioapic_table (Suc k) i =
     bindH (ioapicwrite (of_nat (0x10 + 2 * i)) (0x00010000 OR of_nat (T_IRQ0 + i))) (\<lambda>_.
     bindH (ioapicwrite (of_nat (0x10 + 2 * i + 1)) 0) (\<lambda>_.
     ioapic_table k (Suc i)))"

text \<open>The message about a wrong identification is left out; the result says whether it is printed.\<close>

definition ioapicinit :: "bool \<Rightarrow> u8 \<Rightarrow> bool hw" where
  "ioapicinit ismp ioapicid =
     (if \<not> ismp then HRet False
      else
        bindH (ioapicread 1) (\<lambda>v.
        let maxintr = drop_bit 16 v AND 0xFF in
        bindH (ioapicread 0) (\<lambda>v.
        let msg = (drop_bit 24 v \<noteq> ucast ioapicid) in
        bindH (ioapic_table (Suc (unat maxintr)) 0) (\<lambda>_.
        HRet msg))))"

definition ioapicenable :: "bool \<Rightarrow> nat \<Rightarrow> nat \<Rightarrow> unit hw" where
  "ioapicenable ismp irq cpunum =
     (if \<not> ismp then HRet ()
      else
        bindH (ioapicwrite (of_nat (0x10 + 2 * irq)) (of_nat (T_IRQ0 + irq))) (\<lambda>_.
        ioapicwrite (of_nat (0x10 + 2 * irq + 1)) (push_bit 24 (of_nat cpunum))))"

section \<open>The local interrupt controller\<close>

text \<open>Registers are named by their offset from \<open>lapic\<close>, the address that \<open>mpinit\<close> finds, or 0.\<close>

definition lapicw :: "u32 \<Rightarrow> u32 \<Rightarrow> u32 \<Rightarrow> unit hw" where
  "lapicw lapic reg v = HWrite (lapic + reg) v (HRead (lapic + 0x20) (\<lambda>_. HRet ()))"

primrec lapicws :: "u32 \<Rightarrow> (u32 \<times> u32) list \<Rightarrow> unit hw" where
  "lapicws lapic [] = HRet ()"
| "lapicws lapic (x # xs) = bindH (lapicw lapic (fst x) (snd x)) (\<lambda>_. lapicws lapic xs)"

primrec lapic_delivered :: "nat \<Rightarrow> u32 \<Rightarrow> unit hw" where
  "lapic_delivered 0 lapic = HFuel"
| "lapic_delivered (Suc k) lapic =
     HRead (lapic + 0x300) (\<lambda>v. if v AND 0x1000 \<noteq> 0 then lapic_delivered k lapic else HRet ())"

definition lapicinit :: "nat \<Rightarrow> u32 \<Rightarrow> unit hw" where
  "lapicinit k lapic =
     (if lapic = 0 then HRet ()
      else
        bindH (lapicws lapic
          [(0xF0, 0x100 OR of_nat (T_IRQ0 + IRQ_SPURIOUS)),
           (0x3E0, 0xB), (0x320, 0x20000 OR of_nat (T_IRQ0 + IRQ_TIMER)), (0x380, 10000000),
           (0x350, 0x10000), (0x360, 0x10000)]) (\<lambda>_.
        HRead (lapic + 0x30) (\<lambda>ver.
        bindH (if drop_bit 16 ver AND 0xFF \<ge> 4 then lapicw lapic 0x340 0x10000 else HRet ()) (\<lambda>_.
        bindH (lapicws lapic
          [(0x370, of_nat (T_IRQ0 + IRQ_ERROR)), (0x280, 0), (0x280, 0), (0xB0, 0),
           (0x310, 0), (0x300, 0x80000 OR 0x500 OR 0x8000)]) (\<lambda>_.
        bindH (lapic_delivered k lapic) (\<lambda>_.
        lapicw lapic 0x80 0))))))"

definition cpunum :: "u32 \<Rightarrow> u32 hw" where
  "cpunum lapic = (if lapic \<noteq> 0 then HRead (lapic + 0x20) (\<lambda>v. HRet (drop_bit 24 v)) else HRet 0)"

definition lapiceoi :: "u32 \<Rightarrow> unit hw" where
  "lapiceoi lapic = (if lapic \<noteq> 0 then lapicw lapic 0xB0 0 else HRet ())"

text \<open>The warm reset vector, two half words, is at the physical address \<open>0x40<<4 | 0x67\<close>.\<close>

definition lapicstartap :: "u32 \<Rightarrow> u8 \<Rightarrow> u32 \<Rightarrow> unit hw" where
  "lapicstartap lapic apicid addr =
     bindH (outbs [(0x70, 0xF), (0x71, 0x0A)]) (\<lambda>_.
     HWrite16 (0x80000000 + 0x467) 0 (HWrite16 (0x80000000 + 0x469) (ucast (drop_bit 4 addr)) (
     lapicws lapic
       [(0x310, push_bit 24 (ucast apicid)), (0x300, 0x500 OR 0x8000 OR 0x4000), (0x300, 0x500 OR 0x8000),
        (0x310, push_bit 24 (ucast apicid)), (0x300, 0x600 OR drop_bit 12 addr),
        (0x310, push_bit 24 (ucast apicid)), (0x300, 0x600 OR drop_bit 12 addr)])))"

section \<open>The clock\<close>

record rtcdate =
  second :: u32
  minute :: u32
  hour :: u32
  day :: u32
  month :: u32
  year :: u32

definition cmos_read :: "u8 \<Rightarrow> u32 hw" where
  "cmos_read reg = bindH (outb 0x70 reg) (\<lambda>_. bindH (inb 0x71) (\<lambda>v. HRet (ucast v)))"

definition fill_rtcdate :: "rtcdate hw" where
  "fill_rtcdate =
     bindH (cmos_read 0) (\<lambda>s.
     bindH (cmos_read 2) (\<lambda>m.
     bindH (cmos_read 4) (\<lambda>h.
     bindH (cmos_read 7) (\<lambda>d.
     bindH (cmos_read 8) (\<lambda>mo.
     bindH (cmos_read 9) (\<lambda>y.
     HRet \<lparr>second = s, minute = m, hour = h, day = d, month = mo, year = y\<rparr>))))))"

primrec cmos_loop :: "nat \<Rightarrow> rtcdate hw" where
  "cmos_loop 0 = HFuel"
| "cmos_loop (Suc k) =
     bindH fill_rtcdate (\<lambda>t1.
     bindH (cmos_read 0x0a) (\<lambda>a.
     if a AND 0x80 \<noteq> 0 then cmos_loop k
     else bindH fill_rtcdate (\<lambda>t2. if t1 = t2 then HRet t1 else cmos_loop k)))"

definition bcd_conv :: "u32 \<Rightarrow> u32" where
  "bcd_conv x = drop_bit 4 x * 10 + (x AND 0xf)"

definition cmostime :: "nat \<Rightarrow> rtcdate hw" where
  "cmostime k =
     bindH (cmos_read 0x0b) (\<lambda>sb.
     let bcd = (sb AND push_bit 2 1 = 0) in
     bindH (cmos_loop k) (\<lambda>t1.
     let t1 = (if bcd then
                 \<lparr>second = bcd_conv (second t1), minute = bcd_conv (minute t1), hour = bcd_conv (hour t1),
                  day = bcd_conv (day t1), month = bcd_conv (month t1), year = bcd_conv (year t1)\<rparr>
               else t1) in
     HRet (t1\<lparr>year := year t1 + 2000\<rparr>)))"

section \<open>The interval timer\<close>

definition TIMER_DIV :: "nat \<Rightarrow> nat" where
  "TIMER_DIV x = (1193182 + x div 2) div x"

definition timerinit :: "u16 \<Rightarrow> u16 hw" where
  "timerinit irqmask =
     bindH (outbs [(0x43, 0x00 OR 0x04 OR 0x30), (0x40, of_nat (TIMER_DIV 100 mod 256)), (0x40, of_nat (TIMER_DIV 100 div 256))]) (\<lambda>_.
     picenable IRQ_TIMER irqmask)"

section \<open>The serial port\<close>

text \<open>\<open>uart_putc\<close> is \<open>uartputc\<close> at the level of the ports, once the port has been found.\<close>

primrec uart_wait :: "nat \<Rightarrow> unit hw" where
  "uart_wait 0 = HRet ()"
| "uart_wait (Suc k) = bindH (inb 0x3fd) (\<lambda>v. if v AND 0x20 = 0 then uart_wait k else HRet ())"

definition uart_putc :: "u8 \<Rightarrow> unit hw" where
  "uart_putc c = bindH (uart_wait 128) (\<lambda>_. outb 0x3f8 c)"

primrec uart_puts :: "u8 list \<Rightarrow> unit hw" where
  "uart_puts [] = HRet ()"
| "uart_puts (c # cs) = bindH (uart_putc c) (\<lambda>_. uart_puts cs)"

text \<open>Whether there is a port, and the new interrupt mask.\<close>

definition uartinit :: "bool \<Rightarrow> u16 \<Rightarrow> (bool \<times> u16) hw" where
  "uartinit ismp irqmask =
     bindH (outbs [(0x3fa, 0), (0x3fb, 0x80), (0x3f8, of_nat (115200 div 9600)), (0x3f9, 0), (0x3fb, 0x03), (0x3fc, 0), (0x3f9, 0x01)]) (\<lambda>_.
     bindH (inb 0x3fd) (\<lambda>v.
     if v = 0xFF then HRet (False, irqmask)
     else
       bindH (inb 0x3fa) (\<lambda>_.
       bindH (inb 0x3f8) (\<lambda>_.
       bindH (picenable IRQ_COM1 irqmask) (\<lambda>irqmask.
       bindH (ioapicenable ismp IRQ_COM1 0) (\<lambda>_.
       bindH (uart_puts [120, 118, 54, 46, 46, 46, 10]) (\<lambda>_.
       HRet (True, irqmask))))))))"

section \<open>The interrupt table\<close>

definition tvinit :: "(nat \<Rightarrow> u32) \<Rightarrow> nat \<Rightarrow> gatedesc" where
  "tvinit vectors i =
     (if i = 64 then SETGATE True (push_bit 3 1) (vectors 64) 3 else SETGATE False (push_bit 3 1) (vectors i) 0)"

section \<open>What the drivers do\<close>

text \<open>Packed decimal numbers are converted.\<close>

lemma bcd_conv_packed:
  assumes "a < 10" "b < 10"
  shows "bcd_conv (of_nat (16 * a + b)) = of_nat (10 * a + b)"
proof -
  have "\<forall>a\<in>set [0..<10]. \<forall>b\<in>set [0..<10]. bcd_conv (of_nat (16 * a + b)) = of_nat (10 * a + b)" by code_simp
  then show ?thesis using assms by auto
qed

text \<open>Enabling an interrupt changes no other bit of the mask, and the mask is what the two controllers are told.\<close>

lemma picenable_mask:
  "\<exists>m. picenable irq irqmask = HOut 0x21 (ucast m) (HOut 0xA1 (ucast (drop_bit 8 m)) (HRet m))
     \<and> (\<forall>n<16. bit m n \<longleftrightarrow> bit irqmask n \<and> n \<noteq> irq)"
  by (rule exI [of _ "irqmask AND NOT (push_bit irq 1)"]) (auto simp: picenable_def picsetmask_def outb_def bit_simps)

end
