(* ===== verification/Mp.thy ===== *)
theory Mp
  imports Mmu Devices
begin

text \<open>
  Finding the processors (\<open>mp.c\<close>, \<open>mp.h\<close>): the search for the tables that the firmware leaves in memory, their check
  sums, and the walk through the entries of the configuration table.
\<close>

section \<open>Definitions\<close>

definition sig_at :: "(u32 \<Rightarrow> u8) \<Rightarrow> u32 \<Rightarrow> u8 list \<Rightarrow> bool" where
  "sig_at m p w \<longleftrightarrow> (\<forall>i<length w. m (p + of_nat i) = w ! i)"

primrec sum_loop :: "nat \<Rightarrow> (u32 \<Rightarrow> u8) \<Rightarrow> u32 \<Rightarrow> u32 \<Rightarrow> u32" where
  "sum_loop 0 m a acc = acc"
| "sum_loop (Suc n) m a acc = sum_loop n m (a + 1) (acc + ucast (m a))"

definition mp_sum :: "(u32 \<Rightarrow> u8) \<Rightarrow> u32 \<Rightarrow> nat \<Rightarrow> u8" where
  "mp_sum m addr len = ucast (sum_loop len m addr 0)"

text \<open>The loop makes at most \<open>len\<close> steps of 16 bytes; it stops at the end \<open>e\<close>.\<close>

primrec mpsearch1_loop :: "nat \<Rightarrow> (u32 \<Rightarrow> u8) \<Rightarrow> u32 \<Rightarrow> u32 \<Rightarrow> u32" where
  "mpsearch1_loop 0 m p e = 0"
| "mpsearch1_loop (Suc k) m p e =
     (if \<not> p < e then 0
      else if sig_at m p [95, 77, 80, 95] \<and> mp_sum m p 16 = 0 then p
      else mpsearch1_loop k m (p + 16) e)"

definition mpsearch1 :: "(u32 \<Rightarrow> u8) \<Rightarrow> u32 \<Rightarrow> nat \<Rightarrow> u32" where
  "mpsearch1 m a len = (let addr = p2v a; e = addr + of_nat len in mpsearch1_loop (Suc len) m addr e)"

definition mpsearch :: "(u32 \<Rightarrow> u8) \<Rightarrow> u32" where
  "mpsearch m =
     (let bda = p2v 0x400;
          p = push_bit 4 (push_bit 8 (ucast (m (bda + 0x0F))) OR ucast (m (bda + 0x0E))) in
      if p \<noteq> 0 then
        let mp = mpsearch1 m p 1024 in
        if mp \<noteq> 0 then mp else mpsearch1 m 0xF0000 0x10000
      else
        let p = (push_bit 8 (ucast (m (bda + 0x14))) OR ucast (m (bda + 0x13))) * 1024;
            mp = mpsearch1 m (p - 1024) 1024 in
        if mp \<noteq> 0 then mp else mpsearch1 m 0xF0000 0x10000)"

text \<open>The result is the pair of \<open>*pmp\<close> and \<open>conf\<close>.\<close>

definition mpconfig :: "(u32 \<Rightarrow> u8) \<Rightarrow> (u32 \<times> u32) option" where
  "mpconfig m =
     (let mp = mpsearch m in
      if mp = 0 \<or> mem32 m (mp + 4) = 0 then None
      else
        let conf = p2v (mem32 m (mp + 4)) in
        if \<not> sig_at m conf [80, 67, 77, 80] then None
        else if m (conf + 6) \<noteq> 1 \<and> m (conf + 6) \<noteq> 4 then None
        else if mp_sum m conf (unat (mem16 m (conf + 4))) \<noteq> 0 then None
        else Some (mp, conf))"

text \<open>
  The variables that \<open>mpinit\<close> sets. \<open>bcpu\<close> and the entries of \<open>cpus\<close> are given by their index; \<open>mp_ids\<close> lists the
  assignments \<open>cpus[i].id = v\<close>.
\<close>

record mpst =
  ismp :: bool
  ncpu :: nat
  bcpu :: nat
  ioapicid :: u8
  lapic_at :: u32
  mp_ids :: "(nat \<times> nat) list"

definition mpst_start :: mpst where
  "mpst_start = \<lparr>ismp = False, ncpu = 0, bcpu = 0, ioapicid = 0, lapic_at = 0, mp_ids = []\<rparr>"

text \<open>One turn of the loop: the entry at \<open>p\<close> is processed and \<open>p\<close> moves on, or stays.\<close>

definition mp_entry :: "(u32 \<Rightarrow> u8) \<Rightarrow> u32 \<Rightarrow> mpst \<Rightarrow> u32 \<times> mpst" where
  "mp_entry m p s =
     (if m p = 0 then
        let s = (if ncpu s \<noteq> unat (m (p + 1)) then s\<lparr>ismp := False\<rparr> else s);
            s = (if m (p + 3) AND 2 \<noteq> 0 then s\<lparr>bcpu := ncpu s\<rparr> else s);
            s = s\<lparr>mp_ids := mp_ids s @ [(ncpu s, ncpu s)]\<rparr>;
            s = s\<lparr>ncpu := ncpu s + 1\<rparr> in
        (p + 20, s)
      else if m p = 2 then (p + 8, s\<lparr>ioapicid := m (p + 1)\<rparr>)
      else if m p = 1 \<or> m p = 3 \<or> m p = 4 then (p + 8, s)
      else (p, s\<lparr>ismp := False\<rparr>))"

primrec mp_loop :: "nat \<Rightarrow> (u32 \<Rightarrow> u8) \<Rightarrow> u32 \<Rightarrow> u32 \<Rightarrow> mpst \<Rightarrow> mpst option" where
  "mp_loop 0 m p e s = None"
| "mp_loop (Suc k) m p e s =
     (if p < e then let (p, s) = mp_entry m p s in mp_loop k m p e s else Some s)"

definition mpinit :: "nat \<Rightarrow> (u32 \<Rightarrow> u8) \<Rightarrow> mpst \<Rightarrow> mpst hw" where
  "mpinit k m s =
     (let s = s\<lparr>bcpu := 0\<rparr> in
      case mpconfig m of
        None \<Rightarrow> HRet s
      | Some (mp, conf) \<Rightarrow>
          let s = s\<lparr>ismp := True\<rparr>;
              s = s\<lparr>lapic_at := mem32 m (conf + 36)\<rparr> in
          case mp_loop k m (conf + 44) (conf + ucast (mem16 m (conf + 4))) s of
            None \<Rightarrow> HFuel
          | Some s \<Rightarrow>
              if \<not> ismp s then HRet (s\<lparr>ncpu := 1, lapic_at := 0, ioapicid := 0\<rparr>)
              else if m (mp + 12) \<noteq> 0 then
                bindH (outb 0x22 0x70) (\<lambda>_. bindH (inb 0x23) (\<lambda>v. bindH (outb 0x23 (v OR 1)) (\<lambda>_. HRet s)))
              else HRet s)"

definition mpbcpu :: "mpst \<Rightarrow> nat" where
  "mpbcpu s = bcpu s"

section \<open>Tables\<close>

text \<open>The entries between \<open>p\<close> and \<open>e\<close>, as the specification of the tables describes them.\<close>

datatype mpent = Eproc nat bool | Eioapic u8 | Eother

inductive mptable :: "(u32 \<Rightarrow> u8) \<Rightarrow> u32 \<Rightarrow> u32 \<Rightarrow> mpent list \<Rightarrow> bool" for m e where
  end_of: "\<not> p < e \<Longrightarrow> mptable m e p []"
| processor: "p < e \<Longrightarrow> m p = 0 \<Longrightarrow> mptable m e (p + 20) es
     \<Longrightarrow> mptable m e p (Eproc (unat (m (p + 1))) (m (p + 3) AND 2 \<noteq> 0) # es)"
| ioapic: "p < e \<Longrightarrow> m p = 2 \<Longrightarrow> mptable m e (p + 8) es \<Longrightarrow> mptable m e p (Eioapic (m (p + 1)) # es)"
| other: "p < e \<Longrightarrow> m p \<in> {1, 3, 4} \<Longrightarrow> mptable m e (p + 8) es \<Longrightarrow> mptable m e p (Eother # es)"

text \<open>The entries up to one of an unknown type.\<close>

inductive mpunknown :: "(u32 \<Rightarrow> u8) \<Rightarrow> u32 \<Rightarrow> u32 \<Rightarrow> bool" for m e where
  here: "p < e \<Longrightarrow> m p \<notin> {0, 1, 2, 3, 4} \<Longrightarrow> mpunknown m e p"
| after_processor: "p < e \<Longrightarrow> m p = 0 \<Longrightarrow> mpunknown m e (p + 20) \<Longrightarrow> mpunknown m e p"
| after_other: "p < e \<Longrightarrow> m p \<in> {1, 2, 3, 4} \<Longrightarrow> mpunknown m e (p + 8) \<Longrightarrow> mpunknown m e p"

text \<open>The processors, the place of the last boot processor and the last interrupt controller.\<close>

definition apicids :: "mpent list \<Rightarrow> nat list" where
  "apicids es = concat (map (\<lambda>x. case x of Eproc i b \<Rightarrow> [i] | _ \<Rightarrow> []) es)"

primrec boot_from :: "nat \<Rightarrow> nat \<Rightarrow> mpent list \<Rightarrow> nat" where
  "boot_from i b [] = b"
| "boot_from i b (x # es) = (case x of Eproc a f \<Rightarrow> boot_from (Suc i) (if f then i else b) es | _ \<Rightarrow> boot_from i b es)"

primrec ioapic_from :: "u8 \<Rightarrow> mpent list \<Rightarrow> u8" where
  "ioapic_from a [] = a"
| "ioapic_from a (x # es) = (case x of Eioapic b \<Rightarrow> ioapic_from b es | _ \<Rightarrow> ioapic_from a es)"

lemma apicids_simps [simp]:
  "apicids [] = []" "apicids (Eproc i b # es) = i # apicids es" "apicids (Eioapic a # es) = apicids es"
  "apicids (Eother # es) = apicids es"
  by (simp_all add: apicids_def)

section \<open>What the walk finds\<close>

lemma upt_front: "[n..<Suc (n + k)] = n # [Suc n..<Suc (n + k)]"
  by (rule upt_conv_Cons) simp

lemma mp_loop_table:
  assumes "mptable m e p es" "length es < k"
  shows "mp_loop k m p e s = Some (s\<lparr>
     ismp := ismp s \<and> apicids es = [ncpu s..<ncpu s + length (apicids es)],
     ncpu := ncpu s + length (apicids es),
     bcpu := boot_from (ncpu s) (bcpu s) es,
     ioapicid := ioapic_from (ioapicid s) es,
     mp_ids := mp_ids s @ map (\<lambda>i. (i, i)) [ncpu s..<ncpu s + length (apicids es)]\<rparr>)"
  using assms
proof (induction arbitrary: k s rule: mptable.induct)
  case (end_of p)
  then show ?case by (cases k) auto
next
  case (processor p es)
  then obtain k' where k: "k = Suc k'" "length es < k'" by (cases k) auto
  show ?case
    using processor.hyps by (simp add: k processor.IH [OF k(2)] mp_entry_def Let_def upt_front del: upt_Suc)
next
  case (ioapic p es)
  then obtain k' where k: "k = Suc k'" "length es < k'" by (cases k) auto
  show ?case using ioapic.hyps by (simp add: k ioapic.IH [OF k(2)] mp_entry_def Let_def)
next
  case (other p es)
  then obtain k' where k: "k = Suc k'" "length es < k'" by (cases k) auto
  show ?case using other.hyps by (auto simp: k other.IH [OF k(2)] mp_entry_def Let_def)
qed

lemma mp_loop_unknown:
  assumes "mpunknown m e p"
  shows "mp_loop k m p e s = None"
  using assms
proof (induction arbitrary: k s rule: mpunknown.induct)
  case (here p)
  then have *: "mp_entry m p s = (p, s\<lparr>ismp := False\<rparr>)" for s by (auto simp: mp_entry_def)
  show ?case using here(1) by (induction k arbitrary: s) (simp_all add: *)
next
  case (after_processor p)
  then show ?case by (cases k) (simp_all add: mp_entry_def Let_def)
next
  case (after_other p)
  then show ?case by (cases k) (auto simp: mp_entry_def Let_def)
qed

lemma mpinit_table:
  assumes "mpconfig m = Some (mp, conf)"
    and "mptable m (conf + ucast (mem16 m (conf + 4))) (conf + 44) es" "length es < k"
  shows "mpinit k m mpst_start =
    (if apicids es = [0..<length (apicids es)] then
       let s = \<lparr>ismp = True, ncpu = length (apicids es), bcpu = boot_from 0 0 es, ioapicid = ioapic_from 0 es,
                lapic_at = mem32 m (conf + 36), mp_ids = map (\<lambda>i. (i, i)) [0..<length (apicids es)]\<rparr> in
       if m (mp + 12) \<noteq> 0 then HOut 0x22 0x70 (HIn 0x23 (\<lambda>v. HOut 0x23 (v OR 1) (HRet s))) else HRet s
     else HRet \<lparr>ismp = False, ncpu = 1, bcpu = boot_from 0 0 es, ioapicid = 0,
                lapic_at = 0, mp_ids = map (\<lambda>i. (i, i)) [0..<length (apicids es)]\<rparr>)"
  using assms(1) by (simp add: mpinit_def mpst_start_def mp_loop_table [OF assms(2,3)] outb_def inb_def Let_def)

lemma mpinit_unknown:
  assumes "mpconfig m = Some (mp, conf)"
    and "mpunknown m (conf + ucast (mem16 m (conf + 4))) (conf + 44)"
  shows "mpinit k m s = HFuel"
  using assms(1) by (simp add: mpinit_def mp_loop_unknown [OF assms(2)] Let_def)


section \<open>A machine\<close>

text \<open>Two processors and one interrupt controller; the second table has an entry of type 5 instead of the controller.\<close>

definition demo_mp :: "u8 \<Rightarrow> u8 list" where
  "demo_mp t =
     [95, 77, 80, 95, 0x10, 5, 0, 0, 1, 4, 139, 0, 0, 0, 0, 0]
     @ [80, 67, 77, 80, 92, 0, 4, 0 - (80 + 67 + 77 + 80 + 92 + 4 + 0xE0 + 0xFE + 1 + 2 + t + 7)]
     @ replicate 28 0 @ [0, 0, 0xE0, 0xFE] @ [0, 0, 0, 0]
     @ [0, 0, 0, 2] @ replicate 16 0 @ [0, 1, 0, 0] @ replicate 16 0 @ [t, 7, 0, 0, 0, 0, 0, 0]"

definition demo_mp_mem :: "u8 \<Rightarrow> u32 \<Rightarrow> u8" where
  "demo_mp_mem t a =
     (if a = 0x8000040E then 0x50 else if 0x80000500 \<le> a then get8 (demo_mp t) (unat (a - 0x80000500)) else 0)"

lemma demo_mp_at: "i < 108 \<Longrightarrow> demo_mp_mem t (0x80000500 + of_nat i) = get8 (demo_mp t) i"
proof -
  assume i: "i < 108"
  then have u: "unat (of_nat i :: u32) = i" by (simp add: unat_of_nat)
  have "unat (0x80000500 + of_nat i :: u32) = 0x80000500 + i" using i u by (simp add: unat_word_ariths)
  then have "(0x80000500 :: u32) \<le> 0x80000500 + of_nat i" "(0x80000500 + of_nat i :: u32) \<noteq> 0x8000040E"
    by (auto simp only: word_le_nat_alt word_unat_eq_iff) simp_all
  then show ?thesis by (simp only: demo_mp_mem_def) (simp add: u)
qed

lemma sum_loop_eq: "sum_loop n m a acc = acc + (\<Sum>i\<leftarrow>[0..<n]. ucast (m (a + of_nat i)))"
proof (induction n arbitrary: a acc)
  case (Suc n)
  have "(\<Sum>i\<leftarrow>[0..<Suc n]. (ucast (m (a + of_nat i)) :: u32)) = ucast (m a) + (\<Sum>i\<leftarrow>[0..<n]. ucast (m (a + 1 + of_nat i)))"
    by (simp add: upt_conv_Cons map_Suc_upt [symmetric] o_def ac_simps del: upt_Suc)
  then show ?case by (simp add: Suc ac_simps del: upt_Suc)
qed simp

lemma demo_sum:
  assumes "j + n \<le> 108" "(\<Sum>i\<leftarrow>take n (drop j (demo_mp t)). (ucast i :: u32)) = v"
  shows "mp_sum (demo_mp_mem t) (0x80000500 + of_nat j) n = ucast v"
proof -
  have "map (\<lambda>i. (ucast (demo_mp_mem t (0x80000500 + of_nat j + of_nat i)) :: u32)) [0..<n]
      = map ucast (take n (drop j (demo_mp t)))"
  proof (rule nth_equalityI)
    fix i assume "i < length (map (\<lambda>i. (ucast (demo_mp_mem t (0x80000500 + of_nat j + of_nat i)) :: u32)) [0..<n])"
    then show "map (\<lambda>i. (ucast (demo_mp_mem t (0x80000500 + of_nat j + of_nat i)) :: u32)) [0..<n] ! i
        = map ucast (take n (drop j (demo_mp t))) ! i"
      using assms(1) demo_mp_at [of "j + i" t] by (simp add: demo_mp_def get8_def add.assoc)
  qed (use assms(1) in \<open>simp add: demo_mp_def\<close>)
  then show ?thesis using assms(2) by (simp add: mp_sum_def sum_loop_eq del: upt_Suc)
qed

lemma demo_sums:
  "mp_sum (demo_mp_mem 2) 0x80000500 16 = 0" "mp_sum (demo_mp_mem 5) 0x80000500 16 = 0"
  "mp_sum (demo_mp_mem 2) 0x80000510 92 = 0" "mp_sum (demo_mp_mem 5) 0x80000510 92 = 0"
  using demo_sum [of 0 16 2 512] demo_sum [of 0 16 5 512] demo_sum [of 16 92 2 1024] demo_sum [of 16 92 5 1024]
  by (simp_all add: demo_mp_def sum_list_replicate)

lemma demo_mp_byte: "0x80000500 \<le> a \<Longrightarrow> demo_mp_mem t a = get8 (demo_mp t) (unat (a - 0x80000500))"
  by (auto simp: demo_mp_mem_def)

lemma sig_at_four: "sig_at m p [a, b, c, d] \<longleftrightarrow> m p = a \<and> m (p + 1) = b \<and> m (p + 2) = c \<and> m (p + 3) = d"
proof -
  have "(\<forall>i<length [a, b, c, d]. P i) \<longleftrightarrow> P 0 \<and> P 1 \<and> P 2 \<and> P 3" for P
    by (auto simp: less_Suc_eq numeral_eq_Suc)
  then show ?thesis by (simp add: sig_at_def)
qed

lemma demo_mp_search:
  assumes "mp_sum (demo_mp_mem t) 0x80000500 16 = 0"
  shows "mpsearch (demo_mp_mem t) = 0x80000500"
proof -
  have s: "sig_at (demo_mp_mem t) 0x80000500 [95, 77, 80, 95]"
    by (simp add: sig_at_four demo_mp_byte demo_mp_def get8_def)
  have "mpsearch1_loop (Suc 1024) (demo_mp_mem t) 0x80000500 0x80000900 = 0x80000500"
    unfolding mpsearch1_loop.simps using s assms by simp
  then show ?thesis by (simp add: mpsearch_def mpsearch1_def p2v_def Let_def demo_mp_mem_def)
qed

lemma demo_mp_config:
  assumes "mp_sum (demo_mp_mem t) 0x80000500 16 = 0" "mp_sum (demo_mp_mem t) 0x80000510 92 = 0"
  shows "mpconfig (demo_mp_mem t) = Some (0x80000500, 0x80000510)" "mem16 (demo_mp_mem t) 0x80000514 = 92"
proof -
  have s: "sig_at (demo_mp_mem t) 0x80000510 [80, 67, 77, 80]"
    by (simp add: sig_at_four demo_mp_byte demo_mp_def get8_def)
  have a: "mem32 (demo_mp_mem t) 0x80000504 = 0x510"
    by (simp add: mem32_def demo_mp_byte demo_mp_def get8_def)
  show l: "mem16 (demo_mp_mem t) 0x80000514 = 92"
    by (simp add: mem16_def demo_mp_byte demo_mp_def get8_def)
  have v: "demo_mp_mem t 0x80000516 = 4" by (simp add: demo_mp_byte demo_mp_def get8_def)
  show "mpconfig (demo_mp_mem t) = Some (0x80000500, 0x80000510)"
    by (simp add: mpconfig_def demo_mp_search [OF assms(1)] a l p2v_def s v assms(2) Let_def)
qed

lemma demo_mp_table: "mptable (demo_mp_mem 2) 0x8000056C 0x8000053C [Eproc 0 True, Eproc 1 False, Eioapic 7]"
proof -
  have e: "mptable (demo_mp_mem 2) 0x8000056C 0x8000056C []" by (rule end_of) simp
  have i: "mptable (demo_mp_mem 2) 0x8000056C 0x80000564 [Eioapic 7]"
    using ioapic [of "0x80000564" "0x8000056C" "demo_mp_mem 2" "[]"] e by (simp add: demo_mp_byte demo_mp_def get8_def nth_append)
  have p: "mptable (demo_mp_mem 2) 0x8000056C 0x80000550 [Eproc 1 False, Eioapic 7]"
    using processor [of "0x80000550" "0x8000056C" "demo_mp_mem 2"] i by (simp add: demo_mp_byte demo_mp_def get8_def nth_append)
  show ?thesis
    using processor [of "0x8000053C" "0x8000056C" "demo_mp_mem 2"] p by (simp add: demo_mp_byte demo_mp_def get8_def nth_append)
qed

lemma demo_mp_unknown: "mpunknown (demo_mp_mem 5) 0x8000056C 0x8000053C"
proof -
  have "mpunknown (demo_mp_mem 5) 0x8000056C 0x80000564" by (rule here) (simp_all add: demo_mp_byte demo_mp_def get8_def nth_append)
  then have "mpunknown (demo_mp_mem 5) 0x8000056C 0x80000550"
    by (intro after_processor [of "0x80000550"]) (simp_all add: demo_mp_byte demo_mp_def get8_def nth_append)
  then show ?thesis by (intro after_processor [of "0x8000053C"]) (simp_all add: demo_mp_byte demo_mp_def get8_def nth_append)
qed


end
