(* ===== verification/Ide.thy ===== *)
theory Ide
  imports Bio Devices
begin

text \<open>
  The disk driver (\<open>ide.c\<close>): the queue of requests, which is threaded through the buffers, and the accesses to the ports of
  the disk controller. Its \<open>iderw\<close> is called \<open>ide_rw\<close> here, as theory \<open>Bio\<close> has that of the memory disk.
\<close>

section \<open>Definitions\<close>

text \<open>The links \<open>qnext\<close> of the buffers are kept beside the other fields of \<open>struct buf\<close>.\<close>

record idest = bst +
  idequeue :: "nat option"
  qnext :: "nat \<Rightarrow> nat option"
  havedisk1 :: bool

text \<open>A driver that may also sleep or panic.\<close>

definition bindD :: "('s, 'a) res hw \<Rightarrow> ('a \<Rightarrow> 's \<Rightarrow> ('s, 'b) res hw) \<Rightarrow> ('s, 'b) res hw" where
  "bindD h f = bindH h (\<lambda>r. case r of Ret x s \<Rightarrow> f x s | Sleep s \<Rightarrow> HRet (Sleep s)
     | Panic w \<Rightarrow> HRet (Panic w) | Fault w \<Rightarrow> HRet (Fault w) | NoFuel \<Rightarrow> HRet NoFuel)"

text \<open>Waiting until the disk is ready ends when the controller says so: \<open>k\<close> bounds the number of reads of the status.\<close>

primrec idewait :: "nat \<Rightarrow> bool \<Rightarrow> int hw" where
  "idewait 0 checkerr = HFuel"
| "idewait (Suc k) checkerr =
     bindH (inb 0x1f7) (\<lambda>r.
     if r AND (0x80 OR 0x40) \<noteq> 0x40 then idewait k checkerr
     else if checkerr \<and> r AND (0x20 OR 0x01) \<noteq> 0 then HRet (-1)
     else HRet 0)"

primrec disk1_probe :: "nat \<Rightarrow> bool hw" where
  "disk1_probe 0 = HRet False"
| "disk1_probe (Suc i) = bindH (inb 0x1f7) (\<lambda>v. if v \<noteq> 0 then HRet True else disk1_probe i)"

text \<open>The new interrupt mask, and the state with \<open>havedisk1\<close>.\<close>

definition ideinit :: "nat \<Rightarrow> bool \<Rightarrow> nat \<Rightarrow> u16 \<Rightarrow> 'a idest_scheme \<Rightarrow> (u16 \<times> 'a idest_scheme) hw" where
  "ideinit k ismp ncpu irqmask s =
     bindH (picenable IRQ_IDE irqmask) (\<lambda>irqmask.
     bindH (ioapicenable ismp IRQ_IDE (ncpu - 1)) (\<lambda>_.
     bindH (idewait k False) (\<lambda>_.
     bindH (outb 0x1f6 (0xe0 OR push_bit 4 1)) (\<lambda>_.
     bindH (disk1_probe 1000) (\<lambda>found.
     let s = (if found then s\<lparr>havedisk1 := True\<rparr> else s) in
     bindH (outb 0x1f6 (0xe0 OR push_bit 4 0)) (\<lambda>_.
     HRet (irqmask, s)))))))"

definition idestart :: "nat \<Rightarrow> nat option \<Rightarrow> 'a idest_scheme \<Rightarrow> ('a idest_scheme, unit) res hw" where
  "idestart k b s =
     (case b of None \<Rightarrow> HRet (Panic ''idestart'')
      | Some b \<Rightarrow>
          let sector = b_sector (bufs s ! b) in
          bindH (idewait k False) (\<lambda>_.
          bindH (outb 0x3f6 0) (\<lambda>_.
          bindH (outb 0x1f2 1) (\<lambda>_.
          bindH (outb 0x1f3 (ucast (sector AND 0xff))) (\<lambda>_.
          bindH (outb 0x1f4 (ucast (drop_bit 8 sector AND 0xff))) (\<lambda>_.
          bindH (outb 0x1f5 (ucast (drop_bit 16 sector AND 0xff))) (\<lambda>_.
          bindH (outb 0x1f6 (ucast (0xe0 OR push_bit 4 (b_dev (bufs s ! b) AND 1) OR (drop_bit 24 sector AND 0x0f)))) (\<lambda>_.
          bindH (if b_dirty (bufs s ! b)
                 then bindH (outb 0x1f7 0x30) (\<lambda>_. outsl 0x1f0 (b_data (bufs s ! b)))
                 else outb 0x1f7 0x20) (\<lambda>_.
          HRet (Ret () s))))))))))"

definition ideintr :: "nat \<Rightarrow> 'a idest_scheme \<Rightarrow> ('a idest_scheme, unit) res hw" where
  "ideintr k s =
     bindD (HRet (acquire L_ide s)) (\<lambda>_ s.
     case idequeue s of
       None \<Rightarrow> HRet (release L_ide s)
     | Some b \<Rightarrow>
         let s = s\<lparr>idequeue := qnext s b\<rparr> in
         bindD (if \<not> b_dirty (bufs s ! b)
                then bindH (idewait k True) (\<lambda>r.
                  if r \<ge> 0 then bindH (insl 0x1f0 (512 div 4)) (\<lambda>d. HRet (Ret () (upd_buf b (\<lambda>x. x\<lparr>b_data := d\<rparr>) s)))
                  else HRet (Ret () s))
                else HRet (Ret () s)) (\<lambda>_ s.
         let s = upd_buf b (\<lambda>x. x\<lparr>b_valid := True\<rparr>) s;
             s = upd_buf b (\<lambda>x. x\<lparr>b_dirty := False\<rparr>) s in
         bindD (HRet (wakeup (Ch_buf b) s)) (\<lambda>_ s.
         bindD (if idequeue s \<noteq> None then idestart k (idequeue s) s else HRet (Ret () s)) (\<lambda>_ s.
         HRet (release L_ide s)))))"

text \<open>
  The end of the queue that starts at \<open>h\<close>: the buffer whose link \<open>pp\<close> points to, or \<open>None\<close> for \<open>idequeue\<close> itself.
  The first \<open>None\<close> is that the walk does not end within \<open>n\<close> steps.
\<close>

primrec queue_end :: "nat \<Rightarrow> (nat \<Rightarrow> nat option) \<Rightarrow> nat option \<Rightarrow> nat option \<Rightarrow> nat option option" where
  "queue_end 0 nx pp h = None"
| "queue_end (Suc n) nx pp h = (case h of None \<Rightarrow> Some pp | Some c \<Rightarrow> queue_end n nx (Some c) (nx c))"

definition set_link :: "nat option \<Rightarrow> nat \<Rightarrow> 'a idest_scheme \<Rightarrow> 'a idest_scheme" where
  "set_link pp b s =
     (case pp of None \<Rightarrow> s\<lparr>idequeue := Some b\<rparr> | Some c \<Rightarrow> s\<lparr>qnext := (qnext s)(c := Some b)\<rparr>)"

text \<open>The loop that waits for the end of the request, from its test on; it is entered again after \<open>sleep\<close>.\<close>

definition ide_rw_wait :: "nat \<Rightarrow> 'a idest_scheme \<Rightarrow> ('a idest_scheme, unit) res" where
  "ide_rw_wait b s =
     (if \<not> (b_valid (bufs s ! b) \<and> \<not> b_dirty (bufs s ! b))
      then bindR (sleep (Ch_buf b) L_ide s) (\<lambda>_ s. NoFuel)
      else release L_ide s)"

definition ide_rw :: "nat \<Rightarrow> nat \<Rightarrow> 'a idest_scheme \<Rightarrow> ('a idest_scheme, unit) res hw" where
  "ide_rw k b s =
     (if \<not> b_busy (bufs s ! b) then HRet (Panic ''iderw: buf not busy'')
      else if b_valid (bufs s ! b) \<and> \<not> b_dirty (bufs s ! b) then HRet (Panic ''iderw: nothing to do'')
      else if b_dev (bufs s ! b) \<noteq> 0 \<and> \<not> havedisk1 s then HRet (Panic ''iderw: ide disk 1 not present'')
      else
        bindD (HRet (acquire L_ide s)) (\<lambda>_ s.
        let s = s\<lparr>qnext := (qnext s)(b := None)\<rparr> in
        case queue_end (Suc NBUF) (qnext s) None (idequeue s) of
          None \<Rightarrow> HRet NoFuel
        | Some pp \<Rightarrow>
            let s = set_link pp b s in
            bindD (if idequeue s = Some b then idestart k (Some b) s else HRet (Ret () s)) (\<lambda>_ s.
            HRet (ide_rw_wait b s))))"

section \<open>The queue\<close>

text \<open>The buffers of the queue, in order.\<close>

fun qchain :: "(nat \<Rightarrow> nat option) \<Rightarrow> nat option \<Rightarrow> nat list \<Rightarrow> bool" where
  "qchain nx h [] \<longleftrightarrow> h = None"
| "qchain nx h (b # q) \<longleftrightarrow> h = Some b \<and> qchain nx (nx b) q"

definition ide_queue :: "nat list \<Rightarrow> 'a idest_scheme \<Rightarrow> bool" where
  "ide_queue q s \<longleftrightarrow> qchain (qnext s) (idequeue s) q \<and> distinct q \<and> set q \<subseteq> {..<NBUF}"

lemma qchain_cong: "(\<And>c. c \<in> set q \<Longrightarrow> nx c = nx' c) \<Longrightarrow> qchain nx h q = qchain nx' h q"
  by (induction q arbitrary: h) auto

lemma queue_end_chain:
  "qchain nx h q \<Longrightarrow> length q < n \<Longrightarrow> queue_end n nx pp h = Some (if q = [] then pp else Some (last q))"
proof (induction q arbitrary: n pp h)
  case Nil
  then show ?case by (cases n) auto
next
  case (Cons b q)
  then show ?case by (cases n) (auto simp: Cons.IH)
qed

lemma qchain_append:
  assumes "qchain nx h q" "distinct q" "b \<notin> set q" "nx b = None" "q \<noteq> []"
  shows "qchain (nx(last q := Some b)) h (q @ [b])"
  using assms
proof (induction q arbitrary: h)
  case (Cons a q)
  show ?case
  proof (cases "q = []")
    case True
    then show ?thesis using Cons.prems by auto
  next
    case False
    then have "a \<noteq> last q" using Cons.prems(2) by auto
    then show ?thesis using Cons False by auto
  qed
qed simp

lemma length_ide_queue: "ide_queue q s \<Longrightarrow> length q \<le> NBUF"
proof -
  assume "ide_queue q s"
  then have "card (set q) = length q" "set q \<subseteq> {..<NBUF}" by (auto simp: ide_queue_def distinct_card)
  then show ?thesis using card_mono [of "{..<NBUF}" "set q"] by simp
qed

lemma bindD_Ret [simp]: "bindD (HRet (Ret x s)) f = f x s"
  by (simp add: bindD_def)

lemma bindD_bindH [simp]: "bindD (bindH h f) g = bindH h (\<lambda>x. bindD (f x) g)"
  by (induction h) (simp_all add: bindD_def)

lemma bindH_assoc [simp]: "bindH (bindH h f) g = bindH h (\<lambda>x. bindH (f x) g)"
  by (induction h) simp_all

text \<open>A request goes to the end of the queue; only the first one is started at once.\<close>

lemma ide_rw_enqueues:
  assumes "ide_queue q s" "b \<notin> set q" "b < NBUF" "L_ide \<notin> set (held s)"
    and "b_busy (bufs s ! b)" "\<not> (b_valid (bufs s ! b) \<and> \<not> b_dirty (bufs s ! b))" "b_dev (bufs s ! b) \<noteq> 0 \<longrightarrow> havedisk1 s"
  obtains t where
    "ide_rw k b s = bindD (if q = [] then idestart k (Some b) t else HRet (Ret () t)) (\<lambda>_ s. HRet (ide_rw_wait b s))"
    "ide_queue (q @ [b]) t" "t = s\<lparr>held := L_ide # held s, idequeue := idequeue t, qnext := qnext t\<rparr>"
proof -
  let ?nx = "(qnext s)(b := None)"
  let ?u = "s\<lparr>held := L_ide # held s, qnext := ?nx\<rparr>"
  let ?t = "set_link (if q = [] then None else Some (last q)) b ?u"
  have q: "qchain (qnext s) (idequeue s) q" "distinct q" "set q \<subseteq> {..<NBUF}" using assms(1) by (auto simp: ide_queue_def)
  have c: "qchain ?nx (idequeue s) q" using q(1) assms(2) by (subst qchain_cong [of q _ "qnext s"]) auto
  have e: "queue_end 31 ?nx None (idequeue s) = Some (if q = [] then None else Some (last q))"
    using queue_end_chain [OF c, of 31 None] length_ide_queue [OF assms(1)] by simp
  have t: "ide_queue (q @ [b]) ?t"
    using c q assms(2,3) qchain_append [OF c q(2) assms(2)] by (auto simp: ide_queue_def set_link_def)
  have h: "idequeue ?t = Some b \<longleftrightarrow> q = []" using t assms(2) by (cases q) (auto simp: ide_queue_def)
  have r: "ide_rw k b s = bindD (if q = [] then idestart k (Some b) ?t else HRet (Ret () ?t)) (\<lambda>_ s. HRet (ide_rw_wait b s))"
  proof -
    have g: "(b_valid (bufs s ! b) \<and> \<not> b_dirty (bufs s ! b)) = False" "(b_dev (bufs s ! b) \<noteq> 0 \<and> \<not> havedisk1 s) = False"
      using assms(6,7) by auto
    show ?thesis using assms(4,5) h by (simp add: ide_rw_def g e Let_def del: queue_end.simps de_Morgan_conj)
  qed
  have f: "?t = s\<lparr>held := L_ide # held s, idequeue := idequeue ?t, qnext := qnext ?t\<rparr>"
    by (simp add: set_link_def)
  show ?thesis by (rule that [OF r t f])
qed

text \<open>The interrupt handler finishes the first request: its buffer is valid and clean, its waiters run, the next request is started.\<close>

definition served :: "nat \<Rightarrow> u8 list \<Rightarrow> 'a idest_scheme \<Rightarrow> 'a idest_scheme" where
  "served b d s = wakeup1 (Ch_buf b) (s\<lparr>idequeue := qnext s b,
     bufs := (bufs s)[b := (bufs s ! b)\<lparr>b_data := d, b_valid := True, b_dirty := False\<rparr>]\<rparr>)"

lemma served_fields [simp]:
  "held (served b d s) = held s" "qnext (served b d s) = qnext s" "idequeue (served b d s) = qnext s b"
  "bufs (served b d s) = (bufs s)[b := (bufs s ! b)\<lparr>b_data := d, b_valid := True, b_dirty := False\<rparr>]"
  by (simp_all add: served_def wakeup1_def)

lemma served_held: "served b d (s\<lparr>held := h\<rparr>) = (served b d s)\<lparr>held := h\<rparr>"
  by (simp add: served_def wakeup1_def)

lemma served_same_held: "(served b d s)\<lparr>held := held s\<rparr> = served b d s"
  by (simp add: served_def wakeup1_def)

lemma ide_queue_served: "ide_queue (b # q) s \<Longrightarrow> ide_queue q (served b d s)"
  by (simp add: ide_queue_def)

text \<open>The part of the handler after the transfer.\<close>

definition ideintr_rest :: "nat \<Rightarrow> nat \<Rightarrow> 'a idest_scheme \<Rightarrow> ('a idest_scheme, unit) res hw" where
  "ideintr_rest k b s =
     (let s = upd_buf b (\<lambda>x. x\<lparr>b_valid := True\<rparr>) s;
          s = upd_buf b (\<lambda>x. x\<lparr>b_dirty := False\<rparr>) s in
      bindD (HRet (wakeup (Ch_buf b) s)) (\<lambda>_ s.
      bindD (if idequeue s \<noteq> None then idestart k (idequeue s) s else HRet (Ret () s)) (\<lambda>_ s.
      HRet (release L_ide s))))"

lemma upd_buf_same: "upd_buf b (\<lambda>x. x\<lparr>b_data := b_data (bufs s ! b)\<rparr>) s = s"
  by (simp add: upd_buf_def)

lemma ideintr_rest_serves:
  assumes "ide_queue (b # q) s" "L_ide \<notin> set (held s)" "L_ptable \<notin> set (held s)" "length (bufs s) = Suc NBUF"
  shows "ideintr_rest k b (upd_buf b (\<lambda>x. x\<lparr>b_data := d\<rparr>) (s\<lparr>held := L_ide # held s, idequeue := qnext s b\<rparr>)) =
    (if q = [] then HRet (Ret () (served b d s)) else idestart k (Some (hd q)) (served b d s))"
proof -
  have b: "b < length (bufs s)" and q: "qnext s b = (if q = [] then None else Some (hd q))"
    using assms(1,4) by (cases q; auto simp: ide_queue_def)+
  let ?u = "served b d (s\<lparr>held := L_ide # held s\<rparr>)"
  have "ideintr_rest k b (upd_buf b (\<lambda>x. x\<lparr>b_data := d\<rparr>) (s\<lparr>held := L_ide # held s, idequeue := qnext s b\<rparr>))
      = bindD (if q = [] then HRet (Ret () ?u) else idestart k (Some (hd q)) ?u) (\<lambda>_ s. HRet (release L_ide s))"
    using b assms(3) by (simp add: ideintr_rest_def Let_def upd_buf_def wakeup_Ret served_def wakeup1_def q)
  also have "\<dots> = (if q = [] then HRet (Ret () (served b d s)) else idestart k (Some (hd q)) (served b d s))"
    using assms(2)
    by (auto simp: served_held served_same_held release_def idestart_def bindD_def Let_def)
  finally show ?thesis .
qed

lemma ideintr_serves:
  assumes "ide_queue (b # q) s" "L_ide \<notin> set (held s)" "L_ptable \<notin> set (held s)" "length (bufs s) = Suc NBUF"
  shows "ideintr k s =
    bindH (if b_dirty (bufs s ! b) then HRet (b_data (bufs s ! b))
           else bindH (idewait k True) (\<lambda>r. if r \<ge> 0 then insl 0x1f0 128 else HRet (b_data (bufs s ! b)))) (\<lambda>d.
    if q = [] then HRet (Ret () (served b d s)) else idestart k (Some (hd q)) (served b d s))"
proof -
  let ?u = "s\<lparr>held := L_ide # held s, idequeue := qnext s b\<rparr>"
  have i: "idequeue s = Some b" using assms(1) by (simp add: ide_queue_def)
  have u: "?u = upd_buf b (\<lambda>x. x\<lparr>b_data := b_data (bufs s ! b)\<rparr>) ?u" using upd_buf_same [of b ?u] by simp
  have "ideintr k s = bindD (if \<not> b_dirty (bufs s ! b)
          then bindH (idewait k True) (\<lambda>r.
            if r \<ge> 0 then bindH (insl 0x1f0 128) (\<lambda>d. HRet (Ret () (upd_buf b (\<lambda>x. x\<lparr>b_data := d\<rparr>) ?u)))
            else HRet (Ret () ?u))
          else HRet (Ret () ?u)) (\<lambda>_. ideintr_rest k b)"
    using assms(2) by (simp add: ideintr_def i ideintr_rest_def [abs_def] Let_def cong: if_cong)
  also have "\<dots> = bindH (if b_dirty (bufs s ! b) then HRet (b_data (bufs s ! b))
           else bindH (idewait k True) (\<lambda>r. if r \<ge> 0 then insl 0x1f0 128 else HRet (b_data (bufs s ! b)))) (\<lambda>d.
             ideintr_rest k b (upd_buf b (\<lambda>x. x\<lparr>b_data := d\<rparr>) ?u))"
    using upd_buf_same [of b ?u] by (simp add: if_distrib [of "\<lambda>h. bindD h f" for f] if_distrib [of "\<lambda>h. bindH h f" for f] cong: if_cong)
  finally show ?thesis unfolding ideintr_rest_serves [OF assms] .
qed

end
