(* ===== verification/Ide_Spec.thy ===== *)
theory Ide_Spec
  imports Ide Crash_Safety
begin

text \<open>
  The disk driver at a controller: a request of \<open>ide.c\<close>, from \<open>ide_rw\<close> to the interrupt that ends it, has the effect that the
  memory disk has in one step. The controller is a parameter, with what its standard says of the ports as hypotheses.
\<close>

section \<open>The controller\<close>

text \<open>
  The registers, the current command and the contents of the two drives, read off the state of the controller. A transfer
  concerns the drive and the sector that the registers select.
\<close>

record 'd atav =
  areg :: "'d \<Rightarrow> u16 \<Rightarrow> u8"
  acmd :: "'d \<Rightarrow> u8"
  acont :: "'d \<Rightarrow> bool \<Rightarrow> u32 \<Rightarrow> u8 list"

definition sel_drive :: "(u16 \<Rightarrow> u8) \<Rightarrow> bool" where
  "sel_drive r \<longleftrightarrow> bit (r 0x1f6) 4"

definition sel_lba :: "(u16 \<Rightarrow> u8) \<Rightarrow> u32" where
  "sel_lba r = (ucast (r 0x1f3) OR push_bit 8 (ucast (r 0x1f4)) OR push_bit 16 (ucast (r 0x1f5))
     OR push_bit 24 (ucast (r 0x1f6 AND 0x0f)))"

primrec polls :: "'d dev \<Rightarrow> nat \<Rightarrow> 'd \<Rightarrow> 'd" where
  "polls D 0 d = d"
| "polls D (Suc n) d = polls D n (snd (d_in D 0x1f7 d))"

text \<open>Reading the status changes nothing, and within \<open>k\<close> reads the disk is ready; when it is, it reports no error.\<close>

definition ata_status :: "'d dev \<Rightarrow> 'd atav \<Rightarrow> nat \<Rightarrow> bool" where
  "ata_status D A k \<longleftrightarrow>
     (\<forall>d. areg A (snd (d_in D 0x1f7 d)) = areg A d \<and> acmd A (snd (d_in D 0x1f7 d)) = acmd A d
        \<and> acont A (snd (d_in D 0x1f7 d)) = acont A d)
     \<and> (\<forall>d. fst (d_in D 0x1f7 d) AND 0xC0 = 0x40 \<longrightarrow> fst (d_in D 0x1f7 d) AND 0x21 = 0)
     \<and> (\<forall>d. \<exists>n<k. fst (d_in D 0x1f7 (polls D n d)) AND 0xC0 = 0x40)"

text \<open>Registers keep what is written to them, and a command is the current one until the next.\<close>

definition ata_registers :: "'d dev \<Rightarrow> 'd atav \<Rightarrow> bool" where
  "ata_registers D A \<longleftrightarrow>
     (\<forall>d v. areg A (d_out D 0x3f6 v d) = areg A d \<and> acont A (d_out D 0x3f6 v d) = acont A d)
     \<and> (\<forall>d v p. 0x1f2 \<le> p \<and> p \<le> 0x1f6 \<longrightarrow>
           areg A (d_out D p v d) = (areg A d)(p := v) \<and> acont A (d_out D p v d) = acont A d)
     \<and> (\<forall>d v. areg A (d_out D 0x1f7 v d) = areg A d \<and> acmd A (d_out D 0x1f7 v d) = v \<and> acont A (d_out D 0x1f7 v d) = acont A d)"

text \<open>The data port transfers one sector, in the direction of the command, when sectors are numbered linearly (bit 6); the data of a write is taken at once, as the driver expects.\<close>

definition ata_data :: "'d dev \<Rightarrow> 'd atav \<Rightarrow> bool" where
  "ata_data D A \<longleftrightarrow>
     (\<forall>d. acmd A d = 0x20 \<and> areg A d 0x1f2 = 1 \<and> bit (areg A d 0x1f6) 6 \<longrightarrow>
        fst (d_ins D 0x1f0 512 d) = acont A d (sel_drive (areg A d)) (sel_lba (areg A d))
        \<and> acont A (snd (d_ins D 0x1f0 512 d)) = acont A d)
     \<and> (\<forall>d bs. acmd A d = 0x30 \<and> areg A d 0x1f2 = 1 \<and> bit (areg A d 0x1f6) 6 \<and> length bs = 512 \<longrightarrow>
        acont A (d_outs D 0x1f0 bs d) = (acont A d)(sel_drive (areg A d) :=
          (acont A d (sel_drive (areg A d)))(sel_lba (areg A d) := bs)))"

section \<open>Requests\<close>

lemma runH_idewait_polls:
  assumes "ata_status D A j" "n < k" "fst (d_in D 0x1f7 (polls D n d)) AND 0xC0 = 0x40"
  shows "\<exists>e. runH D (idewait k c) d = Some (0, e) \<and> areg A e = areg A d \<and> acmd A e = acmd A d \<and> acont A e = acont A d"
  using assms(2,3)
proof (induction k arbitrary: n d)
  case (Suc k)
  have st: "areg A (snd (d_in D 0x1f7 d)) = areg A d" "acmd A (snd (d_in D 0x1f7 d)) = acmd A d"
      "acont A (snd (d_in D 0x1f7 d)) = acont A d"
      "fst (d_in D 0x1f7 d) AND 0xC0 = 0x40 \<Longrightarrow> fst (d_in D 0x1f7 d) AND 0x21 = 0"
    using assms(1) by (simp_all add: ata_status_def)
  show ?case
  proof (cases "fst (d_in D 0x1f7 d) AND 0xC0 = 0x40")
    case True
    then show ?thesis using st by (simp add: runH_bindH case_prod_beta)
  next
    case False
    then obtain m where m: "n = Suc m" using Suc.prems(2) by (cases n) auto
    then show ?thesis using Suc.IH [of m "snd (d_in D 0x1f7 d)"] Suc.prems False st
      by (simp add: runH_bindH case_prod_beta)
  qed
qed simp

lemma runH_idewait:
  assumes "ata_status D A k"
  obtains e where "runH D (idewait k c) d = Some (0, e)" "areg A e = areg A d" "acmd A e = acmd A d" "acont A e = acont A d"
proof -
  obtain n where "n < k" "fst (d_in D 0x1f7 (polls D n d)) AND 0xC0 = 0x40"
    using assms unfolding ata_status_def by blast
  from runH_idewait_polls [OF assms this] show ?thesis using that by blast
qed

text \<open>The registers that \<open>idestart\<close> writes select the sector of the buffer, if its number fits.\<close>

definition cmd_regs :: "u32 \<Rightarrow> u32 \<Rightarrow> (u16 \<Rightarrow> u8) \<Rightarrow> u16 \<Rightarrow> u8" where
  "cmd_regs dev sector r = r(0x1f2 := 1, 0x1f3 := ucast (sector AND 0xff), 0x1f4 := ucast (drop_bit 8 sector AND 0xff),
     0x1f5 := ucast (drop_bit 16 sector AND 0xff),
     0x1f6 := ucast (0xe0 OR push_bit 4 (dev AND 1) OR (drop_bit 24 sector AND 0x0f)))"

lemma byte_masks: "(0xff :: u32) = mask 8" "(0x0f :: u32) = mask 4" "(0x0f :: u8) = mask 4"
  by (simp_all add: mask_eq_exp_minus_1)

lemma bit_e0: "bit (0xe0 :: u32) n \<longleftrightarrow> n \<in> {5, 6, 7}"
proof -
  have "(0xe0 :: u32) = push_bit 5 (mask 3)" by (simp add: mask_eq_exp_minus_1)
  then show ?thesis by (simp only: bit_push_bit_iff bit_mask_iff) auto
qed

lemma cmd_regs_lba:
  assumes "sector < 2 ^ 28"
  shows "sel_lba (cmd_regs dev sector r) = sector"
proof (rule bit_word_eqI)
  fix n assume "n < LENGTH(32)"
  have "\<not> bit (unat sector) n" if "28 \<le> n"
  proof -
    have "unat sector < 2 ^ 28" using assms by (simp add: word_less_nat_alt)
    then have "unat sector < 2 ^ n" using that by (meson less_le_trans one_le_numeral power_increasing)
    then show ?thesis by (simp add: bit_iff_odd)
  qed
  then have top: "bit sector n \<Longrightarrow> n < 28" by (cases "28 \<le> n") (simp_all add: bit_unsigned_iff)
  let ?r = "cmd_regs dev sector r"
  have r3: "bit (ucast (?r 0x1f3) :: u32) i \<longleftrightarrow> i < 8 \<and> bit sector i" for i
    unfolding cmd_regs_def byte_masks by (auto simp: bit_simps)
  have r4: "bit (ucast (?r 0x1f4) :: u32) i \<longleftrightarrow> i < 8 \<and> bit sector (i + 8)" for i
    unfolding cmd_regs_def byte_masks by (auto simp: bit_simps ac_simps)
  have r5: "bit (ucast (?r 0x1f5) :: u32) i \<longleftrightarrow> i < 8 \<and> bit sector (i + 16)" for i
    unfolding cmd_regs_def byte_masks by (auto simp: bit_simps ac_simps)
  have r6: "bit (ucast (?r 0x1f6 AND 0x0f) :: u32) i \<longleftrightarrow> i < 4 \<and> bit sector (i + 24)" for i
  proof -
    have "bit (ucast (?r 0x1f6 AND mask 4) :: u32) i \<longleftrightarrow> i < 4 \<and> bit (?r 0x1f6) i" by (auto simp: bit_simps)
    moreover have "?r 0x1f6 = ucast (0xe0 OR push_bit 4 (dev AND 1) OR (drop_bit 24 sector AND mask 4))"
      unfolding cmd_regs_def byte_masks by simp
    moreover have "bit (ucast (0xe0 OR push_bit 4 (dev AND 1) OR (drop_bit 24 sector AND mask 4)) :: u8) i \<longleftrightarrow> bit sector (i + 24)"
      if "i < 4" using that unfolding bit_unsigned_iff bit_or_iff bit_e0 bit_push_bit_iff
      by (auto simp: bit_and_iff bit_mask_iff bit_drop_bit_eq ac_simps)
    ultimately show ?thesis unfolding byte_masks by auto
  qed
  show "bit (sel_lba ?r) n = bit sector n"
    unfolding sel_lba_def using top \<open>n < LENGTH(32)\<close> by (cases "24 \<le> n"; cases "16 \<le> n"; cases "8 \<le> n") (auto simp: bit_or_iff bit_push_bit_iff r3 r4 r5 r6)
qed

lemma cmd_regs_drive:
  assumes "dev < 2"
  shows "sel_drive (cmd_regs dev sector r) \<longleftrightarrow> dev = 1" "bit (cmd_regs dev sector r 0x1f6) 6" "cmd_regs dev sector r 0x1f2 = 1"
proof -
  have d: "dev = 0 \<or> dev = 1"
  proof -
    have "unat dev < 2" using assms by (simp add: word_less_nat_alt)
    then have "unat dev = 0 \<or> unat dev = 1" by linarith
    then show ?thesis by (simp add: word_unat_eq_iff)
  qed
  have e: "cmd_regs dev sector r 0x1f6 = ucast (0xe0 OR push_bit 4 (dev AND 1) OR (drop_bit 24 sector AND mask 4))"
    unfolding cmd_regs_def byte_masks by simp
  show "sel_drive (cmd_regs dev sector r) \<longleftrightarrow> dev = 1"
    using d unfolding sel_drive_def e bit_unsigned_iff bit_or_iff bit_e0 bit_push_bit_iff
    by (auto simp: bit_and_iff bit_mask_iff)
  show "bit (cmd_regs dev sector r 0x1f6) 6"
    unfolding e bit_unsigned_iff bit_or_iff bit_e0 by simp
  show "cmd_regs dev sector r 0x1f2 = 1" by (simp add: cmd_regs_def)
qed

text \<open>\<open>idestart\<close> hands the request to the controller: a write is carried out, a read is left to the interrupt.\<close>

lemma runH_idestart:
  assumes "ata_status D A k" "ata_registers D A" "ata_data D A"
    and "b_dev (bufs s ! b) < 2" "b_sector (bufs s ! b) < 2 ^ 28" "length (b_data (bufs s ! b)) = 512"
  obtains e where "runH D (idestart k (Some b) s) d = Some (Ret () s, e)"
    "b_dirty (bufs s ! b) \<Longrightarrow> acont A e = (acont A d)(b_dev (bufs s ! b) = 1 :=
        (acont A d (b_dev (bufs s ! b) = 1))(b_sector (bufs s ! b) := b_data (bufs s ! b)))"
    "\<not> b_dirty (bufs s ! b) \<Longrightarrow> acont A e = acont A d \<and> acmd A e = 0x20
        \<and> (\<exists>r. areg A e = cmd_regs (b_dev (bufs s ! b)) (b_sector (bufs s ! b)) r)"
proof -
  let ?x = "bufs s ! b"
  obtain d0 where d0: "runH D (idewait k False) d = Some (0, d0)" "acont A d0 = acont A d"
    by (rule runH_idewait [OF assms(1)])
  note [simp] = cmd_regs_drive [OF assms(4)] cmd_regs_lba [OF assms(5)]
  define d1 where "d1 = d_out D 0x1f6 (ucast (0xe0 OR push_bit 4 (b_dev ?x AND 1) OR (drop_bit 24 (b_sector ?x) AND 0x0f)))
    (d_out D 0x1f5 (ucast (drop_bit 16 (b_sector ?x) AND 0xff)) (d_out D 0x1f4 (ucast (drop_bit 8 (b_sector ?x) AND 0xff))
    (d_out D 0x1f3 (ucast (b_sector ?x AND 0xff)) (d_out D 0x1f2 1 (d_out D 0x3f6 0 d0)))))"
  define d2 where "d2 = d_out D 0x1f7 (if b_dirty ?x then 0x30 else 0x20) d1"
  have d1: "areg A d1 = cmd_regs (b_dev ?x) (b_sector ?x) (areg A d0)" "acont A d1 = acont A d"
    using assms(2) d0(2) unfolding d1_def cmd_regs_def ata_registers_def by simp_all
  have d2: "areg A d2 = areg A d1" "acmd A d2 = (if b_dirty ?x then 0x30 else 0x20)" "acont A d2 = acont A d"
    using assms(2) d1(2) unfolding d2_def ata_registers_def by simp_all
  have run: "runH D (idestart k (Some b) s) d = Some (Ret () s, if b_dirty ?x then d_outs D 0x1f0 (b_data ?x) d2 else d2)"
    by (simp add: idestart_def Let_def runH_bindH d0(1) d1_def d2_def)
  show ?thesis
  proof (rule that [OF run])
    assume "b_dirty ?x"
    then show "acont A (if b_dirty ?x then d_outs D 0x1f0 (b_data ?x) d2 else d2) =
        (acont A d)(b_dev ?x = 1 := (acont A d (b_dev ?x = 1))(b_sector ?x := b_data ?x))"
      using assms(3,6) d1 d2 unfolding ata_data_def by simp
  next
    assume "\<not> b_dirty ?x"
    then show "acont A (if b_dirty ?x then d_outs D 0x1f0 (b_data ?x) d2 else d2) = acont A d
        \<and> acmd A (if b_dirty ?x then d_outs D 0x1f0 (b_data ?x) d2 else d2) = 0x20
        \<and> (\<exists>r. areg A (if b_dirty ?x then d_outs D 0x1f0 (b_data ?x) d2 else d2) = cmd_regs (b_dev ?x) (b_sector ?x) r)"
      using d1 d2 by auto
  qed
qed

text \<open>The interrupt after a single request.\<close>

lemma runH_ideintr_single:
  assumes "ata_status D A k" "ata_data D A"
    and "ide_queue [b] s" "held s = []" "length (bufs s) = Suc NBUF" "b_dev (bufs s ! b) = 1" "b_sector (bufs s ! b) < 2 ^ 28"
    and "\<not> b_dirty (bufs s ! b) \<Longrightarrow> acmd A e = 0x20 \<and> (\<exists>r. areg A e = cmd_regs 1 (b_sector (bufs s ! b)) r)"
  obtains f where
    "runH D (ideintr k s) e = Some (Ret () (served b (if b_dirty (bufs s ! b) then b_data (bufs s ! b)
        else acont A e True (b_sector (bufs s ! b))) s), f)"
    "acont A f = acont A e"
proof (cases "b_dirty (bufs s ! b)")
  case True
  then show ?thesis using that [of e] ideintr_serves [OF assms(3) _ _ assms(5), of k] assms(4) by simp
next
  case False
  then obtain r where r: "acmd A e = 0x20" "areg A e = cmd_regs 1 (b_sector (bufs s ! b)) r" using assms(8) by blast
  obtain d where d: "runH D (idewait k True) e = Some (0, d)" "areg A d = areg A e" "acmd A d = acmd A e" "acont A d = acont A e"
    by (rule runH_idewait [OF assms(1)])
  have "fst (d_ins D 0x1f0 512 d) = acont A e True (b_sector (bufs s ! b))" "acont A (snd (d_ins D 0x1f0 512 d)) = acont A e"
    using assms(2) d r cmd_regs_drive [of 1 "b_sector (bufs s ! b)" r] cmd_regs_lba [OF assms(7), of 1 r]
    unfolding ata_data_def by simp_all
  then show ?thesis
    using that [of "snd (d_ins D 0x1f0 512 d)"] ideintr_serves [OF assms(3) _ _ assms(5), of k] assms(4) False d(1)
    by (simp add: runH_bindH case_prod_beta)
qed

lemma buf_flags:
  fixes x :: buf
  shows "x\<lparr>b_dirty := False, b_valid := True\<rparr> = x\<lparr>b_valid := True, b_dirty := False\<rparr>"
    "\<not> b_dirty x \<Longrightarrow> x\<lparr>b_data := d, b_valid := True\<rparr> = x\<lparr>b_data := d, b_valid := True, b_dirty := False\<rparr>"
  by (cases x; simp)+


section \<open>A controller with one sector written\<close>

text \<open>A controller that is always ready: its state is the registers, the command and the contents.\<close>

type_synonym ata = "(u16 \<Rightarrow> u8) \<times> u8 \<times> (bool \<Rightarrow> u32 \<Rightarrow> u8 list)"

definition demo_ata :: "ata dev" where
  "demo_ata = \<lparr>d_in = \<lambda>p d. (0x40, d),
     d_out = \<lambda>p v (r, c, m). if p = 0x1f7 then (r, v, m) else (r(p := v), c, m),
     d_ins = \<lambda>p n (r, c, m). (m (sel_drive r) (sel_lba r), (r, c, m)),
     d_outs = \<lambda>p bs (r, c, m). (r, c, m(sel_drive r := (m (sel_drive r))(sel_lba r := bs))),
     d_read = \<lambda>a d. (0, d), d_write = \<lambda>a v d. d, d_write16 = \<lambda>a v d. d\<rparr>"

definition demo_atav :: "ata atav" where
  "demo_atav = \<lparr>areg = \<lambda>(r, c, m) p. if p = 0x3f6 then 0 else r p, acmd = \<lambda>(r, c, m). c, acont = \<lambda>(r, c, m). m\<rparr>"

lemma demo_ata_laws: "ata_status demo_ata demo_atav 1" "ata_registers demo_ata demo_atav" "ata_data demo_ata demo_atav"
proof -
  show "ata_status demo_ata demo_atav 1" by (simp add: ata_status_def demo_ata_def demo_atav_def)
  have "(0x3f6 :: u16) \<noteq> p" if "p \<le> 0x1f6" for p using that by (auto simp: word_le_nat_alt)
  then show "ata_registers demo_ata demo_atav"
    by (auto simp: ata_registers_def demo_ata_def demo_atav_def fun_eq_iff split: prod.splits)
  show "ata_data demo_ata demo_atav"
    by (auto simp: ata_data_def demo_ata_def demo_atav_def sel_drive_def sel_lba_def)
qed

definition demo_ide :: idest where
  "demo_ide = bst.extend (vmst.extend demo (bst.fields
     ((replicate 31 zero_buf)[0 := zero_buf\<lparr>b_busy := True, b_dev := 1, b_sector := 5\<rparr>]) (\<lambda>_. []) 0 []))
     (idest.fields None (\<lambda>_. None) True)"

lemma demo_ide_fields [simp]:
  "held demo_ide = []" "cur demo_ide = Some 0" "ptable demo_ide = [demo_proc]" "idequeue demo_ide = None" "havedisk1 demo_ide"
  "bufs demo_ide = (replicate 31 zero_buf)[0 := zero_buf\<lparr>b_busy := True, b_dev := 1, b_sector := 5\<rparr>]"
  by (simp_all add: demo_ide_def demo_def bst.defs vmst.defs idest.defs)


end
