(* ===== verification/Boot.thy ===== *)
theory Boot
  imports Ide_Spec Exec
begin

text \<open>
  The boot loader (\<open>bootmain.c\<close>): it reads the kernel, an ELF file that starts at the second sector of the disk, segment
  by segment into memory, with the ports of the disk controller and no interrupts.
\<close>

section \<open>Definitions\<close>

text \<open>Physical memory with the bytes \<open>bs\<close> stored from \<open>a\<close> on.\<close>

definition put_mem :: "u32 \<Rightarrow> u8 list \<Rightarrow> (u32 \<Rightarrow> u8) \<Rightarrow> u32 \<Rightarrow> u8" where
  "put_mem a bs m x = (if unat (x - a) < length bs then bs ! unat (x - a) else m x)"

primrec waitdisk :: "nat \<Rightarrow> unit hw" where
  "waitdisk 0 = HFuel"
| "waitdisk (Suc k) = bindH (inb 0x1F7) (\<lambda>v. if v AND 0xC0 \<noteq> 0x40 then waitdisk k else HRet ())"

definition readsect :: "nat \<Rightarrow> u32 \<Rightarrow> u32 \<Rightarrow> (u32 \<Rightarrow> u8) \<Rightarrow> (u32 \<Rightarrow> u8) hw" where
  "readsect k dst offset m =
     bindH (waitdisk k) (\<lambda>_.
     bindH (outb 0x1F2 1) (\<lambda>_.
     bindH (outb 0x1F3 (ucast offset)) (\<lambda>_.
     bindH (outb 0x1F4 (ucast (drop_bit 8 offset))) (\<lambda>_.
     bindH (outb 0x1F5 (ucast (drop_bit 16 offset))) (\<lambda>_.
     bindH (outb 0x1F6 (ucast (drop_bit 24 offset OR 0xE0))) (\<lambda>_.
     bindH (outb 0x1F7 0x20) (\<lambda>_.
     bindH (waitdisk k) (\<lambda>_.
     bindH (insl 0x1F0 (512 div 4)) (\<lambda>d.
     HRet (put_mem dst d m))))))))))"

text \<open>The loop over the sectors; the first argument bounds their number.\<close>

primrec readseg_loop :: "nat \<Rightarrow> nat \<Rightarrow> u32 \<Rightarrow> u32 \<Rightarrow> u32 \<Rightarrow> (u32 \<Rightarrow> u8) \<Rightarrow> (u32 \<Rightarrow> u8) hw" where
  "readseg_loop 0 k pa epa offset m = HFuel"
| "readseg_loop (Suc n) k pa epa offset m =
     (if pa < epa
      then bindH (readsect k pa offset m) (\<lambda>m. readseg_loop n k (pa + 512) epa (offset + 1) m)
      else HRet m)"

definition readseg :: "nat \<Rightarrow> nat \<Rightarrow> u32 \<Rightarrow> u32 \<Rightarrow> u32 \<Rightarrow> (u32 \<Rightarrow> u8) \<Rightarrow> (u32 \<Rightarrow> u8) hw" where
  "readseg n k pa cnt offset m =
     (let epa = pa + cnt;
          pa = pa - offset mod 512;
          offset = offset div 512 + 1 in
      readseg_loop n k pa epa offset m)"

text \<open>
  The segments. The loop stops at \<open>eph\<close>, 32 bytes a header; the fields at 4, 12, 16 and 20 are \<open>off\<close>, \<open>paddr\<close>, \<open>filesz\<close>
  and \<open>memsz\<close>. The headers are read from memory anew in each turn.
\<close>

primrec boot_segments :: "nat \<Rightarrow> nat \<Rightarrow> nat \<Rightarrow> u32 \<Rightarrow> u32 \<Rightarrow> (u32 \<Rightarrow> u8) \<Rightarrow> (u32 \<Rightarrow> u8) hw" where
  "boot_segments 0 n k ph eph m = HFuel"
| "boot_segments (Suc j) n k ph eph m =
     (if ph < eph
      then
        let pa = mem32 m (ph + 12) in
        bindH (readseg n k pa (mem32 m (ph + 16)) (mem32 m (ph + 4)) m) (\<lambda>m.
        let filesz = mem32 m (ph + 16); memsz = mem32 m (ph + 20) in
        let m = (if memsz > filesz then put_mem (pa + filesz) (replicate (unat (memsz - filesz)) 0) m else m) in
        boot_segments j n k (ph + 32) eph m)
      else HRet m)"

text \<open>The result is the memory with the address that is called, or \<open>None\<close> for a file that is no ELF file.\<close>

definition bootmain :: "nat \<Rightarrow> nat \<Rightarrow> nat \<Rightarrow> (u32 \<Rightarrow> u8) \<Rightarrow> ((u32 \<Rightarrow> u8) \<times> u32 option) hw" where
  "bootmain j n k m =
     (let elf = 0x10000 in
      bindH (readseg n k elf 4096 0 m) (\<lambda>m.
      if mem32 m elf \<noteq> 0x464C457F then HRet (m, None)
      else
        let ph = elf + mem32 m (elf + 28);
            phnum = (ucast (mem16 m (elf + 44)) :: u32);
            eph = ph + phnum * 32 in
        bindH (boot_segments j n k ph eph m) (\<lambda>m.
        HRet (m, Some (mem32 m (elf + 24))))))"

section \<open>Loading\<close>

lemma runH_waitdisk_polls:
  assumes "ata_status D A j" "n < k" "fst (d_in D 0x1f7 (polls D n d)) AND 0xC0 = 0x40"
  shows "\<exists>e. runH D (waitdisk k) d = Some ((), e) \<and> areg A e = areg A d \<and> acmd A e = acmd A d \<and> acont A e = acont A d"
  using assms(2,3)
proof (induction k arbitrary: n d)
  case (Suc k)
  have st: "areg A (snd (d_in D 0x1f7 d)) = areg A d" "acmd A (snd (d_in D 0x1f7 d)) = acmd A d"
      "acont A (snd (d_in D 0x1f7 d)) = acont A d"
    using assms(1) by (simp_all add: ata_status_def)
  show ?case
  proof (cases "fst (d_in D 0x1f7 d) AND 0xC0 = 0x40")
    case True
    then show ?thesis using st by (simp add: runH_bindH case_prod_beta)
  next
    case False
    then obtain m where m: "n = Suc m" using Suc.prems(2) by (cases n) auto
    then show ?thesis using Suc.IH [of m "snd (d_in D 0x1f7 d)"] Suc.prems False st
      by (simp add: runH_bindH case_prod_beta)
  qed
qed simp

lemma runH_waitdisk:
  assumes "ata_status D A k"
  obtains e where "runH D (waitdisk k) d = Some ((), e)" "areg A e = areg A d" "acmd A e = acmd A d" "acont A e = acont A d"
proof -
  obtain n where "n < k" "fst (d_in D 0x1f7 (polls D n d)) AND 0xC0 = 0x40"
    using assms unfolding ata_status_def by blast
  from runH_waitdisk_polls [OF assms this] show ?thesis using that by blast
qed

text \<open>The loader writes the same registers as the kernel's driver does for disk 0.\<close>

lemma boot_regs:
  assumes "offset < 2 ^ 28"
  shows "r(0x1f2 := 1, 0x1f3 := ucast offset, 0x1f4 := ucast (drop_bit 8 offset), 0x1f5 := ucast (drop_bit 16 offset),
     0x1f6 := ucast (drop_bit 24 offset OR 0xE0)) = cmd_regs 0 offset r"
proof -
  have lo: "(ucast (x AND mask 8) :: u8) = ucast x" for x :: u32 by (rule bit_word_eqI) (auto simp: bit_simps)
  have "drop_bit 24 offset AND mask 4 = drop_bit 24 offset"
  proof -
    have "unat (drop_bit 24 offset) < 16" using assms by (simp add: drop_bit_eq_div unat_div word_less_nat_alt less_mult_imp_div_less)
    then have "drop_bit 24 offset < 2 ^ 4" by (simp add: word_less_nat_alt)
    then show ?thesis by (metis take_bit_eq_mask less_mask_eq)
  qed
  then show ?thesis unfolding cmd_regs_def byte_masks lo by (simp add: or.commute)
qed

lemma runH_readsect:
  assumes "ata_status D A k" "ata_registers D A" "ata_data D A" "offset < 2 ^ 28"
  obtains e where "runH D (readsect k dst offset m) d = Some (put_mem dst (acont A d False offset) m, e)" "acont A e = acont A d"
proof -
  obtain d0 where d0: "runH D (waitdisk k) d = Some ((), d0)" "acont A d0 = acont A d" by (rule runH_waitdisk [OF assms(1)])
  define d1 where "d1 = d_out D 0x1f6 (ucast (drop_bit 24 offset OR 0xE0)) (d_out D 0x1f5 (ucast (drop_bit 16 offset))
    (d_out D 0x1f4 (ucast (drop_bit 8 offset)) (d_out D 0x1f3 (ucast offset) (d_out D 0x1f2 1 d0))))"
  define d2 where "d2 = d_out D 0x1f7 0x20 d1"
  have "areg A d1 = cmd_regs 0 offset (areg A d0)" "acont A d1 = acont A d"
    using assms(2) d0(2) unfolding d1_def boot_regs [OF assms(4), symmetric] ata_registers_def by simp_all
  then have d2: "areg A d2 = cmd_regs 0 offset (areg A d0)" "acmd A d2 = 0x20" "acont A d2 = acont A d"
    using assms(2) unfolding d2_def ata_registers_def by simp_all
  obtain d3 where d3: "runH D (waitdisk k) d2 = Some ((), d3)" "areg A d3 = areg A d2" "acmd A d3 = acmd A d2" "acont A d3 = acont A d2"
    by (rule runH_waitdisk [OF assms(1)])
  have "fst (d_ins D 0x1f0 512 d3) = acont A d False offset" "acont A (snd (d_ins D 0x1f0 512 d3)) = acont A d"
    using assms(3) d2 d3 cmd_regs_drive [of 0 offset "areg A d0"] cmd_regs_lba [OF assms(4), of 0 "areg A d0"]
    unfolding ata_data_def by simp_all
  then show ?thesis
    using that [of "snd (d_ins D 0x1f0 512 d3)"] d0(1) d3(1)
    by (simp add: readsect_def runH_bindH case_prod_beta d1_def [symmetric] d2_def [symmetric])
qed

lemma put_mem_at:
  assumes "unat a + length bs \<le> 2 ^ 32" "unat a \<le> unat x"
  shows "put_mem a bs m x = (if unat x < unat a + length bs then bs ! (unat x - unat a) else m x)"
proof -
  have "unat (x - a) = unat x - unat a" using assms(2) by (simp add: unat_sub word_le_nat_alt)
  then show ?thesis using assms(2) by (auto simp: put_mem_def)
qed

lemma put_mem_below:
  assumes "unat a + length bs \<le> 2 ^ 32" "unat x < unat a"
  shows "put_mem a bs m x = m x"
proof -
  have "unat (x - a) = unat x + 4294967296 - unat a"
    using assms(2) unat_sub_if' [of x a] by (auto simp: word_le_nat_alt)
  then have "\<not> unat (x - a) < length bs" using assms by simp
  then show ?thesis by (simp add: put_mem_def)
qed

text \<open>The loop copies whole sectors; what lies below them is not touched.\<close>

lemma runH_readseg_loop:
  assumes "ata_status D A k" "ata_registers D A" "ata_data D A"
    and "\<forall>j<2 ^ 28. length (acont A d False j) = 512"
    and "unat epa + 512 < 2 ^ 32" "unat epa \<le> unat pa + 512 * n" "unat offset + n < 2 ^ 28"
  shows "\<exists>m' e. runH D (readseg_loop (Suc n) k pa epa offset m) d = Some (m', e) \<and> acont A e = acont A d
    \<and> (\<forall>x. unat x < unat pa \<longrightarrow> m' x = m x)
    \<and> (\<forall>x. unat pa \<le> unat x \<and> unat x < unat epa \<longrightarrow>
         m' x = acont A d False (offset + of_nat ((unat x - unat pa) div 512)) ! ((unat x - unat pa) mod 512))"
  using assms(4-7)
proof (induction n arbitrary: pa offset m d)
  case 0
  then show ?case by (auto simp: word_less_nat_alt)
next
  case (Suc n)
  show ?case
  proof (cases "pa < epa")
    case False
    then show ?thesis by (auto simp: word_less_nat_alt)
  next
    case True
    then have lt: "unat pa < unat epa" by (simp add: word_less_nat_alt)
    have p: "unat (pa + 512) = unat pa + 512" using lt Suc.prems(2) unat_plus_no_wrap [of pa 512] by simp
    have q: "unat (offset + 1) = unat offset + 1" using Suc.prems(4) unat_plus_no_wrap [of offset 1] by simp
    have o: "offset < 2 ^ 28" using Suc.prems(4) by (simp add: word_less_nat_alt)
    let ?c = "acont A d False"
    have len: "length (?c offset) = 512" using Suc.prems(1) o by blast
    obtain e where e: "runH D (readsect k pa offset m) d = Some (put_mem pa (?c offset) m, e)" "acont A e = acont A d"
      by (rule runH_readsect [OF assms(1-3) o])
    obtain m' f where f: "runH D (readseg_loop (Suc n) k (pa + 512) epa (offset + 1) (put_mem pa (?c offset) m)) e = Some (m', f)"
        "acont A f = acont A d" "\<forall>x. unat x < unat pa + 512 \<longrightarrow> m' x = put_mem pa (?c offset) m x"
        "\<forall>x. unat pa + 512 \<le> unat x \<and> unat x < unat epa \<longrightarrow>
           m' x = ?c (offset + 1 + of_nat ((unat x - (unat pa + 512)) div 512)) ! ((unat x - (unat pa + 512)) mod 512)"
      using Suc.IH [of e "pa + 512" "offset + 1" "put_mem pa (?c offset) m", unfolded p q e(2)] Suc.prems by auto
    have w: "unat pa + length (?c offset) \<le> 2 ^ 32" using len lt Suc.prems(2) by simp
    have "m' x = ?c (offset + of_nat ((unat x - unat pa) div 512)) ! ((unat x - unat pa) mod 512)"
      if x: "unat pa \<le> unat x" "unat x < unat epa" for x
    proof (cases "unat x < unat pa + 512")
      case True
      then show ?thesis using f(3) put_mem_at [OF w x(1), of m] len x(1) by simp
    next
      case False
      then have "unat x = unat pa + 512 + (unat x - (unat pa + 512))" by simp
      then obtain y where y: "unat x = unat pa + 512 + y" by blast
      have "unat x - (unat pa + 512) = y" "unat x - unat pa = y + 512" using y by simp_all
      moreover have "(y + 512) div 512 = Suc (y div 512)" "(y + 512) mod 512 = y mod 512" by simp_all
      moreover have "m' x = ?c (offset + 1 + of_nat (y div 512)) ! (y mod 512)" using f(4) x(2) y \<open>unat x - (unat pa + 512) = y\<close> by simp
      ultimately show ?thesis by (simp only: of_nat_Suc add.assoc)
    qed
    moreover have "m' x = m x" if "unat x < unat pa" for x using f(3) put_mem_below [OF w that] that by simp
    ultimately show ?thesis using True e f(1,2) readseg_loop.simps(2) [of "Suc n" k pa epa offset m]
      by (simp add: runH_bindH del: readseg_loop.simps)
  qed
qed

end
