(* ===== verification/Spec2Isabelle.thy ===== *)
theory Spec2Isabelle
  imports Vm_Protect Vm_Alloc Vm_Copy Trap Crash_Safety Bio_Spec Pipe_Spec Console_Spec Inode_Spec Block_Spec Grep Shell_Spec User_Programs Proc_Spec Mkfs_Spec Mp Boot
begin

text \<open>
  \<^bold>\<open>The program.\<close> xv6 is a small Unix-like kernel for several x86 processors, here with \<open>mprotect\<close>, signals
  and a copy-on-write fork, together with its user programs and the tool that builds its disk. The sources are the files under
  \<open>src/\<close>. The parts depend on each other as follows. Spin locks protect everything that processors share. The page
  allocator hands out the pages from which page tables, kernel stacks and pipes are made. Processes sleep and are woken. The
  buffer cache keeps disk blocks in memory, the log makes groups of block writes atomic, inodes and
  directories are built on the log, and files, pipes and the console are reached through file descriptors. Traps and
  system calls lead from a user program into the kernel; user programs see only the system calls.

  \<^bold>\<open>How the code is modelled.\<close> A function of the source is one definition with the name of the source where that is
  free. Machine integers are words of 8, 16 or 32 bits (\<open>u8\<close>, \<open>u16\<close>, \<open>u32\<close>); physical memory is a function from addresses to
  bytes, in which the free list of pages and the page tables live as the code keeps them. Kernel state is a chain of records, each
  component extending the one below it: \<open>klock\<close> (locks held), \<open>kmem\<close> (memory and free list), \<open>pst\<close> (process table), \<open>vmst\<close>
  (address spaces), \<open>bst\<close> (buffer cache and disk), \<open>logst\<close> (log), \<open>icst\<close> (inode cache), \<open>cnst\<close> (console), \<open>ftst\<close>
  (file table and pipes), \<open>sysst\<close> (traps). An operation maps a state to a result of type \<open>res\<close>: it returns
  a value with the new state, gives up the processor (\<open>Sleep\<close>), panics, accesses memory it may not (\<open>Fault\<close>), or
  uses up the fuel of a loop. A user program is a tree of its system calls (\<open>uprog\<close>), a device driver the tree of its
  accesses to the hardware (\<open>hw\<close>); kernel and device are parameters of their execution.

  \<^bold>\<open>The theories.\<close>
  \<^item> \<open>Prelude\<close>: results, words and lists. \<open>Bytes\<close>: numbers in buffers. \<open>Cstring\<close>: \<open>string.c\<close>.
    \<open>Mmu\<close> and \<open>Segments\<close>: \<open>mmu.h\<close>, \<open>memlayout.h\<close>.
  \<^item> \<open>Spinlock\<close> (\<open>spinlock.c\<close>): the lock code of all processors as an interleaved step relation. Mutual exclusion and that
    release never panics are invariants; a refinement gives the sequential view \<open>acquire\<close>/\<open>release\<close> that the rest uses.
  \<^item> \<open>Kalloc\<close> (\<open>kalloc.c\<close>): the free list, and the contract of a page allocator as a locale.
  \<^item> \<open>Proc\<close>, \<open>Process\<close>, \<open>Proc_Spec\<close> (\<open>proc.c\<close>): the process table; that a woken process runs; the store of
    \<open>allocproc\<close> into its neighbour.
  \<^item> \<open>Vm\<close> (\<open>vm.c\<close>) with \<open>Vm_Map\<close>, \<open>Vm_Kvm\<close>, \<open>Vm_Alloc\<close>, \<open>Vm_Copy\<close>, \<open>Vm_Copyout\<close>, \<open>Vm_Protect\<close>: page tables in memory,
    read as a map from pages to frames, and what each operation does to this map.
  \<^item> \<open>Bio\<close>, \<open>Bio_Cache\<close>, \<open>Bio_Spec\<close> (\<open>bio.c\<close>, \<open>memide.c\<close>): the linked list of buffers refines a list in order of
    use; the contract of the cache is the locale \<open>block_cache\<close>.
  \<^item> \<open>Log\<close>, \<open>Log_Crash\<close>, \<open>Crash_Safety\<close> (\<open>log.c\<close>): the writes of a commit, and recovery after a crash at any point of them.
  \<^item> \<open>Inode\<close>, \<open>Fs\<close> (\<open>fs.c\<close>) with \<open>Block_Spec\<close>, \<open>Inode_Spec\<close>: allocation of blocks, inodes, directories, paths.
  \<^item> \<open>File\<close> (\<open>file.c\<close>, \<open>pipe.c\<close>), \<open>Ring\<close>, \<open>Pipe_Spec\<close>: open files; pipes refine bounded queues.
  \<^item> \<open>Console\<close>, \<open>Console_Spec\<close> (\<open>console.c\<close>, \<open>kbd.c\<close>, \<open>uart.c\<close>): output, formatted printing, line editing.
  \<^item> \<open>Exec\<close>, \<open>Sysfile\<close>, \<open>Trap\<close> (\<open>exec.c\<close>, \<open>syscall.c\<close>, \<open>sysfile.c\<close>, \<open>sysproc.c\<close>, \<open>trap.c\<close>): definitions only. \<open>Demo\<close>: a
    state at which properties are instantiated.
  \<^item> \<open>Devices\<close> (\<open>lapic.c\<close>, \<open>ioapic.c\<close>, \<open>picirq.c\<close>, \<open>timer.c\<close>, initialisation of the serial port and of the interrupt
    table), \<open>Mp\<close> (\<open>mp.c\<close>), \<open>Ide\<close> and \<open>Ide_Spec\<close> (\<open>ide.c\<close>), \<open>Boot\<close> (\<open>bootmain.c\<close>). \<open>Ide_Spec\<close> shows that the disk
    driver has the effect of the memory disk, so that what is proved above the memory disk does not depend on which is linked.
  \<^item> \<open>User_Lib\<close> (\<open>ulib.c\<close>, \<open>printf.c\<close>), \<open>Grep\<close>, \<open>Shell\<close> and \<open>Shell_Spec\<close> (\<open>sh.c\<close>), \<open>User_Programs\<close> (the small programs).
  \<^item> \<open>Mkfs\<close>, \<open>Mkfs_Spec\<close> (\<open>mkfs.c\<close>): the image that the kernel starts with.

  \<^bold>\<open>Fuel.\<close> Loops with a bound in the code recurse on it. Other loops have fuel, and the properties show that it is
  enough: a scan of the cache visits the 30 buffers and the head (31 steps); \<open>balloc\<close> makes at most \<open>2 ^ 32 / 4096 + 1\<close>
  steps; a walk through the queue of the disk driver ends because its buffers are distinct; \<open>mpinit\<close> needs one step for each
  entry, and for an unknown entry no fuel is enough; the parser of the shell has four steps for each byte of the line. Loops
  of drivers that wait for a device take the number of reads within which it becomes ready, and user programs the
  number of reads of their input.

  \<^bold>\<open>Simplifications.\<close> Counters that the code keeps in an \<open>int\<close> and that count nested or live objects (\<open>ncli\<close>, the
  reference counts of inodes and files) are unbounded integers. Undefined overflow of a signed integer (the negation of the smallest
  number in \<open>printint\<close>, block numbers above \<open>2 ^ 31\<close> in \<open>balloc\<close>) wraps around. A kernel buffer that is passed to \<open>pipewrite\<close>,
  \<open>copyout\<close> or \<open>writei\<close> is the list of its bytes: \<open>pipewrite\<close> is called with a list of the length that it is given, and a source that overlaps the
  destination is not covered. In \<open>sched\<close> the nesting count is the number of locks held and interrupts are off while one is
  held, which the invariant of theory \<open>Spinlock\<close> justifies, so the test for interrupts is left out. The disk is a map of whole
  sectors, and a sector is written completely or not at all.

  \<^bold>\<open>Not modelled.\<close> Assembler code (\<open>bootasm.S\<close>, \<open>entry.S\<close>, \<open>swtch.S\<close>, \<open>trapasm.S\<close>, \<open>usys.S\<close>): the step from one
  register context to another has no counterpart here. \<open>main.c\<close>: it calls the initialisations in turn. \<open>umalloc.c\<close>: no modelled program depends on the
  places of its blocks. The translation cache of the processor. Console messages of most operations. The programs that test the
  kernel (\<open>usertests.c\<close> and others).
\<close>

end
